(* ===== verification/Osa_Prelude.thy ===== *)
theory Osa_Prelude
  imports Main "HOL-Library.Word" "HOL-Library.AList"
begin

text \<open>
  Shared vocabulary of the development: machine integers and byte strings as the Rust
  sources use them, big-endian and length-prefixed encodings with their injectivity
  lemmas, the handful of \<open>str\<close> operations the sources call, and generic lemmas on
  lists, options and finite maps.

  A Rust \<open>String\<close> is UTF-8, so a \<^typ>\<open>string\<close> here is the list of its bytes (one
  \<^typ>\<open>char\<close> per byte) and \<open>length\<close> is \<open>String::len\<close>.
\<close>

named_theorems encoding_inj \<open>injectivity of the canonical encodings\<close>
named_theorems osa_splits \<open>split rules for the result types of the model\<close>

declare if_splits [osa_splits] option.splits [osa_splits] sum.splits [osa_splits]
  prod.splits [osa_splits]

subsection \<open>Machine integers, bytes, strings\<close>

type_synonym u8 = "8 word"
type_synonym u16 = "16 word"
type_synonym u32 = "32 word"
type_synonym u64 = "64 word"
type_synonym i32 = "32 word"
type_synonym i64 = "64 word"
type_synonym bytes = "u8 list"
type_synonym uuid = "128 word"
type_synonym hash = "256 word"
type_synonym hasher = "bytes \<Rightarrow> hash"

definition u64_max :: u64 where
  "u64_max = - 1"

definition saturating_add64 :: "u64 \<Rightarrow> u64 \<Rightarrow> u64" where
  "saturating_add64 a b = (if a \<le> a + b then a + b else u64_max)"

definition saturating_sub64 :: "u64 \<Rightarrow> u64 \<Rightarrow> u64" where
  "saturating_sub64 a b = (if b \<le> a then a - b else 0)"

definition checked_add64 :: "u64 \<Rightarrow> u64 \<Rightarrow> u64 option" where
  "checked_add64 a b = (if a \<le> a + b then Some (a + b) else None)"

lemma unat_u64_max [simp]: "unat u64_max = 2 ^ 64 - 1"
  by (simp add: u64_max_def unsigned_minus_1_eq_mask mask_eq_exp_minus_1)

lemma unat_u64_bound [simp]: "unat (w :: u64) < 2 ^ 64"
  using unsigned_less [of w, where ?'a = nat] by simp

lemma u64_no_overflow: "a \<le> a + b \<longleftrightarrow> unat a + unat b < 2 ^ 64" for a b :: u64
proof (cases "unat a + unat b < 2 ^ 64")
  case False
  then have "(unat a + unat b) mod 2 ^ 64 = unat a + unat b - 2 ^ 64"
    using unat_u64_bound [of a] unat_u64_bound [of b] by (subst mod_if) simp
  then have "unat (a + b) < unat a"
    using False unat_u64_bound [of b] by (simp add: unat_word_ariths)
  then show ?thesis using False by (simp add: word_le_nat_alt)
qed (simp add: word_le_nat_alt unat_word_ariths)

lemma unat_saturating_add64:
  "unat (saturating_add64 a b) = min (unat a + unat b) (2 ^ 64 - 1)"
  by (auto simp: saturating_add64_def u64_no_overflow unat_word_ariths)

lemma unat_saturating_sub64: "unat (saturating_sub64 a b) = unat a - unat b"
  by (auto simp: saturating_sub64_def unat_sub word_le_nat_alt)

lemma checked_add64_Some:
  "checked_add64 a b = Some c \<Longrightarrow> unat c = unat a + unat b"
  by (auto simp: checked_add64_def u64_no_overflow unat_word_ariths split: if_splits)

lemma sint_of_nat_64: "n < 2 ^ 63 \<Longrightarrow> sint (of_nat n :: 64 word) = int n"
  by (simp add: signed_of_nat signed_take_bit_int_eq_self)

lemma sint_small: "unat e < 2 ^ 63 \<Longrightarrow> sint e = uint e" for e :: i64
  using sint_of_nat_64 [of "unat e"] by simp

subsection \<open>Big-endian encodings\<close>

text \<open>\<open>to_be_bytes\<close> of an unsigned or two's complement integer of \<open>n\<close> bytes.\<close>

definition be_bytes :: "nat \<Rightarrow> 'a::len word \<Rightarrow> bytes" where
  "be_bytes n w = map (\<lambda>i. ucast (drop_bit (8 * i) w)) (rev [0..<n])"

definition u64_to_be_bytes :: "u64 \<Rightarrow> bytes" where
  "u64_to_be_bytes w = be_bytes 8 w"

definition i32_to_be_bytes :: "i32 \<Rightarrow> bytes" where
  "i32_to_be_bytes w = be_bytes 4 w"

lemma length_be_bytes [simp]: "length (be_bytes n w) = n"
  by (simp add: be_bytes_def)

lemma length_u64_to_be_bytes [simp]: "length (u64_to_be_bytes w) = 8"
  by (simp add: u64_to_be_bytes_def)

lemma length_i32_to_be_bytes [simp]: "length (i32_to_be_bytes w) = 4"
  by (simp add: i32_to_be_bytes_def)

lemma be_bytes_inj:
  fixes v w :: "'a::len word"
  assumes eq: "be_bytes n v = be_bytes n w" and wide: "LENGTH('a) \<le> 8 * n"
  shows "v = w"
proof (rule bit_word_eqI)
  fix k assume k: "k < LENGTH('a)"
  let ?i = "k div 8"
  have i: "?i < n" using k wide by linarith
  have "(ucast (drop_bit (8 * ?i) v) :: u8) = ucast (drop_bit (8 * ?i) w)"
    using eq i by (auto simp: be_bytes_def map_eq_conv)
  then have "bit (ucast (drop_bit (8 * ?i) v) :: u8) (k mod 8)
      = bit (ucast (drop_bit (8 * ?i) w) :: u8) (k mod 8)"
    by simp
  then show "bit v k = bit w k"
    by (simp add: bit_ucast_iff bit_drop_bit_eq)
qed

lemma u64_to_be_bytes_inj [encoding_inj, simp]:
  "u64_to_be_bytes v = u64_to_be_bytes w \<longleftrightarrow> v = w"
  by (auto simp: u64_to_be_bytes_def dest: be_bytes_inj)

lemma i32_to_be_bytes_inj [encoding_inj, simp]:
  "i32_to_be_bytes v = i32_to_be_bytes w \<longleftrightarrow> v = w"
  by (auto simp: i32_to_be_bytes_def dest: be_bytes_inj)

text \<open>\<open>from_be_bytes\<close>, the inverse on inputs of the right length.\<close>

definition of_be_bytes :: "bytes \<Rightarrow> 'a::len word" where
  "of_be_bytes bs = of_nat (foldl (\<lambda>a b. a * 256 + unat b) 0 bs)"

lemma foldl_be_bytes:
  "foldl (\<lambda>a b. a * 256 + unat b) a (be_bytes n w) = a * 256 ^ n + unat w mod 256 ^ n"
proof (induction n arbitrary: a)
  case (Suc n)
  have d: "unat (ucast (drop_bit (8 * n) w) :: u8) = unat w div 256 ^ n mod 256"
  proof -
    have "unat (drop_bit (8 * n) w) = unat w div 256 ^ n"
      by (simp only: unsigned_drop_bit_eq) (simp add: drop_bit_eq_div power_mult take_bit_nat_eq_self)
    then show ?thesis by (simp add: unsigned_ucast_eq take_bit_eq_mod)
  qed
  have "unat w mod 256 ^ Suc n = (unat w div 256 ^ n mod 256) * 256 ^ n + unat w mod 256 ^ n"
    using mod_mult2_eq [of "unat w" "256 ^ n" 256] by (simp add: mult.commute)
  moreover have "be_bytes (Suc n) w = ucast (drop_bit (8 * n) w) # be_bytes n w"
    by (simp add: be_bytes_def)
  ultimately show ?case
    using Suc.IH [of "a * 256 + unat w div 256 ^ n mod 256"] by (simp add: d) (simp add: algebra_simps)
qed (simp add: be_bytes_def)

lemma of_be_bytes_inverse:
  assumes "LENGTH('a::len) \<le> 8 * n"
  shows "of_be_bytes (be_bytes n (w :: 'a word)) = w"
proof -
  have "unat w < 2 ^ LENGTH('a)" by (rule unsigned_less)
  also have "\<dots> \<le> 256 ^ n" using assms power_increasing [of "LENGTH('a)" "8 * n" "2 :: nat"]
    by (simp add: power_mult)
  finally show ?thesis by (simp add: of_be_bytes_def foldl_be_bytes)
qed

lemma append_eq_same_length:
  "length xs = length ys \<Longrightarrow> xs @ us = ys @ vs \<longleftrightarrow> xs = ys \<and> us = vs"
  by simp

subsection \<open>String bytes and length-prefixed fields\<close>

definition as_bytes :: "string \<Rightarrow> bytes" where
  "as_bytes s = map of_char s"

lemma length_as_bytes [simp]: "length (as_bytes s) = length s"
  by (simp add: as_bytes_def)

lemma of_char_u8_inj: "(of_char c :: u8) = of_char d \<Longrightarrow> c = d"
proof -
  assume "(of_char c :: u8) = of_char d"
  then have "unat (of_char c :: u8) = unat (of_char d :: u8)" by simp
  moreover have "unat (of_char x :: u8) = (of_char x :: nat)" for x
  proof -
    have "(of_char x :: u8) = of_nat (of_char x)" by (metis of_nat_of_char)
    moreover have "(of_char x :: nat) < 256" by (rule nat_of_char_less_256)
    ultimately show ?thesis by (simp add: unat_of_nat)
  qed
  ultimately show "c = d" by simp
qed

lemma as_bytes_inj [encoding_inj, simp]: "as_bytes s = as_bytes t \<longleftrightarrow> s = t"
  by (auto simp: as_bytes_def list_eq_iff_nth_eq intro: of_char_u8_inj)

definition len_u64 :: "'a list \<Rightarrow> u64" where
  "len_u64 xs = of_nat (length xs)"

definition push_field :: "bytes \<Rightarrow> bytes" where
  "push_field f = u64_to_be_bytes (len_u64 f) @ f"

text \<open>
  Rust bounds every allocation by \<open>isize::MAX\<close> bytes, so a slice length always fits in
  64 bits; \<open>fits\<close> states that of a HOL list.
\<close>

definition fits :: "'a list \<Rightarrow> bool" where
  "fits xs \<longleftrightarrow> length xs < 2 ^ 64"

lemma len_u64_inj: "fits xs \<Longrightarrow> fits ys \<Longrightarrow> len_u64 xs = len_u64 ys \<Longrightarrow> length xs = length ys"
  by (simp add: fits_def len_u64_def of_nat_inverse word_unat_eq_iff unat_of_nat)

lemma fits_as_bytes [simp]: "fits (as_bytes s) \<longleftrightarrow> fits s"
  by (simp add: fits_def)

lemma push_field_inj [encoding_inj]:
  assumes "fits f" "fits g" and eq: "push_field f @ us = push_field g @ vs"
  shows "f = g \<and> us = vs"
proof -
  from eq have "u64_to_be_bytes (len_u64 f) = u64_to_be_bytes (len_u64 g)"
    and rest: "f @ us = g @ vs"
    by (simp_all add: push_field_def append_eq_same_length)
  then have "length f = length g"
    using len_u64_inj assms(1,2) by simp
  with rest show ?thesis by simp
qed

lemma push_field_eq [encoding_inj]:
  "fits f \<Longrightarrow> fits g \<Longrightarrow> push_field f @ us = push_field g @ vs \<longleftrightarrow> f = g \<and> us = vs"
  using push_field_inj by blast

lemma push_field_eq_end [encoding_inj]:
  "fits f \<Longrightarrow> fits g \<Longrightarrow> push_field f = push_field g \<longleftrightarrow> f = g"
  using push_field_eq [of f g "[]" "[]"] by simp

lemma be_bytes_eq [encoding_inj]:
  "LENGTH('a::len) \<le> 8 * n \<Longrightarrow> be_bytes n (v :: 'a word) = be_bytes n w \<longleftrightarrow> v = w"
  using of_be_bytes_inverse [of n v] of_be_bytes_inverse [of n w] by metis

subsection \<open>Hash maps as association lists with distinct keys\<close>

text \<open>
  \<open>HashMap\<close> and \<open>BTreeMap\<close> are association lists: \<^const>\<open>map_of\<close> is \<open>get\<close>,
  \<^const>\<open>AList.update\<close> is \<open>insert\<close>, \<^const>\<open>AList.delete\<close> is \<open>remove\<close>, a filter is
  \<open>retain\<close> and \<^const>\<open>length\<close> is \<open>len\<close>.  Keys stay distinct.
\<close>

type_synonym ('k, 'v) amap = "('k \<times> 'v) list"

definition amap_ok :: "('k, 'v) amap \<Rightarrow> bool" where
  "amap_ok m \<longleftrightarrow> distinct (map fst m)"

lemma amap_ok_Nil [simp, intro]: "amap_ok []"
  by (simp add: amap_ok_def)

lemma amap_ok_update [simp, intro]: "amap_ok m \<Longrightarrow> amap_ok (AList.update k v m)"
  by (simp add: amap_ok_def distinct_update)

lemma amap_ok_delete [simp, intro]: "amap_ok m \<Longrightarrow> amap_ok (AList.delete k m)"
  by (simp add: amap_ok_def distinct_delete)

lemma amap_ok_filter [simp, intro]: "amap_ok m \<Longrightarrow> amap_ok (filter P m)"
  by (simp add: amap_ok_def distinct_map_filter)

lemma amap_length_card: "amap_ok m \<Longrightarrow> length m = card (dom (map_of m))"
  by (simp add: amap_ok_def dom_map_of_conv_image_fst distinct_card flip: length_map set_map)

lemma map_of_filter_key:
  "amap_ok m \<Longrightarrow> map_of (filter P m) k =
     (case map_of m k of Some v \<Rightarrow> if P (k, v) then Some v else None | None \<Rightarrow> None)"
  by (induction m) (auto simp: amap_ok_def map_of_eq_None_iff split: option.splits
      intro!: map_of_eq_None_iff [THEN iffD2])

lemma map_of_filter_Some:
  "amap_ok m \<Longrightarrow> map_of (filter P m) k = Some v \<longleftrightarrow> map_of m k = Some v \<and> P (k, v)"
  by (auto simp: amap_ok_def distinct_map_filter)

lemma length_update_amap:
  "length (AList.update k v m) = (if map_of m k = None then Suc (length m) else length m)"
  by (induction m) auto

lemma length_delete_less: "map_of m k = Some v \<Longrightarrow> length (AList.delete k m) < length m"
  by (induction m) (auto simp: AList.length_delete_le le_imp_less_Suc split: if_splits)

lemma amap_lookup_simps [simp]:
  "map_of (AList.update k v m) = (map_of m)(k \<mapsto> v)"
  "map_of (AList.delete k m) = (map_of m)(k := None)"
  by (simp_all add: update_conv' delete_conv')

subsection \<open>Fallible iteration\<close>

text \<open>\<open>iter().map(f).collect::<Result<Vec<_>, _>>()\<close>: the results in order, or the first error.\<close>

fun collect_results :: "('a \<Rightarrow> 'e + 'b) \<Rightarrow> 'a list \<Rightarrow> 'e + 'b list" where
  "collect_results f [] = Inr []"
| "collect_results f (x # xs) =
     (case f x of
        Inl e \<Rightarrow> Inl e
      | Inr y \<Rightarrow> (case collect_results f xs of Inl e \<Rightarrow> Inl e | Inr ys \<Rightarrow> Inr (y # ys)))"

lemma collect_results_Inr:
  "collect_results f xs = Inr ys \<Longrightarrow> list_all2 (\<lambda>x y. f x = Inr y) xs ys"
  by (induction xs arbitrary: ys) (auto split: sum.splits)

lemma collect_results_source:
  assumes "collect_results f xs = Inr ys" "y \<in> set ys"
  obtains x where "x \<in> set xs" "f x = Inr y"
proof -
  obtain i where "i < length ys" "y = ys ! i" using assms(2) by (auto simp: in_set_conv_nth)
  then show thesis
    using collect_results_Inr [OF assms(1)] by (intro that [of "xs ! i"]) (auto simp: list_all2_conv_all_nth)
qed

lemma collect_results_round_trip:
  "(\<And>x. x \<in> set xs \<Longrightarrow> f (g x) = Inr x) \<Longrightarrow> collect_results f (map g xs) = Inr xs"
  by (induction xs) auto

end
