(* ===== verification/Reorder.thy ===== *)
theory Reorder
  imports Osa_Prelude
begin

text \<open>
  \<^verbatim>\<open>osa-core/src/stream.rs\<close>: the reorder buffer that orders one monotonic \<open>seq\<close> stream.
  The record is the struct, \<open>rb_accept\<close> is \<open>ReorderBuffer::accept\<close> with its drain loop as
  \<open>rb_drain\<close>.  The lemmas show the window bound and exactly-once, in-order delivery for every
  sequence of offers.
\<close>

subsection \<open>Model\<close>

datatype 'a accept = Deliver "'a list" | Duplicate | Buffered | Overflow 'a

record 'a reorder_buffer =
  rb_start :: u64
  rb_next :: u64
  rb_pending :: "(u64, 'a) amap"
  rb_capacity :: u64

definition rb_new :: "u64 \<Rightarrow> u64 \<Rightarrow> 'a reorder_buffer" where
  "rb_new start capacity =
     \<lparr>rb_start = start, rb_next = start, rb_pending = [], rb_capacity = capacity\<rparr>"

definition rb_next_expected :: "'a reorder_buffer \<Rightarrow> u64" where
  "rb_next_expected b = rb_next b"

definition rb_ack :: "'a reorder_buffer \<Rightarrow> u64 option" where
  "rb_ack b = (if rb_next b > rb_start b then Some (rb_next b - 1) else None)"

definition rb_buffered :: "'a reorder_buffer \<Rightarrow> nat" where
  "rb_buffered b = length (rb_pending b)"

definition rb_reset :: "'a reorder_buffer \<Rightarrow> u64 \<Rightarrow> 'a reorder_buffer" where
  "rb_reset b start = b\<lparr>rb_start := start, rb_next := start, rb_pending := []\<rparr>"

text \<open>The loop \<open>while let Some(next_item) = self.pending.remove(&self.next)\<close>.\<close>

function rb_drain :: "u64 \<Rightarrow> (u64, 'a) amap \<Rightarrow> 'a list \<times> u64 \<times> (u64, 'a) amap" where
  "rb_drain n pending =
     (case map_of pending n of
        None \<Rightarrow> ([], n, pending)
      | Some x \<Rightarrow>
          (let (out, n', pending') =
             rb_drain (saturating_add64 n 1) (AList.delete n pending)
           in (x # out, n', pending')))"
  by pat_completeness auto
termination
  by (relation "measure (\<lambda>(n, pending). length pending)") (auto simp: length_delete_less)

definition rb_accept :: "'a reorder_buffer \<Rightarrow> u64 \<Rightarrow> 'a \<Rightarrow> 'a accept \<times> 'a reorder_buffer" where
  "rb_accept b seq item =
     (if seq < rb_next b \<or> map_of (rb_pending b) seq \<noteq> None then (Duplicate, b)
      else if seq = rb_next b then
        (let (out, n', pending') = rb_drain (saturating_add64 (rb_next b) 1) (rb_pending b)
         in (Deliver (item # out), b\<lparr>rb_next := n', rb_pending := pending'\<rparr>))
      else if saturating_sub64 seq (rb_next b) > rb_capacity b then (Overflow item, b)
      else (Buffered, b\<lparr>rb_pending := AList.update seq item (rb_pending b)\<rparr>))"

text \<open>A whole session: the results of offering a list of sequenced items in order.\<close>

fun rb_run :: "'a reorder_buffer \<Rightarrow> (u64 \<times> 'a) list \<Rightarrow> 'a accept list \<times> 'a reorder_buffer" where
  "rb_run b [] = ([], b)"
| "rb_run b ((seq, item) # rest) =
     (let (r, b') = rb_accept b seq item; (rs, b'') = rb_run b' rest in (r # rs, b''))"

fun delivered :: "'a accept \<Rightarrow> 'a list" where
  "delivered (Deliver xs) = xs"
| "delivered _ = []"

fun overflowed :: "'a accept \<Rightarrow> bool" where
  "overflowed (Overflow _) = True"
| "overflowed _ = False"

subsection \<open>The drain loop\<close>

declare rb_drain.simps [simp del]

definition keys_above :: "u64 \<Rightarrow> (u64, 'a) amap \<Rightarrow> bool" where
  "keys_above n p \<longleftrightarrow> (\<forall>k. map_of p k \<noteq> None \<longrightarrow> unat n < unat k)"

lemma unat_succ_le: "unat n < unat k \<Longrightarrow> unat (saturating_add64 n 1) \<le> unat (k :: u64)"
  using unat_u64_bound [of k] by (simp add: unat_saturating_add64)

lemma rb_drain_window:
  assumes "rb_drain n p = (out, n', p')"
    and "\<forall>k. map_of p k \<noteq> None \<longrightarrow> unat n \<le> unat k"
  shows "keys_above n' p' \<and> unat n \<le> unat n' \<and> map_of p' \<subseteq>\<^sub>m map_of p \<and> (amap_ok p \<longrightarrow> amap_ok p')"
  using assms
proof (induction n p arbitrary: out n' p' rule: rb_drain.induct)
  case (1 n p)
  show ?case
  proof (cases "map_of p n")
    case None
    then have r: "n' = n" "p' = p" using "1.prems"(1) by (auto simp: rb_drain.simps [of n p])
    have "unat n < unat k" if "map_of p k \<noteq> None" for k
      using "1.prems"(2) None that by (metis nless_le word_unat_eq_iff)
    then show ?thesis using r by (simp add: keys_above_def)
  next
    case (Some x)
    let ?m = "saturating_add64 n 1" and ?q = "AList.delete n p"
    obtain out' where rec: "rb_drain ?m ?q = (out', n', p')"
      using "1.prems"(1) Some by (auto simp: rb_drain.simps [of n p] split: prod.splits)
    have low: "\<forall>k. map_of ?q k \<noteq> None \<longrightarrow> unat ?m \<le> unat k"
      using "1.prems"(2) by (auto intro!: unat_succ_le) (metis nless_le option.distinct(1) word_unat_eq_iff)
    from "1.IH" [OF Some rec low] have IH: "keys_above n' p'" "unat ?m \<le> unat n'"
      "map_of p' \<subseteq>\<^sub>m map_of ?q" "amap_ok ?q \<longrightarrow> amap_ok p'"
      by blast+
    have "unat n \<le> unat ?m" using unat_u64_bound [of n] by (simp add: unat_saturating_add64)
    moreover have "map_of ?q \<subseteq>\<^sub>m map_of p" by (auto simp: map_le_def)
    ultimately show ?thesis using IH by (meson amap_ok_delete le_trans map_le_trans)
  qed
qed

lemma rb_drain_tags:
  assumes "rb_drain n p = (out, n', p')" "map_of p u64_max = None"
    and "\<forall>k v. map_of p k = Some v \<longrightarrow> fst v = k"
  shows "map (\<lambda>v. unat (fst v)) out = [unat n..<unat n']
    \<and> (\<forall>v \<in> set out. map_of p (fst v) = Some v)
    \<and> (\<forall>k. unat n' \<le> unat k \<longrightarrow> map_of p' k = map_of p k)"
  using assms
proof (induction n p arbitrary: out n' p' rule: rb_drain.induct)
  case (1 n p)
  show ?case
  proof (cases "map_of p n")
    case None
    then show ?thesis using "1.prems"(1) by (auto simp: rb_drain.simps [of n p])
  next
    case (Some x)
    let ?m = "saturating_add64 n 1" and ?q = "AList.delete n p"
    obtain out' where rec: "rb_drain ?m ?q = (out', n', p')" and out: "out = x # out'"
      using "1.prems"(1) Some by (auto simp: rb_drain.simps [of n p] split: prod.splits)
    have "n \<noteq> u64_max" using Some "1.prems"(2) by auto
    then have "unat n \<noteq> unat u64_max" by (simp only: word_unat_eq_iff [symmetric] simp_thms)
    then have m: "unat ?m = Suc (unat n)"
      using unat_u64_bound [of n] by (simp add: unat_saturating_add64)
    have tags: "map_of ?q u64_max = None" "\<forall>k v. map_of ?q k = Some v \<longrightarrow> fst v = k"
      using "1.prems"(2,3) by auto
    from "1.IH" [OF Some rec tags] have IH: "map (\<lambda>v. unat (fst v)) out' = [unat ?m..<unat n']"
      "\<forall>v \<in> set out'. map_of ?q (fst v) = Some v"
      "\<forall>k. unat n' \<le> unat k \<longrightarrow> map_of p' k = map_of ?q k" by blast+
    have le: "unat ?m \<le> unat n'"
    proof (rule ccontr)
      assume *: "\<not> ?thesis"
      with IH(1) have "out' = []" by simp
      with rec have "n' = ?m" by (auto simp: rb_drain.simps [of ?m] Let_def split: option.splits prod.splits)
      with * show False by simp
    qed
    have "fst x = n" using "1.prems"(3) Some by blast
    then show ?thesis using IH le m out Some by (auto simp: upt_rec [of "unat n"] split: if_splits)
  qed
qed

subsection \<open>The window invariant\<close>

definition rb_inv :: "'a reorder_buffer \<Rightarrow> bool" where
  "rb_inv b \<longleftrightarrow> amap_ok (rb_pending b) \<and> rb_start b \<le> rb_next b \<and> keys_above (rb_next b) (rb_pending b)
     \<and> (\<forall>k. map_of (rb_pending b) k \<noteq> None \<longrightarrow> unat k \<le> unat (rb_next b) + unat (rb_capacity b))"

lemma rb_inv_new [simp]: "rb_inv (rb_new start capacity)"
  by (simp add: rb_inv_def rb_new_def keys_above_def amap_ok_def)

lemma rb_inv_reset [simp]: "rb_inv (rb_reset b start)"
  by (simp add: rb_inv_def rb_reset_def keys_above_def amap_ok_def)

lemma rb_drain_from_next:
  assumes "rb_inv b" "rb_drain (saturating_add64 (rb_next b) 1) (rb_pending b) = (out, n', p')"
  shows "keys_above n' p' \<and> unat (rb_next b) \<le> unat n' \<and> map_of p' \<subseteq>\<^sub>m map_of (rb_pending b) \<and> amap_ok p'"
proof -
  have "\<forall>k. map_of (rb_pending b) k \<noteq> None \<longrightarrow> unat (saturating_add64 (rb_next b) 1) \<le> unat k"
    using assms(1) by (auto simp: rb_inv_def keys_above_def intro!: unat_succ_le)
  from rb_drain_window [OF assms(2) this] show ?thesis
    using assms(1) unat_u64_bound [of "rb_next b"]
    by (auto simp: rb_inv_def unat_saturating_add64)
qed

definition rb_covers :: "'a reorder_buffer \<Rightarrow> u64 \<Rightarrow> bool" where
  "rb_covers b k \<longleftrightarrow> k < rb_next b \<or> map_of (rb_pending b) k \<noteq> None"

lemma rb_accept_cases:
  assumes "rb_accept b seq item = (r, b')"
  obtains (duplicate) "r = Duplicate" "b' = b" "rb_covers b seq"
  | (overflow) "r = Overflow item" "b' = b"
  | (deliver) out n' p' where "seq = rb_next b" "r = Deliver (item # out)"
      "rb_drain (saturating_add64 (rb_next b) 1) (rb_pending b) = (out, n', p')"
      "b' = b\<lparr>rb_next := n', rb_pending := p'\<rparr>"
  | (park) "r = Buffered" "b' = b\<lparr>rb_pending := AList.update seq item (rb_pending b)\<rparr>"
      "rb_next b < seq" "saturating_sub64 seq (rb_next b) \<le> rb_capacity b"
proof -
  obtain out n' p' where d: "rb_drain (saturating_add64 (rb_next b) 1) (rb_pending b) = (out, n', p')"
    by (metis prod_cases3)
  consider "rb_covers b seq" | "\<not> rb_covers b seq" "seq = rb_next b"
    | "\<not> rb_covers b seq" "rb_next b < seq" "rb_capacity b < saturating_sub64 seq (rb_next b)"
    | "\<not> rb_covers b seq" "rb_next b < seq" "saturating_sub64 seq (rb_next b) \<le> rb_capacity b"
    unfolding rb_covers_def by (meson linorder_neqE not_less)
  then show thesis
  proof cases
    case 1
    then show ?thesis using assms duplicate by (simp add: rb_accept_def rb_covers_def)
  next
    case 2
    then have "Deliver (item # out) = r" "b\<lparr>rb_next := n', rb_pending := p'\<rparr> = b'"
      using assms d by (auto simp add: rb_accept_def rb_covers_def)
    then show ?thesis using deliver [of out n' p'] 2(2) d by simp
  next
    case 3
    then have "seq \<noteq> rb_next b" by auto
    with 3 show ?thesis using assms overflow by (simp add: rb_accept_def rb_covers_def)
  next
    case 4
    then have "seq \<noteq> rb_next b" "\<not> rb_capacity b < saturating_sub64 seq (rb_next b)" by auto
    with 4 show ?thesis using assms park by (simp add: rb_accept_def rb_covers_def)
  qed
qed

lemma rb_inv_accept:
  assumes "rb_inv b" "rb_accept b seq item = (r, b')"
  shows "rb_inv b' \<and> rb_capacity b' = rb_capacity b \<and> rb_start b' = rb_start b \<and> rb_next b \<le> rb_next b'"
  using assms(2)
proof (cases rule: rb_accept_cases)
  case duplicate
  then show ?thesis using assms(1) by simp
next
  case overflow
  then show ?thesis using assms(1) by simp
next
  case (deliver out n' p')
  from rb_drain_from_next [OF assms(1) deliver(3)] have d: "keys_above n' p'"
    "rb_next b \<le> n'" "map_of p' \<subseteq>\<^sub>m map_of (rb_pending b)" "amap_ok p'"
    by (auto simp: word_le_nat_alt)
  have "unat k \<le> unat n' + unat (rb_capacity b)" if k: "map_of p' k = Some v" for k v
  proof -
    from k have "map_of (rb_pending b) k = Some v" using d(3) by (metis domI map_le_def)
    then have "unat k \<le> unat (rb_next b) + unat (rb_capacity b)"
      using assms(1) by (simp add: rb_inv_def)
    then show ?thesis using d(2) by (simp add: word_le_nat_alt)
  qed
  then show ?thesis using deliver(4) d assms(1) by (auto simp: rb_inv_def)
next
  case park
  then show ?thesis using assms(1)
    by (auto simp: rb_inv_def keys_above_def word_le_nat_alt word_less_nat_alt
        unat_saturating_sub64 split: if_splits)
qed

lemma rb_inv_run:
  assumes "rb_inv b" "rb_run b offers = (rs, b')"
  shows "rb_inv b' \<and> rb_capacity b' = rb_capacity b \<and> rb_start b' = rb_start b"
  using assms
proof (induction b offers arbitrary: rs b' rule: rb_run.induct)
  case (2 b seq item rest)
  obtain r b1 rs1 where a: "rb_accept b seq item = (r, b1)" and r: "rb_run b1 rest = (rs1, b')"
    using "2.prems"(2) by (auto split: prod.splits)
  show ?case using "2.IH" [OF a [symmetric] refl _ r] rb_inv_accept [OF "2.prems"(1) a] by simp
qed simp

lemma rb_buffered_le_capacity: "rb_inv b \<Longrightarrow> rb_buffered b \<le> unat (rb_capacity b)"
proof -
  assume inv: "rb_inv b"
  let ?D = "dom (map_of (rb_pending b))" and ?n = "unat (rb_next b)"
  have "unat ` ?D \<subseteq> {?n<..?n + unat (rb_capacity b)}"
    using inv by (auto simp: rb_inv_def keys_above_def)
  then have "card (unat ` ?D) \<le> unat (rb_capacity b)"
    by (metis card_greaterThanAtMost card_mono diff_add_inverse finite_greaterThanAtMost)
  moreover have "card (unat ` ?D) = card ?D"
    by (rule card_image) (auto simp: inj_on_def word_unat_eq_iff)
  ultimately show ?thesis using inv by (simp add: rb_buffered_def amap_length_card rb_inv_def)
qed

subsection \<open>Runs over items that carry their own sequence number\<close>

definition rb_tagged :: "(u64 \<times> 'a) set \<Rightarrow> (u64 \<times> 'a) reorder_buffer \<Rightarrow> bool" where
  "rb_tagged S b \<longleftrightarrow> rb_inv b
     \<and> (\<forall>k v. map_of (rb_pending b) k = Some v \<longrightarrow> fst v = k \<and> k \<noteq> u64_max \<and> v \<in> S)"

lemma rb_next_new [simp]: "rb_next (rb_new start capacity) = start"
  by (simp add: rb_new_def)

lemma rb_tagged_new: "rb_tagged S (rb_new start capacity)"
  unfolding rb_tagged_def by (simp only: rb_inv_new) (simp add: rb_new_def)

lemma rb_accept_deliver_tagged:
  assumes "rb_tagged S b" "it \<in> S" "fst it = rb_next b" "fst it \<noteq> u64_max"
    and drain: "rb_drain (saturating_add64 (rb_next b) 1) (rb_pending b) = (out, n', p')"
  shows "map (\<lambda>v. unat (fst v)) (it # out) = [unat (rb_next b)..<unat n']" "set (it # out) \<subseteq> S"
    and "\<And>k. n' \<le> k \<Longrightarrow> map_of p' k = map_of (rb_pending b) k"
    and "\<And>k v. map_of p' k = Some v \<Longrightarrow> map_of (rb_pending b) k = Some v"
proof -
  have tags: "map_of (rb_pending b) u64_max = None"
    "\<forall>k v. map_of (rb_pending b) k = Some v \<longrightarrow> fst v = k"
    using assms(1) unfolding rb_tagged_def by (cases "map_of (rb_pending b) u64_max"; blast)+
  have "unat (rb_next b) \<noteq> unat u64_max"
    using assms(3,4) by (simp only: word_unat_eq_iff [symmetric] simp_thms)
  then have m: "unat (saturating_add64 (rb_next b) 1) = Suc (unat (rb_next b))"
    using unat_u64_bound [of "rb_next b"] by (simp add: unat_saturating_add64)
  note d = rb_drain_tags [OF drain tags]
  have "unat (saturating_add64 (rb_next b) 1) \<le> unat n'"
  proof (rule rb_drain_window [OF drain, THEN conjunct2, THEN conjunct1])
    show "\<forall>k. map_of (rb_pending b) k \<noteq> None \<longrightarrow> unat (saturating_add64 (rb_next b) 1) \<le> unat k"
      using assms(1) by (auto simp: rb_tagged_def rb_inv_def keys_above_def intro!: unat_succ_le)
  qed
  then show "map (\<lambda>v. unat (fst v)) (it # out) = [unat (rb_next b)..<unat n']"
    using d m assms(3) by (simp add: upt_rec [of "unat (rb_next b)"])
  show "set (it # out) \<subseteq> S"
    using d assms(1,2) unfolding rb_tagged_def by (metis insert_subset list.simps(15) subsetI)
  show "map_of p' k = map_of (rb_pending b) k" if "n' \<le> k" for k
    using d that by (simp add: word_le_nat_alt)
  show "map_of (rb_pending b) k = Some v" if "map_of p' k = Some v" for k v
    using that rb_drain_from_next [OF _ drain] assms(1) unfolding rb_tagged_def map_le_def
    by (metis domI)
qed

lemma rb_accept_tagged:
  assumes "rb_tagged S b" "it \<in> S" "fst it \<noteq> u64_max" and acc: "rb_accept b (fst it) it = (r, b')"
  shows "rb_tagged S b' \<and> map (\<lambda>v. unat (fst v)) (delivered r) = [unat (rb_next b)..<unat (rb_next b')]
    \<and> set (delivered r) \<subseteq> S
    \<and> (\<forall>k. rb_covers b k \<longrightarrow> rb_covers b' k) \<and> (\<not> overflowed r \<longrightarrow> rb_covers b' (fst it))"
proof -
  have inv': "rb_inv b'" using rb_inv_accept [OF _ acc] assms(1) by (simp add: rb_tagged_def)
  from acc show ?thesis
  proof (cases rule: rb_accept_cases)
    case duplicate
    then show ?thesis using assms(1) by simp
  next
    case overflow
    then show ?thesis using assms(1) by simp
  next
    case (deliver out n' p')
    note d = rb_accept_deliver_tagged [OF assms(1,2) deliver(1) assms(3) deliver(3)]
    have lt: "rb_next b < n'"
      using arg_cong [OF d(1), of length] by (simp add: word_less_nat_alt)
    have "fst v = k \<and> k \<noteq> u64_max \<and> v \<in> S" if "map_of p' k = Some v" for k v
      using d(4) [OF that] assms(1) unfolding rb_tagged_def by blast
    then have "rb_tagged S b'"
      using inv' unfolding rb_tagged_def deliver(4) by simp
    moreover have "rb_covers b' k" if "rb_covers b k" for k
      using that d(3) [of k] deliver(4) lt unfolding rb_covers_def by (cases "k < n'") auto
    ultimately show ?thesis using d(1,2) deliver lt by (simp add: rb_covers_def)
  next
    case park
    have "rb_tagged S b'"
      using inv' assms(1-3) unfolding rb_tagged_def park(2) by (cases it) simp
    then show ?thesis using park by (simp add: rb_covers_def)
  qed
qed

lemma rb_run_tagged:
  assumes "rb_tagged S b" "set offers \<subseteq> S" "u64_max \<notin> fst ` set offers"
    and "rb_run b (map (\<lambda>it. (fst it, it)) offers) = (rs, b')"
  shows "rb_tagged S b' \<and> rb_next b \<le> rb_next b'
    \<and> map (\<lambda>v. unat (fst v)) (concat (map delivered rs)) = [unat (rb_next b)..<unat (rb_next b')]
    \<and> set (concat (map delivered rs)) \<subseteq> S \<and> (\<forall>k. rb_covers b k \<longrightarrow> rb_covers b' k)
    \<and> ((\<forall>r \<in> set rs. \<not> overflowed r) \<longrightarrow> (\<forall>it \<in> set offers. rb_covers b' (fst it)))"
  using assms
proof (induction offers arbitrary: b rs)
  case Nil
  then show ?case by simp
next
  case (Cons it rest)
  obtain r b1 rs1 where a: "rb_accept b (fst it) it = (r, b1)" and rs: "rs = r # rs1"
    and run: "rb_run b1 (map (\<lambda>it. (fst it, it)) rest) = (rs1, b')"
    using Cons.prems(4) by (auto split: prod.splits)
  have h: "rb_tagged S b1" "map (\<lambda>v. unat (fst v)) (delivered r) = [unat (rb_next b)..<unat (rb_next b1)]"
    "set (delivered r) \<subseteq> S" "\<forall>k. rb_covers b k \<longrightarrow> rb_covers b1 k"
    "\<not> overflowed r \<longrightarrow> rb_covers b1 (fst it)"
    using rb_accept_tagged [OF Cons.prems(1) _ _ a] Cons.prems(2,3) by auto
  have le: "rb_next b \<le> rb_next b1"
    using rb_inv_accept [OF _ a] Cons.prems(1) by (simp add: rb_tagged_def)
  have t: "rb_tagged S b'" "rb_next b1 \<le> rb_next b'"
    "map (\<lambda>v. unat (fst v)) (concat (map delivered rs1)) = [unat (rb_next b1)..<unat (rb_next b')]"
    "set (concat (map delivered rs1)) \<subseteq> S" "\<forall>k. rb_covers b1 k \<longrightarrow> rb_covers b' k"
    "(\<forall>r \<in> set rs1. \<not> overflowed r) \<longrightarrow> (\<forall>it \<in> set rest. rb_covers b' (fst it))"
    using Cons.IH [OF h(1) _ _ run] Cons.prems(2,3) by simp_all
  have "[unat (rb_next b)..<unat (rb_next b1)] @ [unat (rb_next b1)..<unat (rb_next b')]
      = [unat (rb_next b)..<unat (rb_next b')]"
    using le t(2) upt_add_eq_append [of "unat (rb_next b)" "unat (rb_next b1)"]
    by (metis le_add_diff_inverse word_le_nat_alt)
  then show ?case using h t le rs by (auto intro: order_trans)
qed

text \<open>
  The reorder buffer delivers exactly once and in order: for every sequence of offers of
  sequenced items (the last sequence number of the space, at which the counter saturates, aside)
  the concatenation of everything delivered carries the sequence numbers from the start up to the
  next expected one, each once, and every item delivered is one that was offered.
\<close>

theorem reorder_in_order_exactly_once:
  assumes "u64_max \<notin> fst ` set offers"
    and "rb_run (rb_new start capacity) (map (\<lambda>it. (fst it, it)) offers) = (rs, b)"
  shows "map (\<lambda>v. unat (fst v)) (concat (map delivered rs)) = [unat start..<unat (rb_next b)]
    \<and> set (concat (map delivered rs)) \<subseteq> set offers"
  using rb_run_tagged [OF rb_tagged_new subset_refl assms] by simp

theorem reorder_in_order_exactly_once_witness:
  "map (\<lambda>v. unat (fst v)) (concat (map delivered
     (fst (rb_run (rb_new 0 8) (map (\<lambda>it. (fst it, it)) [(1, ''b''), (0, ''a''), (1, ''x''), (2, ''c'')])))))
   = [0..<3]"
proof -
  obtain rs b where run:
    "rb_run (rb_new 0 8) (map (\<lambda>it. (fst it, it)) [(1, ''b''), (0, ''a''), (1, ''x''), (2, ''c'')]) = (rs, b)"
    by (rule prod.exhaust)
  moreover have "rb_next (snd (rb_run (rb_new 0 8)
      (map (\<lambda>it. (fst it, it)) [(1, ''b''), (0, ''a''), (1, ''x''), (2, ''c'')]))) = 3"
    by (simp add: rb_new_def rb_accept_def rb_drain.simps saturating_add64_def saturating_sub64_def
        cong: prod.case_cong_weak)
  ultimately show ?thesis
    using reorder_in_order_exactly_once [OF _ run] by (simp add: u64_max_def)
qed

text \<open>
  Completeness: when no offer overflowed the window and every sequence number from the start
  below \<open>n\<close> was offered at least once, in whatever order and however often, everything below \<open>n\<close>
  has been delivered.
\<close>

theorem reorder_delivers_all:
  assumes "u64_max \<notin> fst ` set offers"
    and "rb_run (rb_new start capacity) (map (\<lambda>it. (fst it, it)) offers) = (rs, b)"
    and "\<forall>r \<in> set rs. \<not> overflowed r"
    and "\<forall>k. start \<le> k \<and> k < n \<longrightarrow> k \<in> fst ` set offers"
  shows "n \<le> rb_next_expected b \<or> n \<le> start"
proof (rule ccontr)
  assume "\<not> ?thesis"
  then have lt: "rb_next b < n" by (auto simp add: rb_next_expected_def)
  note t = rb_run_tagged [OF rb_tagged_new subset_refl assms(1,2)]
  have "start \<le> rb_next b" using t by simp
  with lt assms(4) have "rb_next b \<in> fst ` set offers" by blast
  then have "rb_covers b (rb_next b)" using t assms(3) by auto
  moreover have "map_of (rb_pending b) (rb_next b) = None"
    using t by (cases "map_of (rb_pending b) (rb_next b)")
      (auto simp: rb_tagged_def rb_inv_def keys_above_def)
  ultimately show False by (simp add: rb_covers_def)
qed

theorem reorder_delivers_all_witness:
  "3 \<le> rb_next_expected (snd (rb_run (rb_new 0 8)
     (map (\<lambda>it. (fst it, it)) [(2, ''c''), (1, ''b''), (0, ''a''), (1, ''x'')])))"
proof -
  let ?os = "[(2, ''c''), (1, ''b''), (0, ''a''), (1, ''x'')] :: (u64 \<times> string) list"
  obtain rs b where run: "rb_run (rb_new 0 8) (map (\<lambda>it. (fst it, it)) ?os) = (rs, b)"
    by (rule prod.exhaust)
  have "list_all (\<lambda>r. \<not> overflowed r) (fst (rb_run (rb_new 0 8) (map (\<lambda>it. (fst it, it)) ?os)))"
    by (simp add: rb_new_def rb_accept_def rb_drain.simps saturating_add64_def saturating_sub64_def
        cong: prod.case_cong_weak)
  then have "\<forall>r \<in> set rs. \<not> overflowed r" using run by (simp add: list_all_iff)
  moreover have "k \<in> fst ` set ?os" if "0 \<le> k \<and> k < 3" for k :: u64
  proof -
    have "unat k < 3" using that by (simp add: word_less_nat_alt)
    then have "unat k = 0 \<or> unat k = 1 \<or> unat k = 2" by arith
    then have "k = 0 \<or> k = 1 \<or> k = 2" by (auto simp: word_unat_eq_iff)
    then show ?thesis by auto
  qed
  ultimately show ?thesis
    using reorder_delivers_all [OF _ run, of 3] by (simp add: u64_max_def run del: list.map)
qed

text \<open>
  Memory bound: whatever is offered, in whatever order, a buffer never holds more than its
  capacity of out-of-order items, and its next expected number never moves below its start.
\<close>

theorem reorder_buffer_bounded:
  "rb_buffered (snd (rb_run (rb_new start capacity) offers)) \<le> unat capacity
   \<and> start \<le> rb_next_expected (snd (rb_run (rb_new start capacity) offers))"
proof -
  obtain rs b where run: "rb_run (rb_new start capacity) offers = (rs, b)" by (rule prod.exhaust)
  note i = rb_inv_run [OF rb_inv_new run]
  have "rb_capacity b = capacity" "rb_start b = start" using i by (simp_all add: rb_new_def)
  with i show ?thesis
    using rb_buffered_le_capacity [of b] by (auto simp: run rb_inv_def rb_next_expected_def)
qed

text \<open>
  The counter saturates: a buffer that expects the last sequence number delivers it every time it
  is offered, since \<open>next\<close> cannot move past it.
\<close>

lemma rb_accept_saturated:
  assumes "rb_inv b" "rb_next b = u64_max"
  shows "rb_accept b u64_max item = (Deliver [item], b)"
proof -
  have "map_of (rb_pending b) u64_max = None"
    using assms by (cases "map_of (rb_pending b) u64_max") (auto simp: rb_inv_def keys_above_def)
  moreover have "saturating_add64 u64_max 1 = u64_max"
    by (simp add: saturating_add64_def u64_max_def)
  ultimately show ?thesis using assms(2)
    by (simp add: rb_accept_def rb_drain.simps [of u64_max])
qed

end
