(* ===== verification/Rust_Str.thy ===== *)
theory Rust_Str
  imports Osa_Prelude
begin

text \<open>
  The operations of Rust's \<^verbatim>\<open>str\<close> that the sources call, on strings as UTF-8 byte lists, and the
  interface of the \<^verbatim>\<open>uuid\<close> crate, which the definitions that parse or print host ids take as a
  parameter (a record of its three functions).
\<close>

subsection \<open>Prefixes, splitting and trimming\<close>

fun strip_prefix :: "string \<Rightarrow> string \<Rightarrow> string option" where
  "strip_prefix [] s = Some s"
| "strip_prefix (p # ps) (c # cs) = (if p = c then strip_prefix ps cs else None)"
| "strip_prefix (p # ps) [] = None"

definition starts_with :: "string \<Rightarrow> string \<Rightarrow> bool" where
  "starts_with s p \<longleftrightarrow> strip_prefix p s \<noteq> None"

fun split_once :: "char \<Rightarrow> string \<Rightarrow> (string \<times> string) option" where
  "split_once d [] = None"
| "split_once d (c # cs) =
     (if c = d then Some ([], cs) else map_option (apfst (Cons c)) (split_once d cs))"

text \<open>The UTF-8 encodings of the code points with the Unicode \<open>White_Space\<close> property.\<close>

definition whitespace_encodings :: "string list" where
  "whitespace_encodings =
     [[CHR 0x09], [CHR 0x0A], [CHR 0x0B], [CHR 0x0C], [CHR 0x0D], [CHR 0x20], [CHR 0xC2, CHR 0x85],
      [CHR 0xC2, CHR 0xA0], [CHR 0xE1, CHR 0x9A, CHR 0x80], [CHR 0xE2, CHR 0x80, CHR 0x80],
      [CHR 0xE2, CHR 0x80, CHR 0x81], [CHR 0xE2, CHR 0x80, CHR 0x82],
      [CHR 0xE2, CHR 0x80, CHR 0x83], [CHR 0xE2, CHR 0x80, CHR 0x84],
      [CHR 0xE2, CHR 0x80, CHR 0x85], [CHR 0xE2, CHR 0x80, CHR 0x86],
      [CHR 0xE2, CHR 0x80, CHR 0x87], [CHR 0xE2, CHR 0x80, CHR 0x88],
      [CHR 0xE2, CHR 0x80, CHR 0x89], [CHR 0xE2, CHR 0x80, CHR 0x8A],
      [CHR 0xE2, CHR 0x80, CHR 0xA8], [CHR 0xE2, CHR 0x80, CHR 0xA9],
      [CHR 0xE2, CHR 0x80, CHR 0xAF], [CHR 0xE2, CHR 0x81, CHR 0x9F],
      [CHR 0xE3, CHR 0x80, CHR 0x80]]"

definition strip_any :: "string list \<Rightarrow> string \<Rightarrow> string option" where
  "strip_any ps s = find (\<lambda>r. length r < length s) (List.map_filter (\<lambda>p. strip_prefix p s) ps)"

lemma strip_any_less: "strip_any ps s = Some r \<Longrightarrow> length r < length s"
  by (auto simp: strip_any_def find_Some_iff)

function strip_all :: "string list \<Rightarrow> string \<Rightarrow> string" where
  "strip_all ps s = (case strip_any ps s of None \<Rightarrow> s | Some r \<Rightarrow> strip_all ps r)"
  by pat_completeness auto
termination
  by (relation "measure (\<lambda>(ps, s). length s)") (auto dest: strip_any_less)

declare strip_all.simps [simp del]

definition trim_start :: "string \<Rightarrow> string" where
  "trim_start s = strip_all whitespace_encodings s"

definition trim_end :: "string \<Rightarrow> string" where
  "trim_end s = rev (strip_all (map rev whitespace_encodings) (rev s))"

definition trim :: "string \<Rightarrow> string" where
  "trim s = trim_end (trim_start s)"

lemma strip_prefix_append [simp]: "strip_prefix p (p @ s) = Some s"
  by (induction p) auto

lemma strip_prefix_Some: "strip_prefix p s = Some r \<longleftrightarrow> s = p @ r"
  by (induction p s rule: strip_prefix.induct) auto

lemma starts_with_iff: "starts_with s p \<longleftrightarrow> (\<exists>r. s = p @ r)"
  by (auto simp: starts_with_def strip_prefix_Some)

lemma split_once_append: "d \<notin> set t \<Longrightarrow> split_once d (t @ d # r) = Some (t, r)"
  by (induction t) auto

lemma split_once_Some: "split_once d s = Some (t, r) \<longleftrightarrow> s = t @ d # r \<and> d \<notin> set t"
proof (induction s arbitrary: t)
  case (Cons c cs)
  show ?case by (cases t) (auto simp: Cons.IH apfst_def map_prod_def split: prod.splits)
qed simp

lemma strip_any_whitespace_Nil [simp]: "strip_any ps [] = None"
  by (auto simp: strip_any_def find_None_iff)

lemma strip_all_idem: "strip_all ps (strip_all ps s) = strip_all ps s"
proof (induction ps s rule: strip_all.induct)
  case (1 ps s)
  then show ?case by (cases "strip_any ps s") (simp_all add: strip_all.simps [of ps s])
qed

lemma trim_Nil [simp]: "trim [] = []"
  by (simp add: trim_def trim_start_def trim_end_def strip_all.simps)

lemma trim_unpadded:
  assumes "s \<noteq> []" "\<forall>p \<in> set whitespace_encodings. strip_prefix p s = None"
    and "\<forall>p \<in> set whitespace_encodings. strip_prefix (rev p) (rev s) = None"
  shows "trim s = s"
proof -
  have "strip_any whitespace_encodings s = None"
    "strip_any (map rev whitespace_encodings) (rev s) = None"
    using assms(2,3) by (auto simp: strip_any_def find_None_iff List.map_filter_def)
  then show ?thesis by (simp add: trim_def trim_start_def trim_end_def strip_all.simps)
qed

subsection \<open>Decimal integers\<close>

definition digit_char :: "nat \<Rightarrow> char" where
  "digit_char d = ''0123456789'' ! d"

fun digit_value :: "char \<Rightarrow> nat option" where
  "digit_value c = (if c \<in> set ''0123456789'' then Some (of_char c - 48) else None)"

fun dec_string :: "nat \<Rightarrow> string" where
  "dec_string n = (if n < 10 then [digit_char n] else dec_string (n div 10) @ [digit_char (n mod 10)])"

declare dec_string.simps [simp del]

fun parse_digits :: "nat \<Rightarrow> string \<Rightarrow> nat option" where
  "parse_digits acc [] = Some acc"
| "parse_digits acc (c # cs) =
     (case digit_value c of None \<Rightarrow> None | Some d \<Rightarrow> parse_digits (acc * 10 + d) cs)"

text \<open>\<open>u64::to_string\<close> and \<open>str::parse::<u64>\<close>, which takes an optional leading plus sign.\<close>

definition u64_to_string :: "u64 \<Rightarrow> string" where
  "u64_to_string w = dec_string (unat w)"

definition parse_u64 :: "string \<Rightarrow> u64 option" where
  "parse_u64 s =
     (let ds = (case s of [] \<Rightarrow> [] | c # cs \<Rightarrow> if c = CHR ''+'' \<and> cs \<noteq> [] then cs else s) in
      if ds = [] then None
      else case parse_digits 0 ds of
        None \<Rightarrow> None
      | Some n \<Rightarrow> if n < 2 ^ 64 then Some (of_nat n) else None)"

lemma digit_char_cases: "d < 10 \<Longrightarrow> d \<in> {0, 1, 2, 3, 4, 5, 6, 7, 8, 9 :: nat}"
  by auto

lemma digit_char_mem: "d < 10 \<Longrightarrow> digit_char d \<in> set ''0123456789''"
  by (drule digit_char_cases) (auto simp: digit_char_def)

lemma digit_value_char: "d < 10 \<Longrightarrow> digit_value (digit_char d) = Some d"
  by (drule digit_char_cases) (auto simp: digit_char_def)

lemma parse_digits_append:
  "parse_digits acc (xs @ ys) = (case parse_digits acc xs of None \<Rightarrow> None | Some a \<Rightarrow> parse_digits a ys)"
  by (induction xs arbitrary: acc) (auto split: option.splits)

lemma parse_dec_string: "parse_digits 0 (dec_string n) = Some n"
proof (induction n rule: dec_string.induct)
  case (1 n)
  show ?case
  proof (cases "n < 10")
    case True
    then show ?thesis by (simp add: dec_string.simps [of n] digit_value_char del: digit_value.simps)
  next
    case False
    then show ?thesis
      using 1 by (simp add: dec_string.simps [of n] parse_digits_append digit_value_char del: digit_value.simps)
  qed
qed

lemma dec_string_chars: "set (dec_string n) \<subseteq> set ''0123456789''"
proof (induction n rule: dec_string.induct)
  case (1 n)
  have d: "digit_char n \<in> set ''0123456789''" if "n < 10" using digit_char_mem that by blast
  have m: "digit_char (n mod 10) \<in> set ''0123456789''" by (rule digit_char_mem) simp
  show ?case
    using 1 d m by (cases "n < 10") (simp_all only: dec_string.simps [of n] if_True if_False set_append
        set_simps Un_subset_iff insert_subset empty_subsetI simp_thms)
qed

lemma dec_string_nonempty [simp]: "dec_string n \<noteq> []"
  by (subst dec_string.simps) simp

lemma whitespace_not_digit:
  "p \<in> set whitespace_encodings \<Longrightarrow>
     p \<noteq> [] \<and> hd p \<notin> set ''0123456789'' \<and> last p \<notin> set ''0123456789''"
  by (simp add: whitespace_encodings_def) (elim disjE; simp)

lemma strip_prefix_other: "p \<noteq> [] \<Longrightarrow> s \<noteq> [] \<Longrightarrow> hd p \<noteq> hd s \<Longrightarrow> strip_prefix p s = None"
  by (cases p; cases s) auto

lemma trim_digits:
  assumes "s \<noteq> []" "set s \<subseteq> set ''0123456789''"
  shows "trim s = s"
proof (rule trim_unpadded [OF assms(1)]; intro ballI)
  fix p assume p: "p \<in> set whitespace_encodings"
  have d: "hd s \<in> set ''0123456789''" "last s \<in> set ''0123456789''"
    using assms(2) hd_in_set [OF assms(1)] last_in_set [OF assms(1)] by blast+
  from whitespace_not_digit [OF p] d have "p \<noteq> []" "hd p \<noteq> hd s" "last p \<noteq> last s" by metis+
  then show "strip_prefix p s = None" "strip_prefix (rev p) (rev s) = None"
    using assms(1) by (simp_all add: strip_prefix_other hd_rev)
qed

lemma parse_u64_to_string [simp]: "parse_u64 (trim (u64_to_string w)) = Some w"
proof -
  have t: "trim (u64_to_string w) = dec_string (unat w)"
    unfolding u64_to_string_def by (rule trim_digits [OF dec_string_nonempty dec_string_chars])
  obtain c cs where c: "dec_string (unat w) = c # cs" by (cases "dec_string (unat w)") simp_all
  then have "c \<in> set ''0123456789''" using dec_string_chars [of "unat w"] by auto
  then have "c \<noteq> CHR ''+''" by auto
  then show ?thesis
    using parse_dec_string [of "unat w"] unat_u64_bound [of w] by (simp add: parse_u64_def t c)
qed

subsection \<open>UUIDs\<close>

record uuid_lib =
  parse_uuid :: "string \<Rightarrow> uuid option"
  hyphenated :: "uuid \<Rightarrow> string"
  simple_hex :: "uuid \<Rightarrow> string"

text \<open>What the crate documents: both printed forms parse back, and the simple form is the
  non-empty, hyphen- and slash-free hyphenated one without its hyphens.\<close>

definition uuid_laws :: "uuid_lib \<Rightarrow> bool" where
  "uuid_laws U \<longleftrightarrow> (\<forall>u. parse_uuid U (hyphenated U u) = Some u \<and> parse_uuid U (simple_hex U u) = Some u
     \<and> simple_hex U u = filter (\<lambda>c. c \<noteq> CHR ''-'') (hyphenated U u)
     \<and> simple_hex U u \<noteq> [] \<and> CHR ''/'' \<notin> set (hyphenated U u))"

text \<open>An instance that satisfies them, for concrete inputs: a tally of \<open>u + 1\<close> digits.\<close>

definition tally_uuid :: uuid_lib where
  "tally_uuid =
     \<lparr>parse_uuid = (\<lambda>s. if s \<noteq> [] \<and> set s \<subseteq> {CHR ''1''} then Some (of_nat (length s - 1)) else None),
      hyphenated = (\<lambda>u. replicate (Suc (unat u)) CHR ''1''),
      simple_hex = (\<lambda>u. replicate (Suc (unat u)) CHR ''1'')\<rparr>"

lemma tally_uuid_laws: "uuid_laws tally_uuid"
  by (auto simp: uuid_laws_def tally_uuid_def)

lemma simple_hex_inj: "uuid_laws U \<Longrightarrow> simple_hex U u = simple_hex U v \<longleftrightarrow> u = v"
  unfolding uuid_laws_def by (metis option.inject)

lemma hyphenated_inj: "uuid_laws U \<Longrightarrow> hyphenated U u = hyphenated U v \<longleftrightarrow> u = v"
  unfolding uuid_laws_def by (metis option.inject)

end
