(* ===== verification/Topics.thy ===== *)
theory Topics
  imports Rust_Str
begin

text \<open>
  \<^verbatim>\<open>osa-core/src/topics.rs\<close>: the MQTT topic scheme.  The broker confines a client to the topics
  that begin with its tenant prefix; the lemmas show that the scheme turns this into host identity:
  each uplink topic parses back to the tenant that owns it, by the parser of its own channel only,
  and no topic inside one host's prefix ever parses to another tenant.
\<close>

subsection \<open>Model\<close>

definition ROOT :: string where
  "ROOT = ''osa/v1''"

definition HEARTBEAT_FILTER :: string where
  "HEARTBEAT_FILTER = ''/tenants/+/osa/v1/up/heartbeat''"

definition HS_UP_FILTER :: string where
  "HS_UP_FILTER = ''/tenants/+/osa/v1/up/hs''"

definition CTRL_UP_FILTER :: string where
  "CTRL_UP_FILTER = ''/tenants/+/osa/v1/up/ctrl''"

definition RESULT_UP_FILTER :: string where
  "RESULT_UP_FILTER = ''/tenants/+/osa/v1/up/result''"

definition STREAM_UP_FILTER :: string where
  "STREAM_UP_FILTER = ''/tenants/+/osa/v1/up/stream''"

definition INVENTORY_UP_FILTER :: string where
  "INVENTORY_UP_FILTER = ''/tenants/+/osa/v1/up/inventory''"

definition tenant :: "string \<Rightarrow> string" where
  "tenant host_id = filter (\<lambda>c. c \<noteq> CHR ''-'') host_id"

definition tenant_prefix :: "string \<Rightarrow> string" where
  "tenant_prefix host_id = ''/tenants/'' @ tenant host_id @ ''/''"

definition heartbeat :: "string \<Rightarrow> string" where
  "heartbeat host_id = tenant_prefix host_id @ ROOT @ ''/up/heartbeat''"

definition hs_up :: "string \<Rightarrow> string" where
  "hs_up host_id = tenant_prefix host_id @ ROOT @ ''/up/hs''"

definition hs_down :: "string \<Rightarrow> string" where
  "hs_down host_id = tenant_prefix host_id @ ROOT @ ''/down/hs''"

definition ctrl_up :: "string \<Rightarrow> string" where
  "ctrl_up host_id = tenant_prefix host_id @ ROOT @ ''/up/ctrl''"

definition ctrl_down :: "string \<Rightarrow> string" where
  "ctrl_down host_id = tenant_prefix host_id @ ROOT @ ''/down/ctrl''"

definition dispatch_down :: "string \<Rightarrow> string" where
  "dispatch_down host_id = tenant_prefix host_id @ ROOT @ ''/down/dispatch''"

definition result_up :: "string \<Rightarrow> string" where
  "result_up host_id = tenant_prefix host_id @ ROOT @ ''/up/result''"

definition stream_down :: "string \<Rightarrow> string" where
  "stream_down host_id = tenant_prefix host_id @ ROOT @ ''/down/stream''"

definition stream_up :: "string \<Rightarrow> string" where
  "stream_up host_id = tenant_prefix host_id @ ROOT @ ''/up/stream''"

definition inventory_up :: "string \<Rightarrow> string" where
  "inventory_up host_id = tenant_prefix host_id @ ROOT @ ''/up/inventory''"

definition tenant_for_tail :: "string \<Rightarrow> string \<Rightarrow> string option" where
  "tenant_for_tail topic tail =
     (case strip_prefix ''/tenants/'' topic of
        None \<Rightarrow> None
      | Some rest \<Rightarrow>
          (case split_once CHR ''/'' rest of
             None \<Rightarrow> None
           | Some (tn, rest_tail) \<Rightarrow> if rest_tail = tail \<and> tn \<noteq> [] then Some tn else None))"

definition tenant_from_heartbeat :: "string \<Rightarrow> string option" where
  "tenant_from_heartbeat topic = tenant_for_tail topic ''osa/v1/up/heartbeat''"

definition tenant_from_hs_up :: "string \<Rightarrow> string option" where
  "tenant_from_hs_up topic = tenant_for_tail topic ''osa/v1/up/hs''"

definition tenant_from_ctrl_up :: "string \<Rightarrow> string option" where
  "tenant_from_ctrl_up topic = tenant_for_tail topic ''osa/v1/up/ctrl''"

definition tenant_from_result_up :: "string \<Rightarrow> string option" where
  "tenant_from_result_up topic = tenant_for_tail topic ''osa/v1/up/result''"

definition tenant_from_stream_up :: "string \<Rightarrow> string option" where
  "tenant_from_stream_up topic = tenant_for_tail topic ''osa/v1/up/stream''"

definition tenant_from_inventory_up :: "string \<Rightarrow> string option" where
  "tenant_from_inventory_up topic = tenant_for_tail topic ''osa/v1/up/inventory''"

lemmas uplink_parser_defs =
  tenant_from_heartbeat_def tenant_from_hs_up_def tenant_from_ctrl_up_def
  tenant_from_result_up_def tenant_from_stream_up_def tenant_from_inventory_up_def

lemmas topic_defs =
  heartbeat_def hs_up_def hs_down_def ctrl_up_def ctrl_down_def dispatch_down_def
  result_up_def stream_down_def stream_up_def inventory_up_def ROOT_def

subsection \<open>Parsing what the publishers print\<close>

lemma tenant_no_slash: "CHR ''/'' \<notin> set h \<Longrightarrow> CHR ''/'' \<notin> set (tenant h)"
  by (simp add: tenant_def)

lemma tenant_for_tail_Some:
  "tenant_for_tail topic tail = Some t \<longleftrightarrow>
     topic = ''/tenants/'' @ t @ CHR ''/'' # tail \<and> t \<noteq> [] \<and> CHR ''/'' \<notin> set t"
proof
  assume "tenant_for_tail topic tail = Some t"
  then show "topic = ''/tenants/'' @ t @ CHR ''/'' # tail \<and> t \<noteq> [] \<and> CHR ''/'' \<notin> set t"
    unfolding tenant_for_tail_def
    by (auto split: option.splits if_splits simp: strip_prefix_Some split_once_Some)
qed (auto simp: tenant_for_tail_def split_once_append)

lemma tenant_for_tail_prefix:
  assumes "CHR ''/'' \<notin> set h" "tenant h \<noteq> []"
  shows "tenant_for_tail (tenant_prefix h @ s) tail = (if s = tail then Some (tenant h) else None)"
  using assms split_once_append [OF tenant_no_slash [OF assms(1)], of s]
  by (simp add: tenant_for_tail_def tenant_prefix_def)

text \<open>
  The topic scheme is a faithful channel code: for a host id without a slash, the topic of
  each of the six uplinks is recognised by the parser of that uplink, which recovers the tenant, and
  by no other uplink's parser; no parser accepts a downlink topic.
\<close>

theorem uplink_topics_round_trip:
  fixes h :: string
  assumes "CHR ''/'' \<notin> set h" "tenant h \<noteq> []"
  defines "ups \<equiv> [heartbeat h, hs_up h, ctrl_up h, result_up h, stream_up h, inventory_up h]"
    and "parsers \<equiv> [tenant_from_heartbeat, tenant_from_hs_up, tenant_from_ctrl_up,
      tenant_from_result_up, tenant_from_stream_up, tenant_from_inventory_up]"
    and "downs \<equiv> [hs_down h, ctrl_down h, dispatch_down h, stream_down h]"
  shows "map (\<lambda>p. map p ups) parsers
      = map (\<lambda>i. map (\<lambda>j. if i = j then Some (tenant h) else None) [0..<6]) [0..<6]
    \<and> map (\<lambda>p. map p downs) parsers = replicate 6 (replicate 4 None)"
  unfolding ups_def parsers_def downs_def uplink_parser_defs topic_defs
  by (simp add: tenant_for_tail_prefix assms upt_rec numeral_eq_Suc)

theorem uplink_topics_round_trip_witness:
  "map (\<lambda>p. map p [heartbeat ''a1-b2'', hs_up ''a1-b2''])
     [tenant_from_heartbeat, tenant_from_hs_up]
   = [[Some ''a1b2'', None], [None, Some ''a1b2'']]"
  using uplink_topics_round_trip [of "''a1-b2''"] by (simp add: tenant_def upt_rec numeral_eq_Suc)

text \<open>
  Tenant confinement: a topic that begins with the prefix the broker confines a host to
  can only ever parse, on any uplink, to that host's own tenant.  A compromised host cannot
  publish a message that the coordinator attributes to another host.
\<close>

theorem topic_confinement:
  assumes "CHR ''/'' \<notin> set h" "starts_with topic (tenant_prefix h)"
    and "tenant_for_tail topic tail = Some t"
  shows "t = tenant h"
proof -
  obtain r where "''/tenants/'' @ tenant h @ CHR ''/'' # r = ''/tenants/'' @ t @ CHR ''/'' # tail"
    using assms(2,3) by (auto simp: starts_with_iff tenant_for_tail_Some tenant_prefix_def)
  then have "split_once CHR ''/'' (tenant h @ CHR ''/'' # r) = split_once CHR ''/'' (t @ CHR ''/'' # tail)"
    by simp
  then show ?thesis
    using assms(3) by (simp add: split_once_append tenant_no_slash [OF assms(1)] tenant_for_tail_Some)
qed

theorem topic_confinement_witness:
  "starts_with ''/tenants/a1b2/osa/v1/up/hs'' (tenant_prefix ''a1-b2'')
   \<and> tenant_from_hs_up ''/tenants/a1b2/osa/v1/up/hs'' = Some (tenant ''a1-b2'')"
proof -
  have s: "starts_with ''/tenants/a1b2/osa/v1/up/hs'' (tenant_prefix ''a1-b2'')"
    and p: "tenant_for_tail ''/tenants/a1b2/osa/v1/up/hs'' ''osa/v1/up/hs'' = Some ''a1b2''"
    by code_simp+
  show ?thesis
    using topic_confinement [OF _ s p] s p by (simp add: tenant_from_hs_up_def)
qed

lemma tenant_hyphenated: "uuid_laws U \<Longrightarrow> tenant (hyphenated U u) = simple_hex U u"
  by (simp add: uuid_laws_def tenant_def)

end
