(* ===== verification/Proto.thy ===== *)
theory Proto
  imports Osa_Prelude
begin

text \<open>
  The wire messages of \<^verbatim>\<open>osa-proto/proto/osa.proto\<close> that the modelled code builds or reads, and the
  port errors of \<^verbatim>\<open>osa-core/src/ports.rs\<close>.  A message field keeps its proto3 type; an enum field is
  the open \<open>i32\<close> that \<^verbatim>\<open>prost\<close> generates for it.  The generated encoder and decoder are a parameter
  of the definitions that call them: a record with one pair of functions per message.
\<close>

subsection \<open>Messages\<close>

record envelope =
  env_host_id :: string
  env_sid :: string
  env_seq :: u64
  env_kind :: i32
  env_ciphertext :: bytes

definition KIND_UNSPECIFIED :: i32 where "KIND_UNSPECIFIED = 0"
definition KIND_CONTROL :: i32 where "KIND_CONTROL = 1"
definition KIND_STREAM :: i32 where "KIND_STREAM = 2"

record client_hello =
  ch_sid :: string
  ch_client_eph :: bytes
  ch_cert_der :: bytes
  ch_sig :: bytes
  ch_epoch :: u64

record server_hello =
  sh_sid :: string
  sh_server_eph :: bytes
  sh_sig :: bytes

record action_descriptor =
  ad_kind :: string
  ad_target :: string
  ad_run_as :: string
  ad_params_hash :: bytes

record dispatch_msg =
  dm_job_id :: string
  dm_kind :: string
  dm_run_as :: string
  dm_params :: bytes

record exec_params =
  ep_argv :: "string list"

record shell_params =
  sp_rows :: u32
  sp_cols :: u32

record stream_frame =
  sf_data :: bytes
  sf_eof :: bool

record inventory_system =
  is_hostname :: string
  is_os :: string
  is_kernel :: string
  is_cpu_count :: u64
  is_memory_bytes :: u64

record inventory_interface =
  ii_name :: string
  ii_mac :: string
  ii_ip_addresses :: "string list"

record inventory_gap =
  ig_field :: string
  ig_reason :: string

record inventory_msg =
  im_dmi_serial :: "string option"
  im_system :: "inventory_system option"
  im_interfaces :: "inventory_interface list"
  im_gaps :: "inventory_gap list"

definition STREAM_UNSPECIFIED :: i32 where "STREAM_UNSPECIFIED = 0"
definition STDOUT :: i32 where "STDOUT = 1"
definition STDERR :: i32 where "STDERR = 2"

record output_chunk =
  oc_stream :: i32
  oc_data :: bytes

datatype terminal = ExitCode i32 | TermSignal i32 | TermError string

record job_outcome =
  jo_terminal :: "terminal option"
  jo_output_truncated :: bool
  jo_timed_out :: bool

datatype result_body = Chunk output_chunk | Outcome job_outcome

record job_result =
  jr_job_id :: string
  jr_body :: "result_body option"

record exec_event =
  ee_host_id :: string
  ee_event :: "result_body option"

subsection \<open>The generated codec\<close>

record 'm prost =
  encode_msg :: "'m \<Rightarrow> bytes"
  decode_msg :: "bytes \<Rightarrow> 'm option"

record codecs =
  env_codec :: "envelope prost"
  ch_codec :: "client_hello prost"
  sh_codec :: "server_hello prost"
  dm_codec :: "dispatch_msg prost"
  ep_codec :: "exec_params prost"
  sp_codec :: "shell_params prost"
  sf_codec :: "stream_frame prost"
  im_codec :: "inventory_msg prost"
  jr_codec :: "job_result prost"
  jo_codec :: "job_outcome prost"

text \<open>A message survives the codec when decoding its encoding gives it back.\<close>

definition round_trips :: "'m prost \<Rightarrow> 'm \<Rightarrow> bool" where
  "round_trips c m \<longleftrightarrow> decode_msg c (encode_msg c m) = Some m"

subsection \<open>Port errors\<close>

datatype port_error = Transport string | Denied | NotFound | Invalid string | Backend string

text \<open>gRPC statuses the services answer with.\<close>

datatype status =
  Unauthenticated | PermissionDenied | InvalidArgument | StatusNotFound | FailedPrecondition
  | ResourceExhausted | Unavailable | Internal | Aborted | DeadlineExceeded

end
