(* ===== verification/Policy.thy ===== *)
theory Policy
  imports Proto Rust_Str
begin

text \<open>
  \<^verbatim>\<open>osa-coordinator/src/policy.rs\<close>: the RBAC policy decision point.  A policy is a list of bindings;
  \<open>from_toml\<close> validates a parsed document into one (the TOML parser and the UUID parser are
  parameters), \<open>authorize\<close> decides an action for a subject.
\<close>

definition ANONYMOUS_SUBJECT :: string where
  "ANONYMOUS_SUBJECT = ''anonymous''"

datatype selector = Any | Host uuid

fun selector_matches :: "selector \<Rightarrow> uuid \<Rightarrow> bool" where
  "selector_matches Any target \<longleftrightarrow> True"
| "selector_matches (Host h) target \<longleftrightarrow> h = target"

record binding =
  b_subject :: string
  b_verbs :: "string list"
  b_selectors :: "selector list"
  b_run_as :: "string list"

definition binding_allows :: "binding \<Rightarrow> string \<Rightarrow> string \<Rightarrow> uuid \<Rightarrow> string \<Rightarrow> bool" where
  "binding_allows b subject kind target run_as \<longleftrightarrow>
     b_subject b = subject
     \<and> kind \<noteq> []
     \<and> list_ex (\<lambda>v. v = ''*'' \<or> v = kind) (b_verbs b)
     \<and> list_ex (\<lambda>s. selector_matches s target) (b_selectors b)
     \<and> list_ex (\<lambda>u. u = ''*'' \<or> u = run_as) (b_run_as b)"

type_synonym rbac = "binding list"

definition rbac_empty :: rbac where
  "rbac_empty = []"

record binding_doc =
  bd_subject :: string
  bd_verbs :: "string list"
  bd_selectors :: "string list"
  bd_run_as :: "string list"

datatype policy_error =
  PolicyNotToml | BadSubject | ReservedSubject | NoVerbs | NoSelectors | NoRunAs
  | PaddedRunAs string | BadSelector string

definition parse_selector :: "uuid_lib \<Rightarrow> string \<Rightarrow> policy_error + selector" where
  "parse_selector U s =
     (if s = ''*'' then Inr Any
      else case parse_uuid U s of None \<Rightarrow> Inl (BadSelector s) | Some h \<Rightarrow> Inr (Host h))"

definition load_binding :: "uuid_lib \<Rightarrow> binding_doc \<Rightarrow> policy_error + binding" where
  "load_binding U b =
     (if \<not> (bd_subject b \<noteq> [] \<and> trim (bd_subject b) = bd_subject b) then Inl BadSubject
      else if bd_subject b = ANONYMOUS_SUBJECT then Inl ReservedSubject
      else if bd_verbs b = [] then Inl NoVerbs
      else if bd_selectors b = [] then Inl NoSelectors
      else if bd_run_as b = [] then Inl NoRunAs
      else case find (\<lambda>u. trim u \<noteq> u) (bd_run_as b) of
        Some u \<Rightarrow> Inl (PaddedRunAs u)
      | None \<Rightarrow>
          (case collect_results (parse_selector U) (bd_selectors b) of
             Inl e \<Rightarrow> Inl e
           | Inr selectors \<Rightarrow> Inr
               \<lparr>b_subject = bd_subject b, b_verbs = bd_verbs b, b_selectors = selectors,
                b_run_as = bd_run_as b\<rparr>))"

definition from_toml ::
  "uuid_lib \<Rightarrow> (string \<Rightarrow> binding_doc list option) \<Rightarrow> string \<Rightarrow> policy_error + rbac" where
  "from_toml U toml doc =
     (case toml doc of None \<Rightarrow> Inl PolicyNotToml | Some parsed \<Rightarrow> collect_results (load_binding U) parsed)"

definition authorize :: "uuid_lib \<Rightarrow> rbac \<Rightarrow> string \<Rightarrow> action_descriptor \<Rightarrow> port_error + unit" where
  "authorize U bindings subject action =
     (case parse_uuid U (ad_target action) of
        None \<Rightarrow> Inl Denied
      | Some target \<Rightarrow>
          if list_ex (\<lambda>b. binding_allows b subject (ad_kind action) target (ad_run_as action)) bindings
          then Inr () else Inl Denied)"

subsection \<open>Loading\<close>

text \<open>A binding that \<open>from_toml\<close> admits.\<close>

definition binding_valid :: "binding \<Rightarrow> bool" where
  "binding_valid b \<longleftrightarrow> b_subject b \<noteq> [] \<and> trim (b_subject b) = b_subject b
     \<and> b_subject b \<noteq> ANONYMOUS_SUBJECT \<and> b_verbs b \<noteq> [] \<and> b_selectors b \<noteq> [] \<and> b_run_as b \<noteq> []
     \<and> list_all (\<lambda>u. trim u = u) (b_run_as b)"

lemma load_binding_valid: "load_binding U d = Inr b \<Longrightarrow> binding_valid b"
  by (auto simp: load_binding_def binding_valid_def list_all_iff find_None_iff
      dest!: collect_results_Inr split: if_splits option.splits sum.splits)

lemma from_toml_valid: "from_toml U toml doc = Inr bs \<Longrightarrow> list_all binding_valid bs"
  by (auto simp: from_toml_def list_all_iff split: option.splits
      elim!: collect_results_source intro: load_binding_valid)

subsection \<open>Decisions\<close>

lemma authorize_cases: "authorize U bs subject action = Inr () \<or> authorize U bs subject action = Inl Denied"
  by (simp add: authorize_def split: option.splits)

lemma authorize_Ok_iff:
  "authorize U bs subject action = Inr () \<longleftrightarrow>
     (\<exists>target. parse_uuid U (ad_target action) = Some target
        \<and> (\<exists>b \<in> set bs. binding_allows b subject (ad_kind action) target (ad_run_as action)))"
  by (auto simp: authorize_def list_ex_iff split: option.splits)

lemma authorize_empty: "authorize U rbac_empty subject action = Inl Denied"
  by (simp add: authorize_def rbac_empty_def split: option.splits)

lemma authorize_kind_nonempty: "authorize U bs subject action = Inr () \<Longrightarrow> ad_kind action \<noteq> []"
  by (auto simp: authorize_Ok_iff binding_allows_def)

text \<open>
  Soundness of the policy decision point: when a loaded policy lets a subject act, that
  subject is neither empty nor the reserved anonymous one, the target is a well-formed host id and
  the kind is non-empty, and some binding of the document grants this very subject the verb, the
  target and the \<open>run_as\<close> user.
\<close>

lemma authorize_grant_source:
  assumes "from_toml U toml doc = Inr bs" "authorize U bs subject action = Inr ()"
  shows "subject \<noteq> [] \<and> subject \<noteq> ANONYMOUS_SUBJECT \<and> ad_kind action \<noteq> []
    \<and> (\<exists>target d ds. parse_uuid U (ad_target action) = Some target
        \<and> toml doc = Some ds \<and> d \<in> set ds \<and> bd_subject d = subject
        \<and> (''*'' \<in> set (bd_verbs d) \<or> ad_kind action \<in> set (bd_verbs d))
        \<and> (''*'' \<in> set (bd_selectors d) \<or> (\<exists>s \<in> set (bd_selectors d). parse_uuid U s = Some target))
        \<and> (''*'' \<in> set (bd_run_as d) \<or> ad_run_as action \<in> set (bd_run_as d)))"
proof -
  obtain target b where t: "parse_uuid U (ad_target action) = Some target" and b: "b \<in> set bs"
    and allow: "binding_allows b subject (ad_kind action) target (ad_run_as action)"
    using assms(2) by (auto simp: authorize_Ok_iff)
  obtain ds where ds: "toml doc = Some ds" "collect_results (load_binding U) ds = Inr bs"
    using assms(1) by (auto simp: from_toml_def split: option.splits)
  obtain d where d: "d \<in> set ds" "load_binding U d = Inr b"
    by (rule collect_results_source [OF ds(2) b])
  obtain x where x: "x \<in> set (b_selectors b)" "selector_matches x target"
    using allow by (auto simp: binding_allows_def list_ex_iff)
  have sel: "collect_results (parse_selector U) (bd_selectors d) = Inr (b_selectors b)"
    and eqs: "bd_subject d = b_subject b" "bd_verbs d = b_verbs b" "bd_run_as d = b_run_as b"
    using d(2) by (auto simp: load_binding_def split: if_splits option.splits sum.splits)
  obtain s where s: "s \<in> set (bd_selectors d)" "parse_selector U s = Inr x"
    by (rule collect_results_source [OF sel x(1)])
  have "''*'' \<in> set (bd_selectors d) \<or> (\<exists>s \<in> set (bd_selectors d). parse_uuid U s = Some target)"
    using s x(2) by (cases x) (auto simp: parse_selector_def split: if_splits option.splits)
  moreover have "binding_valid b" by (rule load_binding_valid [OF d(2)])
  ultimately show ?thesis
    using t ds(1) d(1) allow eqs by (auto simp: binding_allows_def binding_valid_def list_ex_iff)
qed

definition sample_policy :: "string \<Rightarrow> binding_doc list option" where
  "sample_policy doc = Some
     [\<lparr>bd_subject = ''alice'', bd_verbs = [''exec''], bd_selectors = [''1''], bd_run_as = [''deploy'']\<rparr>]"

lemma sample_policy_loads:
  "from_toml tally_uuid sample_policy doc = Inr
     [\<lparr>b_subject = ''alice'', b_verbs = [''exec''], b_selectors = [Host 0], b_run_as = [''deploy'']\<rparr>]"
proof -
  have "trim ''alice'' = ''alice''" "trim ''deploy'' = ''deploy''"
    by (rule trim_unpadded; simp add: whitespace_encodings_def)+
  then show ?thesis
    by (simp add: from_toml_def sample_policy_def load_binding_def parse_selector_def
        tally_uuid_def ANONYMOUS_SUBJECT_def)
qed

end
