(* ===== verification/Seal.thy ===== *)
theory Seal
  imports Proto
begin

text \<open>
  \<^verbatim>\<open>osa-core/src/seal.rs\<close> and \<^verbatim>\<open>osa-core/src/wire.rs\<close>: session keys, the AEAD seal and the sealed
  envelope.  AES-256-GCM, X25519, HKDF, SHA-256 and ECDSA are a parameter, the record \<open>crypto\<close>; a
  32-byte key is a 256-bit word.  The lemmas show that the associated data is an unambiguous encoding
  of the routing header, that \<open>open_envelope\<close> inverts \<open>seal_envelope\<close> exactly, and that an envelope that
  opens was sealed with the same routing header.
\<close>

subsection \<open>The primitives the code calls\<close>

type_synonym key = "256 word"

record crypto =
  aes_encrypt :: "key \<Rightarrow> bytes \<Rightarrow> bytes \<Rightarrow> bytes \<Rightarrow> bytes"
  aes_decrypt :: "key \<Rightarrow> bytes \<Rightarrow> bytes \<Rightarrow> bytes \<Rightarrow> bytes option"
  x25519_public :: "key \<Rightarrow> key"
  diffie_hellman :: "key \<Rightarrow> key \<Rightarrow> key"
  was_contributory :: "key \<Rightarrow> bool"
  hkdf_extract :: "bytes \<Rightarrow> key \<Rightarrow> key"
  hkdf_expand :: "key \<Rightarrow> bytes \<Rightarrow> key"
  sha256 :: hasher
  ec_sign :: "string \<Rightarrow> bytes \<Rightarrow> bytes option"
  ec_public_ok :: "bytes \<Rightarrow> bool"
  ec_signature_ok :: "bytes \<Rightarrow> bool"
  ec_verify :: "bytes \<Rightarrow> bytes \<Rightarrow> bytes \<Rightarrow> bool"

text \<open>
  What the code relies on.  Decryption inverts encryption (\<open>aead_correct\<close>), and since GCM
  recomputes the tag of what it decrypts, whatever decrypts to \<open>m\<close> is the encryption of \<open>m\<close>
  (\<open>aead_tidy\<close>).  Both sides of an X25519 exchange compute the same secret (\<open>dh_agrees\<close>).
\<close>

definition aead_correct :: "crypto \<Rightarrow> bool" where
  "aead_correct C \<longleftrightarrow> (\<forall>k n a m. aes_decrypt C k n a (aes_encrypt C k n a m) = Some m)"

definition aead_tidy :: "crypto \<Rightarrow> bool" where
  "aead_tidy C \<longleftrightarrow> (\<forall>k n a c m. aes_decrypt C k n a c = Some m \<longrightarrow> c = aes_encrypt C k n a m)"

definition dh_agrees :: "crypto \<Rightarrow> bool" where
  "dh_agrees C \<longleftrightarrow>
     (\<forall>s t. diffie_hellman C s (x25519_public C t) = diffie_hellman C t (x25519_public C s))"

text \<open>
  Authenticity of the AEAD for one key: what decrypts under it was encrypted by one of the calls in
  the log \<open>L\<close> of its holders, with the same nonce, associated data and message.
\<close>

definition aead_authentic :: "crypto \<Rightarrow> key \<Rightarrow> (bytes \<times> bytes \<times> bytes) set \<Rightarrow> bool" where
  "aead_authentic C k L \<longleftrightarrow> (\<forall>n a c m. aes_decrypt C k n a c = Some m \<longrightarrow> (n, a, m) \<in> L)"

subsection \<open>\<open>seal.rs\<close>\<close>

datatype direction = CoordToAgent | AgentToCoord

definition LABEL_C2A :: bytes where "LABEL_C2A = as_bytes ''osa/v1 c2a''"
definition LABEL_A2C :: bytes where "LABEL_A2C = as_bytes ''osa/v1 a2c''"
definition LABEL_STREAM :: bytes where "LABEL_STREAM = as_bytes ''osa/v1 stream ''"

datatype handshake_error = WeakPeerKey

record session_keys =
  c2a :: key
  a2c :: key

record eph_handshake =
  eh_secret :: key
  eh_public :: key

text \<open>\<open>Handshake::new\<close>; the argument is what the entropy source returned.\<close>

definition handshake_new :: "crypto \<Rightarrow> key option \<Rightarrow> eph_handshake option" where
  "handshake_new C seed = map_option (\<lambda>s. \<lparr>eh_secret = s, eh_public = x25519_public C s\<rparr>) seed"

definition from_shared :: "crypto \<Rightarrow> key \<Rightarrow> bytes \<Rightarrow> session_keys" where
  "from_shared C shared binding =
     (let hk = hkdf_extract C binding shared
      in \<lparr>c2a = hkdf_expand C hk LABEL_C2A, a2c = hkdf_expand C hk LABEL_A2C\<rparr>)"

definition handshake_derive :: "crypto \<Rightarrow> eph_handshake \<Rightarrow> key \<Rightarrow> bytes \<Rightarrow> handshake_error + session_keys" where
  "handshake_derive C h peer_public binding =
     (let shared = diffie_hellman C (eh_secret h) peer_public in
      if \<not> was_contributory C shared then Inl WeakPeerKey
      else
        let (lo, hi) = (if eh_public h \<le> peer_public then (eh_public h, peer_public)
                        else (peer_public, eh_public h));
            transcript = binding @ be_bytes 32 lo @ be_bytes 32 hi
        in Inr (from_shared C shared transcript))"

definition expand_stream :: "crypto \<Rightarrow> key \<Rightarrow> bytes \<Rightarrow> key" where
  "expand_stream C dir_key stream_id = hkdf_expand C dir_key (LABEL_STREAM @ stream_id)"

definition derive_stream :: "crypto \<Rightarrow> session_keys \<Rightarrow> bytes \<Rightarrow> session_keys" where
  "derive_stream C keys stream_id =
     \<lparr>c2a = expand_stream C (c2a keys) stream_id, a2c = expand_stream C (a2c keys) stream_id\<rparr>"

fun cipher :: "session_keys \<Rightarrow> direction \<Rightarrow> key" where
  "cipher keys CoordToAgent = c2a keys"
| "cipher keys AgentToCoord = a2c keys"

definition nonce :: "u64 \<Rightarrow> bytes" where
  "nonce seq = [0, 0, 0, 0] @ u64_to_be_bytes seq"

definition seal :: "crypto \<Rightarrow> session_keys \<Rightarrow> direction \<Rightarrow> u64 \<Rightarrow> bytes \<Rightarrow> bytes \<Rightarrow> bytes" where
  "seal C keys dir seq aad plaintext = aes_encrypt C (cipher keys dir) (nonce seq) aad plaintext"

definition open_sealed :: "crypto \<Rightarrow> session_keys \<Rightarrow> direction \<Rightarrow> u64 \<Rightarrow> bytes \<Rightarrow> bytes \<Rightarrow> bytes option" where
  "open_sealed C keys dir seq aad ciphertext = aes_decrypt C (cipher keys dir) (nonce seq) aad ciphertext"

subsection \<open>\<open>wire.rs\<close>\<close>

definition CTRL_SESSION_READY :: bytes where "CTRL_SESSION_READY = as_bytes ''osa/v1 session-ready''"
definition CTRL_SESSION_ACK :: bytes where "CTRL_SESSION_ACK = as_bytes ''osa/v1 session-ack''"

definition params_hash :: "crypto \<Rightarrow> bytes \<Rightarrow> bytes" where
  "params_hash C params = be_bytes 32 (sha256 C params)"

definition hex_digits :: string where
  "hex_digits = ''0123456789abcdef''"

definition hex_byte :: "u8 \<Rightarrow> string" where
  "hex_byte b = [hex_digits ! (unat b div 16), hex_digits ! (unat b mod 16)]"

definition sha256_hex :: "crypto \<Rightarrow> bytes \<Rightarrow> string" where
  "sha256_hex C bs = fold (\<lambda>b s. s @ hex_byte b) (be_bytes 32 (sha256 C bs)) []"

definition aad :: "string \<Rightarrow> string \<Rightarrow> u64 \<Rightarrow> i32 \<Rightarrow> bytes" where
  "aad host_id sid seq knd =
     push_field (as_bytes host_id) @ push_field (as_bytes sid) @ u64_to_be_bytes seq @ i32_to_be_bytes knd"

definition seal_envelope ::
  "crypto \<Rightarrow> session_keys \<Rightarrow> direction \<Rightarrow> string \<Rightarrow> string \<Rightarrow> u64 \<Rightarrow> i32 \<Rightarrow> bytes \<Rightarrow> envelope" where
  "seal_envelope C keys dir host_id sid seq knd plaintext =
     \<lparr>env_host_id = host_id, env_sid = sid, env_seq = seq, env_kind = knd,
      env_ciphertext = seal C keys dir seq (aad host_id sid seq knd) plaintext\<rparr>"

definition open_envelope :: "crypto \<Rightarrow> session_keys \<Rightarrow> direction \<Rightarrow> envelope \<Rightarrow> bytes option" where
  "open_envelope C keys dir env =
     (let aad = aad (env_host_id env) (env_sid env) (env_seq env) (env_kind env)
      in open_sealed C keys dir (env_seq env) aad (env_ciphertext env))"

subsection \<open>Encodings\<close>

lemma nonce_inj [simp]: "nonce s = nonce t \<longleftrightarrow> s = t"
  by (simp add: nonce_def)

lemma length_nonce [simp]: "length (nonce s) = 12"
  by (simp add: nonce_def)

lemma aad_inj:
  assumes "fits h" "fits s" "fits h'" "fits s'"
  shows "aad h s q k = aad h' s' q' k' \<longleftrightarrow> h = h' \<and> s = s' \<and> q = q' \<and> k = k'"
  using assms by (auto simp: aad_def push_field_eq push_field_eq_end append_eq_same_length)

lemma length_hex_digits: "length hex_digits = 16"
  by (simp add: hex_digits_def)

lemma hex_byte_inj: "hex_byte b = hex_byte c \<longleftrightarrow> b = c"
proof
  assume eq: "hex_byte b = hex_byte c"
  have lt: "unat b div 16 < 16" "unat c div 16 < 16" "unat b mod 16 < 16" "unat c mod 16 < 16"
    using unsigned_less [of b, where ?'a = nat] unsigned_less [of c, where ?'a = nat] by simp_all
  have dist: "distinct hex_digits" by (simp add: hex_digits_def)
  have "unat b div 16 = unat c div 16" "unat b mod 16 = unat c mod 16"
    using eq dist lt by (simp_all add: hex_byte_def nth_eq_iff_index_eq length_hex_digits)
  then have "unat b = unat c" by (metis div_mult_mod_eq)
  then show "b = c" by (simp add: word_unat_eq_iff)
qed simp

lemma sha256_hex_alt: "sha256_hex C bs = concat (map hex_byte (be_bytes 32 (sha256 C bs)))"
proof -
  have "fold (\<lambda>b s. s @ hex_byte b) xs acc = acc @ concat (map hex_byte xs)" for xs acc
    by (induction xs arbitrary: acc) auto
  then show ?thesis by (simp add: sha256_hex_def)
qed

lemma length_sha256_hex [simp]: "length (sha256_hex C bs) = 64"
  by (simp add: sha256_hex_alt length_concat comp_def hex_byte_def sum_list_triv)

lemma hex_concat_inj:
  "length xs = length ys \<Longrightarrow> concat (map hex_byte xs) = concat (map hex_byte ys) \<longleftrightarrow> xs = ys"
proof (induction xs ys rule: list_induct2)
  case (Cons x xs y ys)
  have "length (hex_byte x) = length (hex_byte y)" by (simp add: hex_byte_def)
  then show ?case using Cons by (simp add: hex_byte_inj)
qed simp

lemma sha256_hex_inj: "sha256_hex C a = sha256_hex C b \<longleftrightarrow> sha256 C a = sha256 C b"
  by (simp add: sha256_hex_alt hex_concat_inj be_bytes_eq)

lemma sha256_hex_chars: "set (sha256_hex C bs) \<subseteq> set hex_digits"
proof -
  have "set (hex_byte b) \<subseteq> set hex_digits" for b
    using unsigned_less [of b, where ?'a = nat] nth_mem [of "unat b div 16" hex_digits]
      nth_mem [of "unat b mod 16" hex_digits]
    by (simp add: hex_byte_def length_hex_digits)
  then show ?thesis by (auto simp: sha256_hex_alt)
qed

lemma stream_info_inj: "LABEL_STREAM @ i = LABEL_STREAM @ j \<longleftrightarrow> i = j"
  by simp

subsection \<open>Sealed envelopes\<close>

lemma open_seal [simp]:
  "aead_correct C \<Longrightarrow> open_sealed C keys dir seq a (seal C keys dir seq a m) = Some m"
  by (simp add: aead_correct_def open_sealed_def seal_def)

lemma open_seal_envelope [simp]:
  "aead_correct C \<Longrightarrow> open_envelope C keys dir (seal_envelope C keys dir h s q k m) = Some m"
  by (simp add: open_envelope_def seal_envelope_def)

text \<open>
  Opening inverts sealing, exactly: a sealed envelope opens to its plaintext, and the only
  envelopes that open to a plaintext are the ones \<open>seal_envelope\<close> builds from it and their own
  routing header, so every bit of a sealed envelope is determined by header and payload.
\<close>

theorem envelope_round_trip:
  assumes "aead_correct C" "aead_tidy C"
  shows "open_envelope C keys dir env = Some m \<longleftrightarrow>
    env = seal_envelope C keys dir (env_host_id env) (env_sid env) (env_seq env) (env_kind env) m"
  using assms
  by (cases env) (auto simp: open_envelope_def seal_envelope_def open_sealed_def seal_def aead_correct_def
      aead_tidy_def)

text \<open>An instance of the primitives: the ciphertext carries key, nonce and data in clear.\<close>

definition toy_tag :: "key \<Rightarrow> bytes \<Rightarrow> bytes \<Rightarrow> bytes" where
  "toy_tag k n a = be_bytes 32 k @ push_field n @ push_field a"

definition toy_crypto :: crypto where
  "toy_crypto =
     \<lparr>aes_encrypt = (\<lambda>k n a m. toy_tag k n a @ m),
      aes_decrypt = (\<lambda>k n a c. let t = toy_tag k n a in
         if take (length t) c = t then Some (drop (length t) c) else None),
      x25519_public = (\<lambda>s. s), diffie_hellman = (\<lambda>s p. s + p), was_contributory = (\<lambda>z. z \<noteq> 0),
      hkdf_extract = (\<lambda>salt z. z + of_be_bytes salt), hkdf_expand = (\<lambda>k info. k + of_be_bytes info),
      sha256 = of_be_bytes, ec_sign = (\<lambda>pem m. Some (as_bytes pem @ m)),
      ec_public_ok = (\<lambda>_. True), ec_signature_ok = (\<lambda>_. True), ec_verify = (\<lambda>p m s. s = p @ m)\<rparr>"

lemma toy_crypto_laws: "aead_correct toy_crypto" "aead_tidy toy_crypto" "dh_agrees toy_crypto"
  by (auto simp: aead_correct_def aead_tidy_def dh_agrees_def toy_crypto_def Let_def add.commute
      split: if_splits) (metis append_take_drop_id)

theorem envelope_round_trip_witness:
  "open_envelope toy_crypto \<lparr>c2a = 1, a2c = 2\<rparr> AgentToCoord
     (seal_envelope toy_crypto \<lparr>c2a = 1, a2c = 2\<rparr> AgentToCoord ''h'' ''s'' 7 KIND_CONTROL [1, 2]) = Some [1, 2]"
  using envelope_round_trip [OF toy_crypto_laws(1,2), of "\<lparr>c2a = 1, a2c = 2\<rparr>" AgentToCoord
      "seal_envelope toy_crypto \<lparr>c2a = 1, a2c = 2\<rparr> AgentToCoord ''h'' ''s'' 7 KIND_CONTROL [1, 2]" "[1, 2]"]
  by (simp add: seal_envelope_def)



end
