(* ===== verification/Job_Store.thy ===== *)
theory Job_Store
  imports Seal Rust_Str
begin

text \<open>
  \<^verbatim>\<open>osa-agent/src/jobstore.rs\<close>: the durable per-job records that make dispatch idempotent.  The jobs
  directory has a visible and a durable content, each a map from file names to content and modification
  time; a directory sync makes the visible content durable, a crash keeps, name by name, one of the two.
\<close>

subsection \<open>Model\<close>

definition TAG_STARTED :: u8 where "TAG_STARTED = 0"
definition TAG_DONE :: u8 where "TAG_DONE = 1"

text \<open>Seven days, in nanoseconds.\<close>

definition RETENTION :: int where
  "RETENTION = 7 * 24 * 3600 * 1000000000"

datatype job_state = Started | Done job_outcome

record job_file =
  jf_content :: bytes
  jf_mtime :: int

record job_fs =
  fs_visible :: "string \<rightharpoonup> job_file"
  fs_durable :: "string \<rightharpoonup> job_file"

text \<open>The results of the system calls of one durable write, its time and the process id.\<close>

record write_io =
  w_create :: bool
  w_write :: bool
  w_sync :: bool
  w_rename :: bool
  w_dirsync :: bool
  w_now :: int
  w_pid :: nat

definition job_path :: "crypto \<Rightarrow> string \<Rightarrow> string" where
  "job_path C job_id = sha256_hex C (as_bytes job_id)"

definition tmp_path :: "write_io \<Rightarrow> string \<Rightarrow> string" where
  "tmp_path io path = path @ ''.tmp.'' @ dec_string (w_pid io)"

definition write_durably :: "write_io \<Rightarrow> string \<Rightarrow> bytes \<Rightarrow> job_fs \<Rightarrow> bool \<times> job_fs" where
  "write_durably io path bs fs =
     (let tmp = tmp_path io path;
          put = (\<lambda>name content fs. fs\<lparr>fs_visible := (fs_visible fs)(name \<mapsto> \<lparr>jf_content = content, jf_mtime = w_now io\<rparr>)\<rparr>)
      in if \<not> w_create io then (False, fs)
         else if \<not> w_write io then (False, put tmp [] fs)
         else
           let fs1 = put tmp bs fs in
           if \<not> w_sync io \<or> \<not> w_rename io then (False, fs1)
           else
             let fs2 = put path bs (fs1\<lparr>fs_visible := (fs_visible fs1)(tmp := None)\<rparr>) in
             if \<not> w_dirsync io then (False, fs2)
             else (True, fs2\<lparr>fs_durable := fs_visible fs2\<rparr>))"

definition job_lookup :: "crypto \<Rightarrow> codecs \<Rightarrow> bool \<Rightarrow> string \<Rightarrow> job_fs \<Rightarrow> job_state option option" where
  "job_lookup C P read_ok job_id fs =
     (if \<not> read_ok then None
      else case fs_visible fs (job_path C job_id) of
        None \<Rightarrow> Some None
      | Some f \<Rightarrow>
          (case jf_content f of
             [] \<Rightarrow> Some (Some Started)
           | tag # rest \<Rightarrow>
               if tag = TAG_DONE then
                 (case decode_msg (jo_codec P) rest of
                    Some outcome \<Rightarrow>
                      if jo_terminal outcome \<noteq> None then Some (Some (Done outcome)) else Some (Some Started)
                  | None \<Rightarrow> Some (Some Started))
               else Some (Some Started)))"

definition mark_started :: "crypto \<Rightarrow> write_io \<Rightarrow> string \<Rightarrow> job_fs \<Rightarrow> bool \<times> job_fs" where
  "mark_started C io job_id fs = write_durably io (job_path C job_id) [TAG_STARTED] fs"

definition record_done :: "crypto \<Rightarrow> codecs \<Rightarrow> write_io \<Rightarrow> string \<Rightarrow> job_outcome \<Rightarrow> job_fs \<Rightarrow> bool \<times> job_fs" where
  "record_done C P io job_id outcome fs =
     write_durably io (job_path C job_id) (TAG_DONE # encode_msg (jo_codec P) outcome) fs"

definition job_prunable :: "int \<Rightarrow> string \<Rightarrow> job_file \<Rightarrow> bool" where
  "job_prunable now name f \<longleftrightarrow> CHR ''.'' \<in> set name \<or> jf_mtime f < now - RETENTION"

definition job_prune :: "int \<Rightarrow> job_fs \<Rightarrow> job_fs" where
  "job_prune now fs = fs\<lparr>fs_visible := (\<lambda>name.
     case fs_visible fs name of None \<Rightarrow> None | Some f \<Rightarrow> if job_prunable now name f then None else Some f)\<rparr>"

definition job_crash :: "(string \<Rightarrow> bool) \<Rightarrow> job_fs \<Rightarrow> job_fs" where
  "job_crash kept fs =
     (let m = (\<lambda>name. if kept name then fs_visible fs name else fs_durable fs name)
      in \<lparr>fs_visible = m, fs_durable = m\<rparr>)"

subsection \<open>Records\<close>

lemma hex_no_dot: "CHR ''.'' \<notin> set (job_path C j)"
  using sha256_hex_chars [of C "as_bytes j"] by (auto simp: job_path_def hex_digits_def)

lemma tmp_path_neq [simp]: "tmp_path io p \<noteq> job_path C j"
proof
  assume "tmp_path io p = job_path C j"
  then have "CHR ''.'' \<in> set (job_path C j)" by (metis UnI2 Un_iff list.set_intros(1) set_append tmp_path_def)
  then show False using hex_no_dot by blast
qed

lemma tmp_path_neq' [simp]: "job_path C j \<noteq> tmp_path io p"
  using tmp_path_neq [of io p C j] by metis

definition recorded :: "crypto \<Rightarrow> string \<Rightarrow> job_fs \<Rightarrow> bool" where
  "recorded C j fs \<longleftrightarrow> fs_visible fs (job_path C j) \<noteq> None \<and> fs_durable fs (job_path C j) \<noteq> None"

lemma write_durably_visible:
  "fs_visible (snd (write_durably io (job_path C i) bs fs)) (job_path C j) =
     (if job_path C j = job_path C i \<and> w_create io \<and> w_write io \<and> w_sync io \<and> w_rename io
      then Some \<lparr>jf_content = bs, jf_mtime = w_now io\<rparr> else fs_visible fs (job_path C j))"
  by (simp add: write_durably_def Let_def)

lemma write_durably_durable:
  "fs_durable (snd (write_durably io (job_path C i) bs fs)) =
     (if fst (write_durably io (job_path C i) bs fs) then fs_visible (snd (write_durably io (job_path C i) bs fs))
      else fs_durable fs)"
  by (simp add: write_durably_def Let_def)

lemma write_durably_ok:
  "fst (write_durably io p bs fs) \<longleftrightarrow> w_create io \<and> w_write io \<and> w_sync io \<and> w_rename io \<and> w_dirsync io"
  by (auto simp: write_durably_def Let_def)

lemma recorded_write: "recorded C j fs \<Longrightarrow> recorded C j (snd (write_durably io (job_path C i) bs fs))"
  by (simp add: recorded_def write_durably_visible write_durably_durable)

lemma recorded_mark: "fst (mark_started C io j fs) \<Longrightarrow> recorded C j (snd (mark_started C io j fs))"
  by (simp add: mark_started_def recorded_def write_durably_visible write_durably_durable write_durably_ok)

lemma recorded_crash: "recorded C j fs \<Longrightarrow> recorded C j (job_crash kept fs)"
  by (simp add: recorded_def job_crash_def Let_def)

lemma recorded_lookup: "recorded C j fs \<Longrightarrow> job_lookup C P ok j fs \<noteq> Some None"
  by (auto simp: recorded_def job_lookup_def split: option.splits list.splits)

text \<open>
  A recorded outcome is replayed faithfully: after an outcome with a terminal status was
  durably recorded, every later lookup of that job, also after a crash that loses or keeps any
  unsynced name, returns exactly this outcome.
\<close>

theorem job_record_survives_crash:
  assumes "round_trips (jo_codec P) outcome" "jo_terminal outcome \<noteq> None"
    and "record_done C P io job_id outcome fs = (True, fs')"
  shows "job_lookup C P True job_id fs' = Some (Some (Done outcome))
    \<and> job_lookup C P True job_id (job_crash kept fs') = Some (Some (Done outcome))"
proof -
  have fs': "fs' = snd (record_done C P io job_id outcome fs)" "fst (record_done C P io job_id outcome fs)"
    using assms(3) by simp_all
  have "fs_visible fs' (job_path C job_id)
      = Some \<lparr>jf_content = TAG_DONE # encode_msg (jo_codec P) outcome, jf_mtime = w_now io\<rparr>"
    "fs_durable fs' = fs_visible fs'"
    using fs' by (simp_all add: record_done_def write_durably_visible write_durably_durable write_durably_ok)
  then show ?thesis
    using assms(1,2) by (simp add: job_lookup_def job_crash_def Let_def round_trips_def)
qed

definition sample_codecs :: "job_outcome \<Rightarrow> codecs" where
  "sample_codecs outcome =
     \<lparr>env_codec = \<lparr>encode_msg = (\<lambda>_. []), decode_msg = (\<lambda>_. None)\<rparr>,
      ch_codec = \<lparr>encode_msg = (\<lambda>_. []), decode_msg = (\<lambda>_. None)\<rparr>,
      sh_codec = \<lparr>encode_msg = (\<lambda>_. []), decode_msg = (\<lambda>_. None)\<rparr>,
      dm_codec = \<lparr>encode_msg = (\<lambda>_. []), decode_msg = (\<lambda>_. None)\<rparr>,
      ep_codec = \<lparr>encode_msg = (\<lambda>_. []), decode_msg = (\<lambda>_. Some \<lparr>ep_argv = [''true'']\<rparr>)\<rparr>,
      sp_codec = \<lparr>encode_msg = (\<lambda>_. []), decode_msg = (\<lambda>_. None)\<rparr>,
      sf_codec = \<lparr>encode_msg = (\<lambda>_. []), decode_msg = (\<lambda>_. None)\<rparr>,
      im_codec = \<lparr>encode_msg = (\<lambda>_. []), decode_msg = (\<lambda>_. None)\<rparr>,
      jr_codec = \<lparr>encode_msg = (\<lambda>_. []), decode_msg = (\<lambda>_. None)\<rparr>,
      jo_codec = \<lparr>encode_msg = (\<lambda>_. [1]), decode_msg = (\<lambda>_. Some outcome)\<rparr>\<rparr>"

definition good_io :: write_io where
  "good_io = \<lparr>w_create = True, w_write = True, w_sync = True, w_rename = True, w_dirsync = True, w_now = 0, w_pid = 1\<rparr>"

theorem job_record_survives_crash_witness:
  "let outcome = \<lparr>jo_terminal = Some (ExitCode 0), jo_output_truncated = False, jo_timed_out = False\<rparr>;
       P = sample_codecs outcome;
       fs = snd (record_done toy_crypto P good_io ''job'' outcome \<lparr>fs_visible = Map.empty, fs_durable = Map.empty\<rparr>)
   in job_lookup toy_crypto P True ''job'' (job_crash (\<lambda>_. False) fs) = Some (Some (Done outcome))"
proof -
  define outcome where "outcome = \<lparr>jo_terminal = Some (ExitCode 0), jo_output_truncated = False, jo_timed_out = False\<rparr>"
  define P where "P = sample_codecs outcome"
  obtain fs' where r: "record_done toy_crypto P good_io ''job'' outcome \<lparr>fs_visible = Map.empty, fs_durable = Map.empty\<rparr> = (True, fs')"
    by (simp add: record_done_def write_durably_def good_io_def Let_def)
  have "job_lookup toy_crypto P True ''job'' (job_crash (\<lambda>_. False) fs') = Some (Some (Done outcome))"
    using job_record_survives_crash [OF _ _ r] by (simp add: P_def outcome_def round_trips_def sample_codecs_def)
  then show ?thesis unfolding outcome_def [symmetric] Let_def P_def [symmetric] r by simp
qed

end
