(* ===== verification/Exec.thy ===== *)
theory Exec
  imports Proto
begin

text \<open>
  \<^verbatim>\<open>osa-agent/src/exec.rs\<close>: running a command with streamed, capped output and a privilege drop.  The
  operating system is an argument: the user database, whether the calls of the child succeed, the
  stream of pipe reads in the order the select loop sees them, and the exit status.  What the model
  returns besides the result is the process that was started and the chunks handed to the sink.
\<close>

subsection \<open>Model\<close>

definition EXEC_KIND :: string where "EXEC_KIND = ''exec''"
definition READ_CHUNK :: nat where "READ_CHUNK = 16 * 1024"

datatype pump_end = PumpEof | PumpTruncated | PumpSinkClosed | PumpTimedOut

datatype chunk = Stdout bytes | Stderr bytes

record exec_limits =
  max_output_bytes :: nat
  has_timeout :: bool

definition unbounded :: exec_limits where
  "unbounded = \<lparr>max_output_bytes = 2 ^ 64 - 1, has_timeout = False\<rparr>"

record stream_outcome =
  so_exit_code :: "i32 option"
  so_signal :: "i32 option"
  so_truncated :: bool
  so_timed_out :: bool

datatype exec_error =
  EmptyArgv | UnknownUser string | UserLookup string | Spawn string | Wait

record user =
  u_name :: string
  u_uid :: nat
  u_gid :: nat
  u_dir :: string
  u_shell :: string

text \<open>The credentials and environment a child runs with.\<close>

record creds =
  cr_uid :: nat
  cr_gid :: nat
  cr_groups :: "nat list"

record process =
  p_argv :: "string list"
  p_creds :: creds
  p_env :: "(string \<times> string) list"
  p_killed :: bool

text \<open>One event of the select loop: a read from a pipe (empty at end of file or on an error), with
  whether the sink still accepts, or the deadline.\<close>

datatype pump_event = ReadOut bytes bool | ReadErr bytes bool | Deadline

record exec_os =
  os_creds :: creds
  os_env :: "(string \<times> string) list"
  os_getpwnam :: "string \<Rightarrow> user option option"
  os_setgid :: bool
  os_setgroups :: bool
  os_setuid :: bool
  os_spawn :: bool
  os_events :: "pump_event list"
  os_wait :: "(i32 option \<times> i32 option) option"

definition resolve_user :: "exec_os \<Rightarrow> string \<Rightarrow> exec_error + user option" where
  "resolve_user os run_as =
     (if run_as = [] then Inr None
      else case os_getpwnam os run_as of
        Some (Some u) \<Rightarrow> Inr (Some u)
      | Some None \<Rightarrow> Inl (UnknownUser run_as)
      | None \<Rightarrow> Inl (UserLookup run_as))"

text \<open>The environment \<open>apply_target_user\<close> sets, and its \<open>pre_exec\<close> closure: the credentials after the
  three calls in their order, or failure at the first that fails.\<close>

definition target_env :: "user \<Rightarrow> (string \<times> string) list" where
  "target_env u =
     [(''PATH'', ''/usr/local/bin:/usr/bin:/bin''), (''HOME'', u_dir u), (''USER'', u_name u),
      (''LOGNAME'', u_name u), (''SHELL'', u_shell u)]"

definition pre_exec :: "exec_os \<Rightarrow> user \<Rightarrow> creds \<Rightarrow> creds option" where
  "pre_exec os u c =
     (if \<not> os_setgid os then None
      else let c1 = c\<lparr>cr_gid := u_gid u\<rparr> in
        if \<not> os_setgroups os then None
        else let c2 = c1\<lparr>cr_groups := [u_gid u]\<rparr> in
          if \<not> os_setuid os then None else Some (c2\<lparr>cr_uid := u_uid u\<rparr>))"

definition spawn :: "exec_os \<Rightarrow> string list \<Rightarrow> user option \<Rightarrow> process option" where
  "spawn os argv who =
     (if \<not> os_spawn os then None
      else case who of
        None \<Rightarrow> Some \<lparr>p_argv = argv, p_creds = os_creds os, p_env = os_env os, p_killed = False\<rparr>
      | Some u \<Rightarrow>
          map_option (\<lambda>c. \<lparr>p_argv = argv, p_creds = c, p_env = target_env u, p_killed = False\<rparr>)
            (pre_exec os u (os_creds os)))"

text \<open>The pump over the events, with its \<open>out_done\<close>, \<open>err_done\<close> and \<open>total\<close> (\<open>sent\<close>).  Events of a closed
  pipe are not selected.  When the events end before both pipes do, a limited run meets its deadline and
  an unlimited one the end of the process, which closes them.\<close>

fun pump :: "exec_limits \<Rightarrow> bool \<Rightarrow> bool \<Rightarrow> nat \<Rightarrow> pump_event list \<Rightarrow> chunk list \<times> pump_end" where
  "pump l out_done err_done sent [] =
     ([], if \<not> (out_done \<and> err_done) \<and> has_timeout l then PumpTimedOut else PumpEof)"
| "pump l out_done err_done sent (ev # evs) =
     (if out_done \<and> err_done then ([], PumpEof)
      else case ev of
        Deadline \<Rightarrow> if has_timeout l then ([], PumpTimedOut) else pump l out_done err_done sent evs
      | ReadOut bs sink_ok \<Rightarrow>
          if out_done then pump l out_done err_done sent evs
          else if bs = [] then pump l True err_done sent evs
          else
            let d = take READ_CHUNK bs in
            if \<not> sink_ok then ([], PumpSinkClosed)
            else if sent + length d > max_output_bytes l then ([Stdout d], PumpTruncated)
            else apfst (Cons (Stdout d)) (pump l out_done err_done (sent + length d) evs)
      | ReadErr bs sink_ok \<Rightarrow>
          if err_done then pump l out_done err_done sent evs
          else if bs = [] then pump l out_done True sent evs
          else
            let d = take READ_CHUNK bs in
            if \<not> sink_ok then ([], PumpSinkClosed)
            else if sent + length d > max_output_bytes l then ([Stderr d], PumpTruncated)
            else apfst (Cons (Stderr d)) (pump l out_done err_done (sent + length d) evs))"

record exec_run =
  er_process :: "process option"
  er_chunks :: "chunk list"
  er_result :: "exec_error + stream_outcome"

definition exec_stream :: "exec_os \<Rightarrow> string list \<Rightarrow> string \<Rightarrow> exec_limits \<Rightarrow> exec_run" where
  "exec_stream os argv run_as limits =
     (if argv = [] then \<lparr>er_process = None, er_chunks = [], er_result = Inl EmptyArgv\<rparr>
      else case resolve_user os run_as of
        Inl e \<Rightarrow> \<lparr>er_process = None, er_chunks = [], er_result = Inl e\<rparr>
      | Inr who \<Rightarrow>
          (case spawn os argv who of
             None \<Rightarrow> \<lparr>er_process = None, er_chunks = [], er_result = Inl (Spawn (hd argv))\<rparr>
           | Some p \<Rightarrow>
               (case pump limits False False 0 (os_events os) of
                  (chunks, fin) \<Rightarrow>
                    let truncated = (fin = PumpTruncated); timed_out = (fin = PumpTimedOut);
                        sink_closed = (fin = PumpSinkClosed);
                        p' = p\<lparr>p_killed := truncated \<or> timed_out \<or> sink_closed\<rparr>
                    in \<lparr>er_process = Some p', er_chunks = chunks,
                        er_result = (case os_wait os of
                           None \<Rightarrow> Inl Wait
                         | Some (code, sig) \<Rightarrow> Inr
                             \<lparr>so_exit_code = code, so_signal = sig, so_truncated = truncated,
                              so_timed_out = timed_out\<rparr>)\<rparr>)))"

fun chunk_data :: "chunk \<Rightarrow> bytes" where
  "chunk_data (Stdout d) = d"
| "chunk_data (Stderr d) = d"

record exec_outcome =
  eo_exit_code :: "i32 option"
  eo_signal :: "i32 option"
  eo_stdout :: bytes
  eo_stderr :: bytes

definition exec_run_buffered :: "exec_os \<Rightarrow> string list \<Rightarrow> string \<Rightarrow> exec_error + exec_outcome" where
  "exec_run_buffered os argv run_as =
     (let r = exec_stream os argv run_as unbounded in
      case er_result r of
        Inl e \<Rightarrow> Inl e
      | Inr o' \<Rightarrow> Inr
          \<lparr>eo_exit_code = so_exit_code o', eo_signal = so_signal o',
           eo_stdout = concat (map (\<lambda>c. case c of Stdout d \<Rightarrow> d | Stderr _ \<Rightarrow> []) (er_chunks r)),
           eo_stderr = concat (map (\<lambda>c. case c of Stdout _ \<Rightarrow> [] | Stderr d \<Rightarrow> d) (er_chunks r))\<rparr>)"

subsection \<open>Bounds and privileges\<close>

lemma pump_bound:
  "sent \<le> max_output_bytes l \<Longrightarrow>
     sent + length (concat (map chunk_data (fst (pump l od ed sent evs)))) \<le> max_output_bytes l + READ_CHUNK"
proof (induction l od ed sent evs rule: pump.induct)
  case (2 l od ed sent ev evs)
  show ?case
  proof (cases ev)
    case (ReadOut bs ok)
    then show ?thesis using 2 by (auto simp: Let_def add.assoc)
  next
    case (ReadErr bs ok)
    then show ?thesis using 2 by (auto simp: Let_def add.assoc)
  qed (use 2 in auto)
qed simp

text \<open>
  C27.  Exec is bounded and drops privileges completely or not at all: a job hands at most its cap
  plus one read buffer of output to the sink; and when a \<open>run_as\<close> user is named, a process that is
  started runs with exactly that user's uid, its primary group as the only group, and the cleared
  minimal environment.
\<close>

theorem exec_bounded_and_confined:
  shows "length (concat (map chunk_data (er_chunks (exec_stream os argv run_as limits))))
      \<le> max_output_bytes limits + READ_CHUNK
    \<and> (\<forall>p. er_process (exec_stream os argv run_as limits) = Some p \<and> run_as \<noteq> [] \<longrightarrow>
        (\<exists>u. os_getpwnam os run_as = Some (Some u) \<and> p_env p = target_env u
           \<and> p_creds p = \<lparr>cr_uid = u_uid u, cr_gid = u_gid u, cr_groups = [u_gid u]\<rparr>))"
proof
  show "length (concat (map chunk_data (er_chunks (exec_stream os argv run_as limits)))) \<le> max_output_bytes limits + READ_CHUNK"
    using pump_bound [of 0 limits False False "os_events os"]
    by (auto simp: exec_stream_def Let_def case_prod_unfold split: sum.splits option.splits)
  show "\<forall>p. er_process (exec_stream os argv run_as limits) = Some p \<and> run_as \<noteq> [] \<longrightarrow>
      (\<exists>u. os_getpwnam os run_as = Some (Some u) \<and> p_env p = target_env u
         \<and> p_creds p = \<lparr>cr_uid = u_uid u, cr_gid = u_gid u, cr_groups = [u_gid u]\<rparr>)"
    by (auto simp: exec_stream_def resolve_user_def spawn_def pre_exec_def Let_def case_prod_unfold
        split: if_splits option.splits)
qed

definition sample_os :: exec_os where
  "sample_os =
     \<lparr>os_creds = \<lparr>cr_uid = 0, cr_gid = 0, cr_groups = [0, 27]\<rparr>, os_env = [(''LD_PRELOAD'', ''x'')],
      os_getpwnam = (\<lambda>n. Some (if n = ''deploy'' then Some \<lparr>u_name = n, u_uid = 1000, u_gid = 1001,
        u_dir = ''/home/deploy'', u_shell = ''/bin/sh''\<rparr> else None)),
      os_setgid = True, os_setgroups = True, os_setuid = True, os_spawn = True,
      os_events = [ReadOut [104, 105] True, ReadErr [] True, ReadOut [] True], os_wait = Some (Some 0, None)\<rparr>"

theorem exec_bounded_and_confined_witness:
  "\<exists>p. er_process (exec_stream sample_os [''id''] ''deploy'' unbounded) = Some p
     \<and> p_creds p = \<lparr>cr_uid = 1000, cr_gid = 1001, cr_groups = [1001]\<rparr>"
proof -
  have "\<exists>p. er_process (exec_stream sample_os [''id''] ''deploy'' unbounded) = Some p"
    by (simp add: exec_stream_def resolve_user_def spawn_def pre_exec_def sample_os_def Let_def READ_CHUNK_def
        unbounded_def)
  then show ?thesis
    using exec_bounded_and_confined [of sample_os "[''id'']" "''deploy''" unbounded] by (auto simp: sample_os_def)
qed

end
