(* ===== verification/Allowlist.thy ===== *)
theory Allowlist
  imports Proto
begin

text \<open>
  \<^verbatim>\<open>osa-core/src/allowlist.rs\<close> and \<^verbatim>\<open>osa-agent/src/backstop.rs\<close>: the host-local backstop an agent
  applies to every dispatched action, and how it is loaded.  Reading the file and the TOML parser
  are parameters of \<open>backstop_load\<close>.
\<close>

datatype backstop_denial = DenyVerb string | DenyRunAs string

record local_allowlist =
  la_verbs :: "string list"
  la_run_as :: "string list"

definition la_new :: "string list \<Rightarrow> string list \<Rightarrow> local_allowlist" where
  "la_new verbs run_as = \<lparr>la_verbs = verbs, la_run_as = run_as\<rparr>"

definition la_deny_all :: local_allowlist where
  "la_deny_all = \<lparr>la_verbs = [], la_run_as = []\<rparr>"

definition la_permits :: "local_allowlist \<Rightarrow> action_descriptor \<Rightarrow> backstop_denial + unit" where
  "la_permits al action =
     (if ad_kind action = [] \<or> \<not> list_ex (\<lambda>v. v = ''*'' \<or> v = ad_kind action) (la_verbs al) then
        Inl (DenyVerb (ad_kind action))
      else if \<not> list_ex (\<lambda>u. u = ''*'' \<or> u = ad_run_as action) (la_run_as al) then
        Inl (DenyRunAs (ad_run_as action))
      else Inr ())"

datatype load_error = ReadingAllowlist | AllowlistNotToml

record allowlist_doc =
  doc_verbs :: "string list"
  doc_run_as :: "string list"

definition backstop_load ::
  "(string \<Rightarrow> string option) \<Rightarrow> (string \<Rightarrow> allowlist_doc option) \<Rightarrow> string option \<Rightarrow> load_error + local_allowlist"
where
  "backstop_load read_to_string toml path =
     (case path of
        None \<Rightarrow> Inr la_deny_all
      | Some path \<Rightarrow>
          (case read_to_string path of
             None \<Rightarrow> Inl ReadingAllowlist
           | Some doc \<Rightarrow>
               (case toml doc of
                  None \<Rightarrow> Inl AllowlistNotToml
                | Some parsed \<Rightarrow> Inr (la_new (doc_verbs parsed) (doc_run_as parsed)))))"

subsection \<open>Decisions\<close>

lemma la_permits_Ok_iff:
  "la_permits al action = Inr () \<longleftrightarrow> ad_kind action \<noteq> []
     \<and> (''*'' \<in> set (la_verbs al) \<or> ad_kind action \<in> set (la_verbs al))
     \<and> (''*'' \<in> set (la_run_as al) \<or> ad_run_as action \<in> set (la_run_as al))"
  by (auto simp: la_permits_def list_ex_iff)

lemma la_permits_mono:
  assumes "set (la_verbs al) \<subseteq> set (la_verbs bl)" "set (la_run_as al) \<subseteq> set (la_run_as bl)"
  shows "la_permits al action = Inr () \<Longrightarrow> la_permits bl action = Inr ()"
  using assms by (auto simp: la_permits_Ok_iff)

text \<open>
  The backstop is deny-by-default and decides on exactly two things: it accepts an action
  if and only if its kind is non-empty and listed (or wildcarded) and its \<open>run_as\<close> user, the empty
  default identity included, is listed (or wildcarded); otherwise it names the kind first, then the
  user; and with no allowlist configured it refuses every action.
\<close>

theorem backstop_decision:
  "la_permits al action =
     (if ad_kind action \<noteq> [] \<and> (''*'' \<in> set (la_verbs al) \<or> ad_kind action \<in> set (la_verbs al)) then
        if ''*'' \<in> set (la_run_as al) \<or> ad_run_as action \<in> set (la_run_as al) then Inr ()
        else Inl (DenyRunAs (ad_run_as action))
      else Inl (DenyVerb (ad_kind action)))
   \<and> (\<exists>al0. backstop_load rd toml None = Inr al0 \<and> la_permits al0 action \<noteq> Inr ())"
  by (auto simp: la_permits_def list_ex_iff backstop_load_def la_deny_all_def)

end
