(* ===== verification/Channel_Guard.thy ===== *)
theory Channel_Guard
  imports Seal
begin

text \<open>
  The two contracts that every sealed channel of the system follows, as locales.  A receiver is a
  \<open>replay_guard\<close>: it authenticates an envelope first and only then compares its sequence number with
  the highest one accepted.  A sender is a \<open>nonce_source\<close>: it seals each payload under the next value
  of a counter.  The agent session, the coordinator session and both ends of a shell stream
  interpret them.
\<close>

subsection \<open>Receivers\<close>

fun open_all :: "('s \<Rightarrow> envelope \<Rightarrow> bytes option \<times> 's) \<Rightarrow> 's \<Rightarrow> envelope list \<Rightarrow> (u64 \<times> bytes) list \<times> 's" where
  "open_all open_op s [] = ([], s)"
| "open_all open_op s (env # envs) =
     (case open_op s env of
        (r, s') \<Rightarrow> (case open_all open_op s' envs of
          (acc, s'') \<Rightarrow> ((case r of None \<Rightarrow> acc | Some m \<Rightarrow> (env_seq env, m) # acc), s'')))"

definition above :: "u64 option \<Rightarrow> u64 \<Rightarrow> bool" where
  "above high seq \<longleftrightarrow> (case high of None \<Rightarrow> True | Some h \<Rightarrow> h < seq)"

lemma above_simps [simp]: "above None seq" "above (Some h) seq \<longleftrightarrow> h < seq"
  by (simp_all add: above_def)

locale replay_guard =
  fixes open_op :: "'s \<Rightarrow> envelope \<Rightarrow> bytes option \<times> 's"
    and authentic :: "'s \<Rightarrow> envelope \<Rightarrow> bytes option"
    and high :: "'s \<Rightarrow> u64 option"
  assumes authentic_stable: "authentic (snd (open_op s env)) = authentic s"
    and forged: "authentic s env = None \<Longrightarrow> open_op s env = (None, s)"
    and stale: "authentic s env = Some m \<Longrightarrow> \<not> above (high s) (env_seq env) \<Longrightarrow> open_op s env = (None, s)"
    and fresh: "authentic s env = Some m \<Longrightarrow> above (high s) (env_seq env)
      \<Longrightarrow> fst (open_op s env) = Some m \<and> high (snd (open_op s env)) = Some (env_seq env)"

context replay_guard
begin

lemma open_cases:
  obtains (refused) "open_op s env = (None, s)" "authentic s env = None \<or> \<not> above (high s) (env_seq env)"
  | (accepted) m s' where "open_op s env = (Some m, s')" "authentic s env = Some m"
      "above (high s) (env_seq env)" "high s' = Some (env_seq env)" "authentic s' = authentic s"
proof (cases "authentic s env")
  case None
  then show thesis using forged refused by blast
next
  case (Some m)
  show thesis
  proof (cases "above (high s) (env_seq env)")
    case True
    then show thesis
      using fresh [OF Some] authentic_stable [of s env] Some accepted [of m "snd (open_op s env)"]
      by (metis prod.collapse)
  next
    case False
    then show thesis using stale [OF Some] refused by blast
  qed
qed

lemma accepted_strictly_increasing:
  "sorted_wrt (<) (map fst (fst (open_all open_op s envs)))
   \<and> (\<forall>x \<in> set (fst (open_all open_op s envs)). above (high s) (fst x))"
proof (induction envs arbitrary: s)
  case (Cons env envs)
  show ?case
  proof (cases rule: open_cases [of s env])
    case refused
    then show ?thesis using Cons.IH [of s] by (simp add: case_prod_unfold)
  next
    case (accepted m s')
    have "above (high s) q" if "env_seq env < q" for q
      using accepted(3) that by (auto simp: above_def split: option.splits)
    then show ?thesis using Cons.IH [of s'] accepted
      by (simp add: case_prod_unfold)
  qed
qed simp

lemma accepted_authentic:
  "x \<in> set (fst (open_all open_op s envs)) \<Longrightarrow> \<exists>env \<in> set envs. authentic s env = Some (snd x) \<and> env_seq env = fst x"
proof (induction envs arbitrary: s)
  case (Cons env envs)
  show ?case
  proof (cases rule: open_cases [of s env])
    case refused
    then show ?thesis using Cons.IH [of s] Cons.prems by (auto simp: case_prod_unfold)
  next
    case (accepted m s')
    then show ?thesis using Cons.IH [of s'] Cons.prems by (auto simp: case_prod_unfold)
  qed
qed simp

lemma forgeries_have_no_effect:
  "open_all open_op s envs = open_all open_op s (filter (\<lambda>env. authentic s env \<noteq> None) envs)"
proof (induction envs arbitrary: s)
  case (Cons env envs)
  show ?case
  proof (cases rule: open_cases [of s env])
    case refused
    then show ?thesis using Cons.IH [of s] by (simp add: case_prod_unfold)
  next
    case (accepted m s')
    then show ?thesis using Cons.IH [of s'] by (simp add: case_prod_unfold)
  qed
qed simp

lemma in_order_all_accepted:
  assumes "\<forall>env \<in> set envs. authentic s env \<noteq> None" "sorted_wrt (<) (map env_seq envs)"
    and "\<forall>env \<in> set envs. above (high s) (env_seq env)"
  shows "fst (open_all open_op s envs) = map (\<lambda>env. (env_seq env, the (authentic s env))) envs"
  using assms
proof (induction envs arbitrary: s)
  case (Cons env envs)
  show ?case
  proof (cases rule: open_cases [of s env])
    case refused
    then show ?thesis using Cons.prems by auto
  next
    case (accepted m s')
    have "fst (open_all open_op s' envs) = map (\<lambda>env. (env_seq env, the (authentic s' env))) envs"
      by (rule Cons.IH) (use Cons.prems accepted in \<open>auto simp: above_def\<close>)
    then show ?thesis using accepted by (simp add: case_prod_unfold)
  qed
qed simp

end

subsection \<open>Senders\<close>

fun seal_all :: "('i \<Rightarrow> 's \<Rightarrow> bytes \<times> 's) \<Rightarrow> 'i list \<Rightarrow> 's \<Rightarrow> bytes list \<times> 's" where
  "seal_all seal_op [] s = ([], s)"
| "seal_all seal_op (i # is) s =
     (case seal_op i s of (out, s') \<Rightarrow> (case seal_all seal_op is s' of (outs, s'') \<Rightarrow> (out # outs, s'')))"

locale nonce_source =
  fixes seal_op :: "'i \<Rightarrow> 's \<Rightarrow> bytes \<times> 's"
    and counter :: "'s \<Rightarrow> u64"
    and sealed :: "'s \<Rightarrow> 'i \<Rightarrow> u64 \<Rightarrow> bytes"
  assumes seals_at_counter: "fst (seal_op i s) = sealed s i (counter s)"
    and counter_advances: "counter (snd (seal_op i s)) = counter s + 1"
    and sealed_stable: "sealed (snd (seal_op i s)) = sealed s"

context nonce_source
begin

lemma seal_all_sequence:
  "seal_all seal_op is s = (outs, s') \<Longrightarrow>
     outs = map (\<lambda>k. sealed s (is ! k) (counter s + of_nat k)) [0..<length is]
     \<and> counter s' = counter s + of_nat (length is)"
proof (induction "is" arbitrary: s outs)
  case (Cons i "is")
  obtain out s1 where o: "seal_op i s = (out, s1)" by (cases "seal_op i s")
  obtain outs1 where os: "seal_all seal_op is s1 = (outs1, s')" "outs = out # outs1"
    using Cons.prems o by (auto split: prod.splits)
  have s1: "out = sealed s i (counter s)" "counter s1 = counter s + 1" "sealed s1 = sealed s"
    using seals_at_counter [of i s] counter_advances [of i s] sealed_stable [of i s] o by simp_all
  show ?case using Cons.IH [OF os(1)] os(2) s1
    by (simp add: upt_conv_Cons map_Suc_upt [symmetric] comp_def algebra_simps del: upt_Suc)
qed simp

end

lemma counters_distinct:
  "n \<le> 2 ^ 64 \<Longrightarrow> distinct (map (\<lambda>k. (c :: u64) + of_nat k) [0..<n])"
proof -
  assume n: "n \<le> 2 ^ 64"
  have "inj_on (\<lambda>k. c + of_nat k) {0..<n}"
  proof (rule inj_onI)
    fix i j assume "i \<in> {0..<n}" "j \<in> {0..<n}" "c + of_nat i = c + of_nat j"
    then have "i < 2 ^ 64" "j < 2 ^ 64" "(of_nat i :: u64) = of_nat j" using n by auto
    then show "i = j" by (simp add: word_unat_eq_iff unat_of_nat)
  qed
  then show ?thesis by (simp add: distinct_map)
qed

end
