(* ===== verification/Handshake.thy ===== *)
theory Handshake
  imports Seal
begin

text \<open>
  \<^verbatim>\<open>osa-core/src/handshake.rs\<close>: the signed ephemeral key exchange.  The transcripts are the bytes the
  two sides sign; \<open>initiator_start\<close> and \<open>initiator_finish\<close> are the agent's half, \<open>respond\<close> the
  coordinator's.  What the entropy source returns is an argument.
\<close>

subsection \<open>Model\<close>

definition CLIENT_CTX :: bytes where "CLIENT_CTX = as_bytes ''osa/v1 hs c2s''"
definition SERVER_CTX :: bytes where "SERVER_CTX = as_bytes ''osa/v1 hs s2c''"

datatype hs_error = BadKey | BadPeerKey | BadSignature | BadEphemeral handshake_error | Rng

definition client_transcript :: "bytes \<Rightarrow> u64 \<Rightarrow> key \<Rightarrow> bytes" where
  "client_transcript sid epoch client_eph =
     CLIENT_CTX @ push_field sid @ u64_to_be_bytes epoch @ push_field (be_bytes 32 client_eph)"

definition server_transcript :: "bytes \<Rightarrow> key \<Rightarrow> key \<Rightarrow> bytes" where
  "server_transcript sid client_eph server_eph =
     SERVER_CTX @ push_field sid @ push_field (be_bytes 32 client_eph) @ push_field (be_bytes 32 server_eph)"

definition session_binding :: "bytes \<Rightarrow> key \<Rightarrow> key \<Rightarrow> bytes \<Rightarrow> bytes" where
  "session_binding sid client_eph server_eph cert_der =
     push_field sid @ push_field (be_bytes 32 client_eph) @ push_field (be_bytes 32 server_eph)
     @ push_field cert_der"

definition hs_sign :: "crypto \<Rightarrow> string \<Rightarrow> bytes \<Rightarrow> hs_error + bytes" where
  "hs_sign C signing_key_pem msg =
     (case ec_sign C signing_key_pem msg of None \<Rightarrow> Inl BadKey | Some sig \<Rightarrow> Inr sig)"

definition hs_verify :: "crypto \<Rightarrow> bytes \<Rightarrow> bytes \<Rightarrow> bytes \<Rightarrow> hs_error + unit" where
  "hs_verify C public_key_sec1 msg sig =
     (if \<not> ec_public_ok C public_key_sec1 then Inl BadPeerKey
      else if \<not> ec_signature_ok C sig then Inl BadSignature
      else if ec_verify C public_key_sec1 msg sig then Inr () else Inl BadSignature)"

record initiator =
  in_eph :: eph_handshake
  in_sid :: bytes
  in_cert_der :: bytes

record hs_client_hello =
  hc_client_eph :: key
  hc_sig :: bytes

definition initiator_start ::
  "crypto \<Rightarrow> key option \<Rightarrow> bytes \<Rightarrow> u64 \<Rightarrow> bytes \<Rightarrow> string \<Rightarrow> hs_error + initiator \<times> hs_client_hello" where
  "initiator_start C seed sid epoch cert_der signing_key_pem =
     (case handshake_new C seed of
        None \<Rightarrow> Inl Rng
      | Some eph \<Rightarrow>
          (case hs_sign C signing_key_pem (client_transcript sid epoch (eh_public eph)) of
             Inl e \<Rightarrow> Inl e
           | Inr sig \<Rightarrow> Inr (\<lparr>in_eph = eph, in_sid = sid, in_cert_der = cert_der\<rparr>,
                             \<lparr>hc_client_eph = eh_public eph, hc_sig = sig\<rparr>)))"

definition lift_derive :: "handshake_error + 'a \<Rightarrow> hs_error + 'a" where
  "lift_derive r = (case r of Inl e \<Rightarrow> Inl (BadEphemeral e) | Inr k \<Rightarrow> Inr k)"

definition initiator_finish :: "crypto \<Rightarrow> initiator \<Rightarrow> key \<Rightarrow> bytes \<Rightarrow> bytes \<Rightarrow> hs_error + session_keys" where
  "initiator_finish C st server_eph server_sig ca_public_key_sec1 =
     (let client_eph = eh_public (in_eph st) in
      case hs_verify C ca_public_key_sec1 (server_transcript (in_sid st) client_eph server_eph) server_sig of
        Inl e \<Rightarrow> Inl e
      | Inr _ \<Rightarrow>
          lift_derive (handshake_derive C (in_eph st) server_eph
            (session_binding (in_sid st) client_eph server_eph (in_cert_der st))))"

record server_response =
  sr_server_eph :: key
  sr_sig :: bytes
  sr_keys :: session_keys

definition respond ::
  "crypto \<Rightarrow> key option \<Rightarrow> bytes \<Rightarrow> u64 \<Rightarrow> key \<Rightarrow> bytes \<Rightarrow> bytes \<Rightarrow> bytes \<Rightarrow> string \<Rightarrow> hs_error + server_response"
where
  "respond C seed sid epoch client_eph client_sig agent_public_key_sec1 cert_der ca_signing_key_pem =
     (case hs_verify C agent_public_key_sec1 (client_transcript sid epoch client_eph) client_sig of
        Inl e \<Rightarrow> Inl e
      | Inr _ \<Rightarrow>
          (case handshake_new C seed of
             None \<Rightarrow> Inl Rng
           | Some eph \<Rightarrow>
               (case hs_sign C ca_signing_key_pem (server_transcript sid client_eph (eh_public eph)) of
                  Inl e \<Rightarrow> Inl e
                | Inr sig \<Rightarrow>
                    (case lift_derive (handshake_derive C eph client_eph
                            (session_binding sid client_eph (eh_public eph) cert_der)) of
                       Inl e \<Rightarrow> Inl e
                     | Inr keys \<Rightarrow> Inr \<lparr>sr_server_eph = eh_public eph, sr_sig = sig, sr_keys = keys\<rparr>))))"

subsection \<open>Transcripts are unambiguous and separated by role\<close>

lemma fits_be_bytes_32 [simp]: "fits (be_bytes 32 w)"
  by (simp add: fits_def)

lemma client_transcript_inj:
  "fits s \<Longrightarrow> fits s' \<Longrightarrow> client_transcript s e c = client_transcript s' e' c' \<longleftrightarrow> s = s' \<and> e = e' \<and> c = c'"
  by (auto simp: client_transcript_def push_field_eq push_field_eq_end append_eq_same_length be_bytes_eq)

lemma server_transcript_inj:
  "fits s \<Longrightarrow> fits s' \<Longrightarrow> server_transcript s c v = server_transcript s' c' v' \<longleftrightarrow> s = s' \<and> c = c' \<and> v = v'"
  by (auto simp: server_transcript_def push_field_eq push_field_eq_end be_bytes_eq)

lemma session_binding_inj:
  assumes "fits s" "fits s'" "fits d" "fits d'"
  shows "session_binding s c v d = session_binding s' c' v' d' \<longleftrightarrow> s = s' \<and> c = c' \<and> v = v' \<and> d = d'"
  using assms by (auto simp: session_binding_def push_field_eq push_field_eq_end be_bytes_eq)

lemma transcripts_separated: "client_transcript s e c \<noteq> server_transcript s' c' v'"
proof
  assume "client_transcript s e c = server_transcript s' c' v'"
  then have "take 13 (client_transcript s e c) = take 13 (server_transcript s' c' v')" by simp
  then show False
    by (simp add: client_transcript_def server_transcript_def CLIENT_CTX_def SERVER_CTX_def as_bytes_def)
qed

subsection \<open>Key agreement\<close>

text \<open>A signing key and the public key that verifies it.\<close>

definition key_pair :: "crypto \<Rightarrow> string \<Rightarrow> bytes \<Rightarrow> bool" where
  "key_pair C pem pub \<longleftrightarrow> ec_public_ok C pub
     \<and> (\<forall>m. \<exists>sig. ec_sign C pem m = Some sig \<and> ec_signature_ok C sig \<and> ec_verify C pub m sig)"

lemma hs_sign_verify:
  "key_pair C pem pub \<Longrightarrow> hs_sign C pem m = Inr sig \<Longrightarrow> hs_verify C pub m sig = Inr ()"
  unfolding key_pair_def hs_sign_def hs_verify_def by (metis (no_types, lifting) Inr_inject old.sum.simps(4)
      option.case_eq_if option.discI option.sel sum.distinct(1))

lemma hs_sign_Inr: "key_pair C pem pub \<Longrightarrow> \<exists>sig. hs_sign C pem m = Inr sig"
  unfolding key_pair_def hs_sign_def by (metis option.simps(5))

lemma handshake_derive_agrees:
  assumes "dh_agrees C" "handshake_new C (Some s) = Some h" "handshake_new C (Some t) = Some k"
  shows "handshake_derive C h (eh_public k) b = handshake_derive C k (eh_public h) b"
proof -
  have eqs: "eh_secret h = s" "eh_public h = x25519_public C s" "eh_secret k = t" "eh_public k = x25519_public C t"
    using assms(2,3) by (auto simp: handshake_new_def)
  have "diffie_hellman C s (x25519_public C t) = diffie_hellman C t (x25519_public C s)"
    using assms(1) by (simp add: dh_agrees_def)
  then show ?thesis
    by (cases "x25519_public C s = x25519_public C t")
      (auto simp: handshake_derive_def eqs Let_def not_le)
qed

text \<open>
  C19.  Key agreement: when an agent starts a session and the coordinator responds to exactly what
  the agent sent, with keys that belong together on both sides, the response either is refused for a
  weak ephemeral or gives both sides the same session keys.
\<close>

theorem handshake_key_agreement:
  assumes "dh_agrees C" "key_pair C agent_pem agent_pub" "key_pair C ca_pem ca_pub"
    and start: "initiator_start C (Some s) sid epoch cert agent_pem = Inr (st, hello)"
  shows "case respond C (Some t) sid epoch (hc_client_eph hello) (hc_sig hello) agent_pub cert ca_pem of
      Inl e \<Rightarrow> e = BadEphemeral WeakPeerKey
    | Inr r \<Rightarrow> initiator_finish C st (sr_server_eph r) (sr_sig r) ca_pub = Inr (sr_keys r)"
proof -
  obtain h where h: "handshake_new C (Some s) = Some h" by (simp add: handshake_new_def)
  obtain k where k: "handshake_new C (Some t) = Some k" by (simp add: handshake_new_def)
  obtain csig where csig: "hs_sign C agent_pem (client_transcript sid epoch (eh_public h)) = Inr csig"
    and st: "st = \<lparr>in_eph = h, in_sid = sid, in_cert_der = cert\<rparr>"
    and hello: "hello = \<lparr>hc_client_eph = eh_public h, hc_sig = csig\<rparr>"
    using start by (auto simp: initiator_start_def h split: sum.splits)
  obtain ssig where ssig: "hs_sign C ca_pem (server_transcript sid (eh_public h) (eh_public k)) = Inr ssig"
    using hs_sign_Inr [OF assms(3)] by blast
  note sigs = hs_sign_verify [OF assms(2) csig] hs_sign_verify [OF assms(3) ssig]
  let ?b = "session_binding sid (eh_public h) (eh_public k) cert"
  show ?thesis
  proof (cases "handshake_derive C k (eh_public h) ?b")
    case (Inl e)
    then show ?thesis by (cases e) (simp add: respond_def hello k sigs ssig lift_derive_def)
  next
    case (Inr keys)
    then have "handshake_derive C h (eh_public k) ?b = Inr keys"
      using handshake_derive_agrees [OF assms(1) h k] by simp
    then show ?thesis
      using Inr by (simp add: respond_def initiator_finish_def hello st k sigs ssig lift_derive_def)
  qed
qed

lemma toy_key_pair: "key_pair toy_crypto pem (as_bytes pem)"
  by (simp add: key_pair_def toy_crypto_def)

theorem handshake_key_agreement_witness:
  "\<exists>st hello r. initiator_start toy_crypto (Some 3) [7] 1 [8] ''agent'' = Inr (st, hello)
     \<and> respond toy_crypto (Some 4) [7] 1 (hc_client_eph hello) (hc_sig hello) (as_bytes ''agent'') [8] ''ca'' = Inr r
     \<and> initiator_finish toy_crypto st (sr_server_eph r) (sr_sig r) (as_bytes ''ca'') = Inr (sr_keys r)"
proof -
  define hello where "hello = \<lparr>hc_client_eph = 3, hc_sig = as_bytes ''agent'' @ client_transcript [7] 1 3\<rparr>"
  then have hello: "hc_client_eph hello = 3" "hc_sig hello = as_bytes ''agent'' @ client_transcript [7] 1 3"
    by simp_all
  obtain st where start: "initiator_start toy_crypto (Some 3) [7] 1 [8] ''agent'' = Inr (st, hello)"
    by (simp add: initiator_start_def handshake_new_def hs_sign_def toy_crypto_def hello_def)
  have "\<exists>r. respond toy_crypto (Some 4) [7] 1 3 (as_bytes ''agent'' @ client_transcript [7] 1 3)
      (as_bytes ''agent'') [8] ''ca'' = Inr r"
    by (simp add: respond_def hs_verify_def handshake_new_def hs_sign_def handshake_derive_def
        lift_derive_def toy_crypto_def Let_def)
  then obtain r where r: "respond toy_crypto (Some 4) [7] 1 (hc_client_eph hello) (hc_sig hello)
      (as_bytes ''agent'') [8] ''ca'' = Inr r"
    unfolding hello by (elim exE)
  from handshake_key_agreement [OF toy_crypto_laws(3) toy_key_pair toy_key_pair [of "''ca''"] start,
      where t = 4, unfolded r sum.case]
  show ?thesis using start r by (intro exI conjI)
qed

text \<open>
  What a signing key has signed besides handshake transcripts are DER structures (the CA key signs
  certificates, the agent key signs certificate requests), whose first byte is \<open>0x30\<close>.
\<close>

definition only_signed :: "crypto \<Rightarrow> bytes \<Rightarrow> bytes set \<Rightarrow> bool" where
  "only_signed C pub msgs \<longleftrightarrow>
     (\<forall>m sig. ec_verify C pub m sig \<longrightarrow> m \<in> msgs \<or> (\<exists>der. m = 0x30 # der))"

lemma hs_verify_signed:
  assumes "only_signed C pub msgs" "hs_verify C pub m sig = Inr ()" "hd m \<noteq> 0x30"
  shows "m \<in> msgs"
  using assms unfolding only_signed_def hs_verify_def by (metis list.sel(1) sum.distinct(1))

lemma hd_transcripts: "hd (client_transcript s e c) \<noteq> 0x30" "hd (server_transcript s c v) \<noteq> 0x30"
  by (simp_all add: client_transcript_def server_transcript_def CLIENT_CTX_def SERVER_CTX_def as_bytes_def)



end
