(* ===== verification/Agent_Session.thy ===== *)
theory Agent_Session
  imports Channel_Guard Handshake Rust_Str
begin

text \<open>
  \<^verbatim>\<open>osa-agent/src/session.rs\<close>: the agent's identity, the handshake it drives, the live session with its
  uplink sequence allocator and downlink replay guard, and the persisted session epoch.  File contents
  and the results of system calls are arguments; the epoch file has a visible and a durable content so
  that crashes between the rename and the directory sync can be stated.
\<close>

subsection \<open>Identity\<close>

record agent_identity =
  id_host_id :: string
  id_signing_key_pem :: string
  id_cert_der :: bytes
  id_ca_pubkey_sec1 :: bytes

datatype session_error =
  ReadingFile string | ParsingPem string | MalformedCert | BuildingClientHello hs_error
  | DecodingServerHello | SidMismatch | BadEphemeralLength | ServerHelloRejected hs_error
  | DecodingBeacon | BeaconSidMismatch | BeaconRefused | UnexpectedPayload

text \<open>\<open>read_string\<close> and \<open>read_file\<close> are the reads under the state directory, \<open>pem\<close> the PEM parser and
  \<open>pubkey\<close> the certificate parser of \<open>subject_pubkey_sec1\<close>.\<close>

definition identity_load ::
  "(string \<Rightarrow> string option) \<Rightarrow> (string \<Rightarrow> bytes option) \<Rightarrow> (bytes \<Rightarrow> bytes option) \<Rightarrow> (bytes \<Rightarrow> bytes option)
   \<Rightarrow> session_error + agent_identity" where
  "identity_load read_string read_file pem pubkey =
     (case read_string ''host_id'' of
        None \<Rightarrow> Inl (ReadingFile ''host_id'')
      | Some h \<Rightarrow>
     (case read_string ''host.key'' of
        None \<Rightarrow> Inl (ReadingFile ''host.key'')
      | Some key \<Rightarrow>
     (case read_file ''host.crt'' of
        None \<Rightarrow> Inl (ReadingFile ''host.crt'')
      | Some crt \<Rightarrow>
     (case pem crt of
        None \<Rightarrow> Inl (ParsingPem ''host cert'')
      | Some cert_der \<Rightarrow>
     (case read_file ''ca.crt'' of
        None \<Rightarrow> Inl (ReadingFile ''ca.crt'')
      | Some ca \<Rightarrow>
     (case pem ca of
        None \<Rightarrow> Inl (ParsingPem ''pinned CA'')
      | Some ca_der \<Rightarrow>
     (case pubkey ca_der of
        None \<Rightarrow> Inl MalformedCert
      | Some pk \<Rightarrow> Inr
          \<lparr>id_host_id = trim h, id_signing_key_pem = key, id_cert_der = cert_der, id_ca_pubkey_sec1 = pk\<rparr>)))))))"

subsection \<open>The live session\<close>

record handshaking =
  hsk_initiator :: initiator
  hsk_sid :: string

record established =
  est_keys :: session_keys
  est_sid :: string
  est_send_seq :: u64
  est_recv_high :: "u64 option"

definition accept_recv :: "established \<Rightarrow> u64 \<Rightarrow> bool \<times> established" where
  "accept_recv est seq =
     (if (case est_recv_high est of None \<Rightarrow> False | Some h \<Rightarrow> seq \<le> h) then (False, est)
      else (True, est\<lparr>est_recv_high := Some seq\<rparr>))"

definition open_downlink :: "crypto \<Rightarrow> established \<Rightarrow> envelope \<Rightarrow> bytes option \<times> established" where
  "open_downlink C est env =
     (case open_envelope C (est_keys est) CoordToAgent env of
        None \<Rightarrow> (None, est)
      | Some plaintext \<Rightarrow>
          (case accept_recv est (env_seq env) of
             (ok, est') \<Rightarrow> (if ok then Some plaintext else None, est')))"

text \<open>\<open>send_seq.fetch_add(1)\<close> wraps; the counter is threaded explicitly.\<close>

definition seal_uplink ::
  "crypto \<Rightarrow> codecs \<Rightarrow> session_keys \<Rightarrow> u64 \<Rightarrow> string \<Rightarrow> string \<Rightarrow> bytes \<Rightarrow> bytes \<times> u64" where
  "seal_uplink C P keys send_seq host_id sid payload =
     (let seq = send_seq;
          env = seal_envelope C keys AgentToCoord host_id sid seq KIND_CONTROL payload
      in (encode_msg (env_codec P) env, send_seq + 1))"

text \<open>The same on the session record, for the callers that hold it.\<close>

definition est_seal :: "crypto \<Rightarrow> codecs \<Rightarrow> string \<Rightarrow> bytes \<Rightarrow> established \<Rightarrow> bytes \<times> established" where
  "est_seal C P host_id payload est =
     (case seal_uplink C P (est_keys est) (est_send_seq est) host_id (est_sid est) payload of
        (out, seq) \<Rightarrow> (out, est\<lparr>est_send_seq := seq\<rparr>))"

definition start_handshake ::
  "crypto \<Rightarrow> codecs \<Rightarrow> string \<Rightarrow> key option \<Rightarrow> agent_identity \<Rightarrow> u64 \<Rightarrow> session_error + handshaking \<times> bytes" where
  "start_handshake C P sid seed ident epoch =
     (case initiator_start C seed (as_bytes sid) epoch (id_cert_der ident) (id_signing_key_pem ident) of
        Inl e \<Rightarrow> Inl (BuildingClientHello e)
      | Inr (init, hello) \<Rightarrow>
          Inr (\<lparr>hsk_initiator = init, hsk_sid = sid\<rparr>,
            encode_msg (ch_codec P)
              \<lparr>ch_sid = sid, ch_client_eph = be_bytes 32 (hc_client_eph hello),
               ch_cert_der = id_cert_der ident, ch_sig = hc_sig hello, ch_epoch = epoch\<rparr>))"

definition key_of_bytes :: "bytes \<Rightarrow> key option" where
  "key_of_bytes bs = (if length bs = 32 then Some (of_be_bytes bs) else None)"

definition finish_handshake ::
  "crypto \<Rightarrow> codecs \<Rightarrow> handshaking \<Rightarrow> agent_identity \<Rightarrow> bytes \<Rightarrow> session_error + established" where
  "finish_handshake C P hs ident server_hello =
     (case decode_msg (sh_codec P) server_hello of
        None \<Rightarrow> Inl DecodingServerHello
      | Some sh \<Rightarrow>
          if sh_sid sh \<noteq> hsk_sid hs then Inl SidMismatch
          else (case key_of_bytes (sh_server_eph sh) of
             None \<Rightarrow> Inl BadEphemeralLength
           | Some server_eph \<Rightarrow>
               (case initiator_finish C (hsk_initiator hs) server_eph (sh_sig sh) (id_ca_pubkey_sec1 ident) of
                  Inl e \<Rightarrow> Inl (ServerHelloRejected e)
                | Inr keys \<Rightarrow> Inr
                    \<lparr>est_keys = keys, est_sid = hsk_sid hs, est_send_seq = 0, est_recv_high = None\<rparr>)))"

definition confirm_session ::
  "crypto \<Rightarrow> codecs \<Rightarrow> established \<Rightarrow> agent_identity \<Rightarrow> bytes \<Rightarrow> (session_error + bytes) \<times> established" where
  "confirm_session C P est ident beacon =
     (case decode_msg (env_codec P) beacon of
        None \<Rightarrow> (Inl DecodingBeacon, est)
      | Some env \<Rightarrow>
          if env_sid env \<noteq> est_sid est then (Inl BeaconSidMismatch, est)
          else (case open_downlink C est env of
             (None, est') \<Rightarrow> (Inl BeaconRefused, est')
           | (Some payload, est') \<Rightarrow>
               if payload \<noteq> CTRL_SESSION_READY then (Inl UnexpectedPayload, est')
               else (case est_seal C P (id_host_id ident) CTRL_SESSION_ACK est' of
                  (out, est'') \<Rightarrow> (Inr out, est''))))"

subsection \<open>The persisted epoch\<close>

record epoch_fs =
  ef_visible :: "string option"
  ef_durable :: "string option"

record epoch_io =
  eio_read :: bool
  eio_create :: bool
  eio_write :: bool
  eio_sync :: bool
  eio_rename :: bool
  eio_dirsync :: bool

datatype epoch_error = CorruptEpoch | ReadingEpoch | EpochOverflow | EpochIo

definition next_epoch :: "epoch_io \<Rightarrow> epoch_fs \<Rightarrow> (epoch_error + u64) \<times> epoch_fs" where
  "next_epoch io fs =
     (case (if \<not> eio_read io then Inl ReadingEpoch
            else case ef_visible fs of
              None \<Rightarrow> Inr 0
            | Some s \<Rightarrow> (case parse_u64 (trim s) of None \<Rightarrow> Inl CorruptEpoch | Some e \<Rightarrow> Inr e)) of
        Inl e \<Rightarrow> (Inl e, fs)
      | Inr current \<Rightarrow>
          (case checked_add64 current 1 of
             None \<Rightarrow> (Inl EpochOverflow, fs)
           | Some nxt \<Rightarrow>
               if \<not> (eio_create io \<and> eio_write io \<and> eio_sync io \<and> eio_rename io) then (Inl EpochIo, fs)
               else
                 let fs' = fs\<lparr>ef_visible := Some (u64_to_string nxt)\<rparr> in
                 if \<not> eio_dirsync io then (Inl EpochIo, fs')
                 else (Inr nxt, fs'\<lparr>ef_durable := ef_visible fs'\<rparr>)))"

text \<open>A crash: a rename whose directory sync did not happen survives or is lost.\<close>

definition epoch_crash :: "bool \<Rightarrow> epoch_fs \<Rightarrow> epoch_fs" where
  "epoch_crash kept fs =
     (if kept then fs\<lparr>ef_durable := ef_visible fs\<rparr> else fs\<lparr>ef_visible := ef_durable fs\<rparr>)"

datatype epoch_event = NextEpoch epoch_io | EpochCrash bool

fun epoch_run :: "epoch_fs \<Rightarrow> epoch_event list \<Rightarrow> u64 list \<times> epoch_fs" where
  "epoch_run fs [] = ([], fs)"
| "epoch_run fs (NextEpoch io # evs) =
     (case next_epoch io fs of
        (r, fs') \<Rightarrow> (case epoch_run fs' evs of
          (es, fs'') \<Rightarrow> ((case r of Inl _ \<Rightarrow> es | Inr e \<Rightarrow> e # es), fs'')))"
| "epoch_run fs (EpochCrash kept # evs) = epoch_run (epoch_crash kept fs) evs"

subsection \<open>The session follows the channel contracts\<close>

interpretation agent_rx: replay_guard "open_downlink C"
    "\<lambda>est. open_envelope C (est_keys est) CoordToAgent" est_recv_high
  by unfold_locales
    (auto simp: open_downlink_def accept_recv_def above_def not_less split: option.splits)

interpretation agent_tx: nonce_source "est_seal C P host_id" est_send_seq
    "\<lambda>est payload seq. encode_msg (env_codec P)
      (seal_envelope C (est_keys est) AgentToCoord host_id (est_sid est) seq KIND_CONTROL payload)"
  by unfold_locales (simp_all add: est_seal_def seal_uplink_def Let_def fun_eq_iff)

text \<open>
  C21.  The agent's downlink cannot be replayed or poisoned.  For every sequence of envelopes a
  broker delivers to a session: the accepted sequence numbers strictly increase, so nothing is
  accepted twice; every accepted payload is one that authenticates under the session's key; and
  envelopes that do not authenticate leave no trace, the run is the one without them.
\<close>

theorem agent_downlink_replay_safe:
  "sorted_wrt (<) (map fst (fst (open_all (open_downlink C) est envs)))
   \<and> set (fst (open_all (open_downlink C) est envs))
       \<subseteq> {(env_seq env, m) | env m. env \<in> set envs \<and> open_envelope C (est_keys est) CoordToAgent env = Some m}
   \<and> open_all (open_downlink C) est envs
       = open_all (open_downlink C) est (filter (\<lambda>env. open_envelope C (est_keys est) CoordToAgent env \<noteq> None) envs)"
  using agent_rx.accepted_strictly_increasing [of C est envs] agent_rx.forgeries_have_no_effect [of C est envs]
    agent_rx.accepted_authentic [of _ C est envs]
  by (fastforce simp: subset_iff)

text \<open>
  C23.  No nonce is ever reused on the uplink: however many payloads the tasks of a session seal, up
  to the full \<open>2^64\<close> of the counter, the \<open>k\<close>-th is sealed at the \<open>k\<close>-th number from the counter's start, and the
  AES-GCM nonces of all of them are pairwise different.
\<close>

theorem agent_uplink_nonces_unique:
  assumes "length payloads \<le> 2 ^ 64"
  shows "fst (seal_all (est_seal C P host_id) payloads est) =
      map (\<lambda>k. encode_msg (env_codec P) (seal_envelope C (est_keys est) AgentToCoord host_id (est_sid est)
        (est_send_seq est + of_nat k) KIND_CONTROL (payloads ! k))) [0..<length payloads]
    \<and> distinct (map (\<lambda>k. nonce (est_send_seq est + of_nat k)) [0..<length payloads])"
proof -
  obtain outs est' where run: "seal_all (est_seal C P host_id) payloads est = (outs, est')"
    by (rule prod.exhaust)
  have "distinct (map nonce (map (\<lambda>k. est_send_seq est + of_nat k) [0..<length payloads]))"
    using counters_distinct [OF assms, of "est_send_seq est"] by (simp add: distinct_map inj_on_def)
  then show ?thesis using agent_tx.seal_all_sequence [OF run] run by (simp add: comp_def)
qed

theorem agent_uplink_nonces_unique_witness:
  "distinct (map (\<lambda>k. nonce (0xFFFFFFFFFFFFFFFF + of_nat k)) [0..<length [[1 :: u8], [2], [3]]])"
  using agent_uplink_nonces_unique [of "[[1], [2], [3]]" C P h
      "\<lparr>est_keys = k, est_sid = sid, est_send_seq = 0xFFFFFFFFFFFFFFFF, est_recv_high = None\<rparr>"]
  by simp

subsection \<open>Epochs never regress\<close>

definition epoch_val :: "string option \<Rightarrow> nat" where
  "epoch_val c = (case c of None \<Rightarrow> 0 | Some s \<Rightarrow> (case parse_u64 (trim s) of None \<Rightarrow> 0 | Some e \<Rightarrow> unat e))"

definition epoch_readable :: "string option \<Rightarrow> bool" where
  "epoch_readable c \<longleftrightarrow> (case c of None \<Rightarrow> True | Some s \<Rightarrow> parse_u64 (trim s) \<noteq> None)"

definition epoch_inv :: "epoch_fs \<Rightarrow> bool" where
  "epoch_inv fs \<longleftrightarrow> epoch_readable (ef_visible fs) \<and> epoch_readable (ef_durable fs)
     \<and> epoch_val (ef_durable fs) \<le> epoch_val (ef_visible fs)"

lemma epoch_written [simp]:
  "epoch_val (Some (u64_to_string e)) = unat e" "epoch_readable (Some (u64_to_string e))"
  by (simp_all add: epoch_val_def epoch_readable_def)

lemma epoch_val_None: "epoch_val None = 0"
  by (simp add: epoch_val_def)

lemma epoch_val_Some: "parse_u64 (trim s) = Some e \<Longrightarrow> epoch_val (Some s) = unat e"
  by (simp add: epoch_val_def)

lemma next_epoch_step:
  assumes "epoch_inv fs" "next_epoch io fs = (r, fs')"
  shows "epoch_inv fs' \<and> epoch_val (ef_durable fs) \<le> epoch_val (ef_durable fs')
    \<and> (\<forall>e. r = Inr e \<longrightarrow> epoch_val (ef_durable fs) < unat e \<and> epoch_val (ef_durable fs') = unat e)"
  using assms unfolding next_epoch_def
  by (auto simp: Let_def epoch_inv_def epoch_val_None epoch_val_Some dest!: checked_add64_Some
      split: if_splits sum.splits option.splits)

lemma epoch_run_increasing:
  "epoch_inv fs \<Longrightarrow> sorted_wrt (<) (fst (epoch_run fs evs))
     \<and> (\<forall>e \<in> set (fst (epoch_run fs evs)). epoch_val (ef_durable fs) < unat e)"
proof (induction fs evs rule: epoch_run.induct)
  case (2 fs io evs)
  obtain r fs' where n: "next_epoch io fs = (r, fs')" by (rule prod.exhaust)
  note st = next_epoch_step [OF "2.prems" n]
  have IH: "sorted_wrt (<) (fst (epoch_run fs' evs))"
    "\<forall>e \<in> set (fst (epoch_run fs' evs)). epoch_val (ef_durable fs') < unat e"
    using "2.IH" [OF n [symmetric]] st by auto
  show ?case
  proof (cases r)
    case Inl
    then show ?thesis using st IH n by (fastforce simp: case_prod_unfold)
  next
    case (Inr e)
    have d: "epoch_val (ef_durable fs) < unat e" "epoch_val (ef_durable fs') = unat e"
      using st Inr by simp_all
    have "\<forall>x \<in> set (fst (epoch_run fs' evs)). e < x \<and> epoch_val (ef_durable fs) < unat x"
      using IH(2) d by (auto simp: word_less_nat_alt)
    then show ?thesis using d IH(1) n Inr by (simp add: case_prod_unfold)
  qed
next
  case (3 fs kept evs)
  then have "epoch_inv (epoch_crash kept fs)" "epoch_val (ef_durable fs) \<le> epoch_val (ef_durable (epoch_crash kept fs))"
    by (auto simp: epoch_inv_def epoch_crash_def)
  then show ?case using 3 by fastforce
qed simp

lemma epoch_run_corrupt:
  assumes "\<not> epoch_readable c" "ef_visible fs = c" "ef_durable fs = c"
  shows "fst (epoch_run fs evs) = []"
  using assms(2,3)
proof (induction fs evs rule: epoch_run.induct)
  case (2 fs io evs)
  then have "\<exists>e. next_epoch io fs = (Inl e, fs)"
    using assms(1) by (auto simp: next_epoch_def epoch_readable_def split: option.splits)
  then show ?case using 2 by (auto simp: case_prod_unfold)
qed (auto simp: epoch_crash_def)

text \<open>
  C24.  Session epochs never regress: from whatever the epoch file holds at boot, over any sequence
  of session opens, failed system calls and crashes (each keeping or losing a rename that was not yet
  synced), the epochs handed out strictly increase.
\<close>

theorem next_epoch_never_regresses:
  assumes "ef_visible fs = ef_durable fs"
  shows "sorted_wrt (<) (fst (epoch_run fs evs))"
proof (cases "epoch_readable (ef_visible fs)")
  case True
  then have "epoch_inv fs" using assms by (simp add: epoch_inv_def)
  then show ?thesis using epoch_run_increasing by blast
next
  case False
  then show ?thesis using epoch_run_corrupt [OF False refl] assms by simp
qed

theorem next_epoch_never_regresses_witness:
  "sorted_wrt (<) (fst (epoch_run \<lparr>ef_visible = None, ef_durable = None\<rparr>
     [NextEpoch \<lparr>eio_read = True, eio_create = True, eio_write = True, eio_sync = True, eio_rename = True, eio_dirsync = True\<rparr>,
      NextEpoch \<lparr>eio_read = True, eio_create = True, eio_write = True, eio_sync = True, eio_rename = True, eio_dirsync = False\<rparr>,
      EpochCrash False,
      NextEpoch \<lparr>eio_read = True, eio_create = True, eio_write = True, eio_sync = True, eio_rename = True, eio_dirsync = True\<rparr>]))"
  by (rule next_epoch_never_regresses) simp

end
