(* ===== verification/Dispatch.thy ===== *)
theory Dispatch
  imports Job_Store Exec Allowlist Agent_Session
begin

text \<open>
  \<^verbatim>\<open>osa-agent/src/dispatch.rs\<close>: the job runner.  \<open>run_job\<close> is the whole function, with the results of the
  file system and operating system calls in a \<open>job_env\<close>.  Since job tasks run concurrently and the
  process may die between any two awaits, \<open>job_step\<close> is the same function cut at its awaits, for any
  number of tasks, with crashes; both are built from the same phase functions.
\<close>

subsection \<open>Model\<close>

definition MAX_JOB_OUTPUT :: nat where "MAX_JOB_OUTPUT = 8 * 1024 * 1024"
definition MAX_JOB_ID_LEN :: nat where "MAX_JOB_ID_LEN = 256"

text \<open>The \<open>Display\<close> renderings that go into error outcomes.\<close>

record display =
  show_denial :: "backstop_denial \<Rightarrow> string"
  show_debug :: "string \<Rightarrow> string"
  show_decode_error :: "bytes \<Rightarrow> string"
  show_exec_error :: "exec_error \<Rightarrow> string"

definition failed :: "string \<Rightarrow> job_outcome" where
  "failed msg = \<lparr>jo_terminal = Some (TermError msg), jo_output_truncated = False, jo_timed_out = False\<rparr>"

definition try_claim :: "string set \<Rightarrow> string \<Rightarrow> string set option" where
  "try_claim inflight job_id = (if job_id \<in> inflight then None else Some (insert job_id inflight))"

record job_channel =
  jc_results :: "bytes list"
  jc_open :: bool
  jc_keys :: session_keys
  jc_send_seq :: u64
  jc_host_id :: string
  jc_sid :: string

definition jc_send :: "crypto \<Rightarrow> codecs \<Rightarrow> job_result \<Rightarrow> job_channel \<Rightarrow> job_channel" where
  "jc_send C P result ch =
     (case seal_uplink C P (jc_keys ch) (jc_send_seq ch) (jc_host_id ch) (jc_sid ch) (encode_msg (jr_codec P) result) of
        (bs, seq) \<Rightarrow> ch\<lparr>jc_send_seq := seq, jc_results := (if jc_open ch then jc_results ch @ [bs] else jc_results ch)\<rparr>)"

definition jc_chunk :: "crypto \<Rightarrow> codecs \<Rightarrow> string \<Rightarrow> chunk \<Rightarrow> job_channel \<Rightarrow> job_channel" where
  "jc_chunk C P job_id c ch =
     jc_send C P \<lparr>jr_job_id = job_id, jr_body = Some (Chunk (case c of
        Stdout d \<Rightarrow> \<lparr>oc_stream = STDOUT, oc_data = d\<rparr> | Stderr d \<Rightarrow> \<lparr>oc_stream = STDERR, oc_data = d\<rparr>))\<rparr> ch"

definition jc_outcome :: "crypto \<Rightarrow> codecs \<Rightarrow> string \<Rightarrow> job_outcome \<Rightarrow> job_channel \<Rightarrow> job_channel" where
  "jc_outcome C P job_id outcome ch = jc_send C P \<lparr>jr_job_id = job_id, jr_body = Some (Outcome outcome)\<rparr> ch"

definition valid_job_id :: "string \<Rightarrow> bool" where
  "valid_job_id job_id \<longleftrightarrow> \<not> (job_id = [] \<or> length job_id > MAX_JOB_ID_LEN)"

text \<open>The decisions between the lookup and the start marker: backstop, capability, parameters.\<close>

definition job_check :: "codecs \<Rightarrow> display \<Rightarrow> local_allowlist \<Rightarrow> string \<Rightarrow> dispatch_msg \<Rightarrow> string + exec_params" where
  "job_check P D backstop host_id d =
     (let action = \<lparr>ad_kind = dm_kind d, ad_target = host_id, ad_run_as = dm_run_as d, ad_params_hash = []\<rparr> in
      case la_permits backstop action of
        Inl denial \<Rightarrow> Inl (''denied by host backstop: '' @ show_denial D denial)
      | Inr _ \<Rightarrow>
          if dm_kind d \<noteq> EXEC_KIND then Inl (''unsupported capability '' @ show_debug D (dm_kind d))
          else (case decode_msg (ep_codec P) (dm_params d) of
             None \<Rightarrow> Inl (''malformed exec params: '' @ show_decode_error D (dm_params d))
           | Some params \<Rightarrow> Inr params))"

definition job_limits :: exec_limits where
  "job_limits = \<lparr>max_output_bytes = MAX_JOB_OUTPUT, has_timeout = True\<rparr>"

definition job_outcome_of :: "display \<Rightarrow> exec_error + stream_outcome \<Rightarrow> job_outcome" where
  "job_outcome_of D r =
     (case r of
        Inr so \<Rightarrow>
          (let terminal = (case (so_exit_code so, so_signal so) of
               (Some code, _) \<Rightarrow> ExitCode code
             | (None, Some sig) \<Rightarrow> TermSignal sig
             | (None, None) \<Rightarrow> TermError ''no terminal status'')
           in \<lparr>jo_terminal = Some terminal, jo_output_truncated = so_truncated so, jo_timed_out = so_timed_out so\<rparr>)
      | Inl e \<Rightarrow> failed (show_exec_error D e))"

record job_env =
  je_read_ok :: bool
  je_mark :: write_io
  je_os :: exec_os
  je_done :: write_io

record job_world =
  jw_fs :: job_fs
  jw_inflight :: "string set"
  jw_channel :: job_channel
  jw_spawned :: "(string \<times> process) list"

definition jw_report :: "crypto \<Rightarrow> codecs \<Rightarrow> string \<Rightarrow> job_outcome \<Rightarrow> job_world \<Rightarrow> job_world" where
  "jw_report C P job_id outcome w = w\<lparr>jw_channel := jc_outcome C P job_id outcome (jw_channel w)\<rparr>"

text \<open>From the start marker on: spawn, stream, record, report.\<close>

definition run_started :: "crypto \<Rightarrow> codecs \<Rightarrow> display \<Rightarrow> job_env \<Rightarrow> dispatch_msg \<Rightarrow> exec_params \<Rightarrow> job_world \<Rightarrow> job_world" where
  "run_started C P D env d params w =
     (let job_id = dm_job_id d;
          r = exec_stream (je_os env) (ep_argv params) (dm_run_as d) job_limits;
          outcome = job_outcome_of D (er_result r);
          w1 = w\<lparr>jw_spawned := (case er_process r of None \<Rightarrow> jw_spawned w | Some p \<Rightarrow> jw_spawned w @ [(job_id, p)]),
                 jw_channel := fold (jc_chunk C P job_id) (er_chunks r) (jw_channel w)\<rparr>;
          w2 = w1\<lparr>jw_fs := snd (record_done C P (je_done env) job_id outcome (jw_fs w1))\<rparr>
      in jw_report C P job_id outcome w2)"

definition run_claimed :: "crypto \<Rightarrow> codecs \<Rightarrow> display \<Rightarrow> local_allowlist \<Rightarrow> job_env \<Rightarrow> dispatch_msg \<Rightarrow> job_world \<Rightarrow> job_world" where
  "run_claimed C P D backstop env d w =
     (let job_id = dm_job_id d in
      case job_lookup C P (je_read_ok env) job_id (jw_fs w) of
        Some (Some (Done outcome)) \<Rightarrow> jw_report C P job_id outcome w
      | Some (Some Started) \<Rightarrow>
          jw_report C P job_id (failed ''job was interrupted before completing; not re-executed'') w
      | None \<Rightarrow> jw_report C P job_id (failed ''agent job store unavailable'') w
      | Some None \<Rightarrow>
          (case job_check P D backstop (jc_host_id (jw_channel w)) d of
             Inl msg \<Rightarrow> jw_report C P job_id (failed msg) w
           | Inr params \<Rightarrow>
               (case mark_started C (je_mark env) job_id (jw_fs w) of
                  (ok, fs') \<Rightarrow>
                    let w' = w\<lparr>jw_fs := fs'\<rparr> in
                    if \<not> ok then jw_report C P job_id (failed ''agent job store unavailable'') w'
                    else run_started C P D env d params w')))"

definition run_job :: "crypto \<Rightarrow> codecs \<Rightarrow> display \<Rightarrow> local_allowlist \<Rightarrow> job_env \<Rightarrow> dispatch_msg \<Rightarrow> job_world \<Rightarrow> job_world" where
  "run_job C P D backstop env d w =
     (let job_id = dm_job_id d in
      if \<not> valid_job_id job_id then jw_report C P job_id (failed ''invalid job_id'') w
      else case try_claim (jw_inflight w) job_id of
        None \<Rightarrow> w
      | Some inflight \<Rightarrow>
          (let w' = run_claimed C P D backstop env d (w\<lparr>jw_inflight := inflight\<rparr>)
           in w'\<lparr>jw_inflight := jw_inflight w' - {job_id}\<rparr>))"

subsection \<open>Concurrent tasks and crashes\<close>

datatype job_pc = AtLookup | AtMark | AtSpawn exec_params | AtRecord job_outcome

record job_sys =
  js_fs :: job_fs
  js_inflight :: "string set"
  js_tasks :: "nat \<rightharpoonup> dispatch_msg \<times> job_pc"
  js_spawned :: "string list"
  js_pruned :: "string set"

definition release :: "nat \<Rightarrow> dispatch_msg \<Rightarrow> job_sys \<Rightarrow> job_sys" where
  "release t d s = s\<lparr>js_tasks := (js_tasks s)(t := None), js_inflight := js_inflight s - {dm_job_id d}\<rparr>"

inductive job_step :: "crypto \<Rightarrow> codecs \<Rightarrow> display \<Rightarrow> local_allowlist \<Rightarrow> string \<Rightarrow> job_sys \<Rightarrow> job_sys \<Rightarrow> bool"
  for C P D backstop host_id where
  claim: "js_tasks s t = None \<Longrightarrow> valid_job_id (dm_job_id d) \<Longrightarrow> try_claim (js_inflight s) (dm_job_id d) = Some infl
    \<Longrightarrow> job_step C P D backstop host_id s (s\<lparr>js_inflight := infl, js_tasks := (js_tasks s)(t \<mapsto> (d, AtLookup))\<rparr>)"
| lookup_new: "js_tasks s t = Some (d, AtLookup) \<Longrightarrow> job_lookup C P ok (dm_job_id d) (js_fs s) = Some None
    \<Longrightarrow> job_step C P D backstop host_id s (s\<lparr>js_tasks := (js_tasks s)(t \<mapsto> (d, AtMark))\<rparr>)"
| lookup_known: "js_tasks s t = Some (d, AtLookup) \<Longrightarrow> job_lookup C P ok (dm_job_id d) (js_fs s) \<noteq> Some None
    \<Longrightarrow> job_step C P D backstop host_id s (release t d s)"
| refuse: "js_tasks s t = Some (d, AtMark) \<Longrightarrow> job_check P D backstop host_id d = Inl msg
    \<Longrightarrow> job_step C P D backstop host_id s (release t d s)"
| mark: "js_tasks s t = Some (d, AtMark) \<Longrightarrow> job_check P D backstop host_id d = Inr params
    \<Longrightarrow> mark_started C io (dm_job_id d) (js_fs s) = (True, fs')
    \<Longrightarrow> job_step C P D backstop host_id s (s\<lparr>js_fs := fs', js_tasks := (js_tasks s)(t \<mapsto> (d, AtSpawn params))\<rparr>)"
| mark_failed: "js_tasks s t = Some (d, AtMark) \<Longrightarrow> job_check P D backstop host_id d = Inr params
    \<Longrightarrow> mark_started C io (dm_job_id d) (js_fs s) = (False, fs')
    \<Longrightarrow> job_step C P D backstop host_id s (release t d (s\<lparr>js_fs := fs'\<rparr>))"
| run: "js_tasks s t = Some (d, AtSpawn params)
    \<Longrightarrow> r = exec_stream os (ep_argv params) (dm_run_as d) job_limits
    \<Longrightarrow> job_step C P D backstop host_id s
      (s\<lparr>js_spawned := (if er_process r = None then js_spawned s else js_spawned s @ [dm_job_id d]),
         js_tasks := (js_tasks s)(t \<mapsto> (d, AtRecord (job_outcome_of D (er_result r))))\<rparr>)"
| record_outcome: "js_tasks s t = Some (d, AtRecord outcome)
    \<Longrightarrow> job_step C P D backstop host_id s
      (release t d (s\<lparr>js_fs := snd (record_done C P io (dm_job_id d) outcome (js_fs s))\<rparr>))"
| crash: "fs' = job_crash kept (js_fs s) \<Longrightarrow> fs'' = job_prune now fs'
    \<Longrightarrow> job_step C P D backstop host_id s
      (s\<lparr>js_fs := fs'', js_inflight := {}, js_tasks := Map.empty,
         js_pruned := js_pruned s \<union> {n. fs_visible fs' n \<noteq> None \<and> fs_visible fs'' n = None}\<rparr>)"

inductive_cases job_stepE: "job_step C P D backstop host_id s s'"

subsection \<open>At-most-once execution\<close>

definition job_once :: "crypto \<Rightarrow> string \<Rightarrow> job_sys \<Rightarrow> bool" where
  "job_once C j s \<longleftrightarrow> count_list (js_spawned s) j \<le> 1
     \<and> (j \<in> set (js_spawned s) \<longrightarrow> recorded C j (js_fs s))
     \<and> (\<forall>t d. js_tasks s t = Some (d, AtMark) \<longrightarrow> dm_job_id d = j \<longrightarrow> j \<notin> set (js_spawned s))
     \<and> (\<forall>t d params. js_tasks s t = Some (d, AtSpawn params) \<longrightarrow> dm_job_id d = j
          \<longrightarrow> j \<notin> set (js_spawned s) \<and> recorded C j (js_fs s))"

definition job_claims :: "job_sys \<Rightarrow> bool" where
  "job_claims s \<longleftrightarrow>
     (\<forall>t d pc. js_tasks s t = Some (d, pc) \<longrightarrow> dm_job_id d \<in> js_inflight s)
     \<and> (\<forall>t t' d d' pc pc'. js_tasks s t = Some (d, pc) \<longrightarrow> js_tasks s t' = Some (d', pc')
          \<longrightarrow> dm_job_id d = dm_job_id d' \<longrightarrow> t = t')"

lemma job_once_frame:
  assumes "job_once C j s" "js_spawned s' = js_spawned s"
    and "recorded C j (js_fs s) \<Longrightarrow> recorded C j (js_fs s')"
    and "\<And>t d. js_tasks s' t = Some (d, AtMark) \<Longrightarrow> js_tasks s t = Some (d, AtMark)"
    and "\<And>t d params. js_tasks s' t = Some (d, AtSpawn params) \<Longrightarrow> js_tasks s t = Some (d, AtSpawn params)"
  shows "job_once C j s'"
  using assms unfolding job_once_def by metis

lemma job_claims_step:
  assumes "job_claims s" "job_step C P D backstop host_id s s'"
  shows "job_claims s'"
  using assms(2,1)
proof cases
  case (claim t d infl)
  then show ?thesis
    using assms(1) unfolding job_claims_def try_claim_def by (auto split: if_splits) metis+
qed (use assms(1) in \<open>unfold job_claims_def release_def, simp split: if_splits, (metis | blast)?\<close>)+

lemma count_list_zero: "j \<notin> set xs \<Longrightarrow> count_list xs j = 0"
  by (simp add: count_list_0_iff)

lemma job_once_step:
  assumes step: "job_step C P D backstop host_id s s'" and once: "job_once C j s" and claims: "job_claims s"
    and np: "job_path C j \<notin> js_pruned s'"
  shows "job_once C j s'"
  using step
proof cases
  case (claim t d infl)
  then show ?thesis by (intro job_once_frame [OF once]) (auto split: if_splits)
next
  case (lookup_new t d ok)
  then have "j \<notin> set (js_spawned s)" if "dm_job_id d = j"
    using once that recorded_lookup unfolding job_once_def by blast
  then show ?thesis using once unfolding lookup_new job_once_def by auto
next
  case (mark t d params io fs')
  have mine: "j \<notin> set (js_spawned s) \<and> recorded C j fs'" if "dm_job_id d = j"
    using once mark(2,4) that recorded_mark [of C io "dm_job_id d" "js_fs s"] unfolding job_once_def by auto
  have keep: "recorded C j (js_fs s) \<Longrightarrow> recorded C j fs'"
    using recorded_write [of C j "js_fs s" io "dm_job_id d"] mark(4) by (simp add: mark_started_def) (metis snd_conv)
  show ?thesis using once mine keep unfolding mark(1) job_once_def by auto
next
  case (mark_failed t d params io fs')
  have "recorded C j (js_fs s) \<Longrightarrow> recorded C j fs'"
    using recorded_write [of C j "js_fs s" io "dm_job_id d"] mark_failed(4) by (simp add: mark_started_def) (metis snd_conv)
  then show ?thesis unfolding mark_failed(1)
    by (intro job_once_frame [OF once]) (auto simp: release_def split: if_splits)
next
  case (run t d params r os)
  show ?thesis
  proof (cases "dm_job_id d = j")
    case True
    then have j: "j \<notin> set (js_spawned s)" "recorded C j (js_fs s)"
      using once run(2) unfolding job_once_def by blast+
    have others: "t' = t" if "js_tasks s t' = Some (d', pc)" "dm_job_id d' = j" for t' d' pc
      using claims run(2) that True unfolding job_claims_def by metis
    show ?thesis using j others True unfolding run(1) job_once_def
      by (auto simp: count_list_zero split: if_splits)
  next
    case False
    then show ?thesis using once unfolding run(1) job_once_def by (auto split: if_splits)
  qed
next
  case (record_outcome t d outcome io)
  have "recorded C j (js_fs s) \<Longrightarrow> recorded C j (snd (record_done C P io (dm_job_id d) outcome (js_fs s)))"
    by (simp add: record_done_def recorded_write)
  then show ?thesis unfolding record_outcome(1)
    by (intro job_once_frame [OF once]) (auto simp: release_def split: if_splits)
next
  case (crash fs' kept fs'' now)
  have "recorded C j fs''" if "recorded C j (js_fs s)"
    using recorded_crash [OF that, of kept] np crash by (auto simp: recorded_def job_prune_def)
  then show ?thesis using once unfolding crash(1) job_once_def by auto
qed (intro job_once_frame [OF once], auto simp: release_def split: if_splits)+

lemma js_pruned_mono: "job_step C P D backstop host_id s s' \<Longrightarrow> js_pruned s \<subseteq> js_pruned s'"
  by (cases rule: job_step.cases) (auto simp: release_def)

lemma job_steps_inv:
  assumes "(job_step C P D backstop host_id)\<^sup>*\<^sup>* s s'" "job_claims s" "job_once C j s"
    and "job_path C j \<notin> js_pruned s'"
  shows "job_claims s' \<and> job_once C j s'"
  using assms
proof (induction rule: rtranclp_induct)
  case (step s' s'')
  then show ?case using job_claims_step job_once_step js_pruned_mono by (metis subset_iff)
qed simp

text \<open>
  C4.  At-most-once execution: take any number of deliveries and redeliveries of any dispatches to
  an agent, run as interleaved tasks, with any system call failing and with crashes and restarts at
  any point, each losing or keeping every unsynced file.  The process of a job id is started at most
  once, unless its record was pruned after the retention period.
\<close>

theorem job_executed_at_most_once:
  assumes "(job_step C P D backstop host_id)\<^sup>*\<^sup>* s s'"
    and "js_tasks s = Map.empty" "js_spawned s = []" "job_path C j \<notin> js_pruned s'"
  shows "count_list (js_spawned s') j \<le> 1"
  using job_steps_inv [OF assms(1) _ _ assms(4)] assms(2,3) by (simp add: job_claims_def job_once_def)

subsection \<open>The runner refines the steps\<close>

definition job_sim :: "job_sys \<Rightarrow> job_world \<Rightarrow> bool" where
  "job_sim s w \<longleftrightarrow> js_fs s = jw_fs w \<and> js_inflight s = jw_inflight w \<and> js_spawned s = map fst (jw_spawned w)"

lemma jw_report_simps [simp]:
  "jw_fs (jw_report C P j out w) = jw_fs w" "jw_inflight (jw_report C P j out w) = jw_inflight w"
  "jw_spawned (jw_report C P j out w) = jw_spawned w"
  by (simp_all add: jw_report_def)

lemma run_started_simps:
  "jw_fs (run_started C P D env d params w) =
     snd (record_done C P (je_done env) (dm_job_id d)
       (job_outcome_of D (er_result (exec_stream (je_os env) (ep_argv params) (dm_run_as d) job_limits))) (jw_fs w))"
  "jw_inflight (run_started C P D env d params w) = jw_inflight w"
  "jw_spawned (run_started C P D env d params w) =
     jw_spawned w @ (case er_process (exec_stream (je_os env) (ep_argv params) (dm_run_as d) job_limits) of
       None \<Rightarrow> [] | Some p \<Rightarrow> [(dm_job_id d, p)])"
  by (simp_all add: run_started_def Let_def split: option.splits)

text \<open>A task ends in the world \<open>w\<close>: some steps lead to a state without it that agrees with \<open>w\<close>
  after its claim is released.\<close>

definition ends_in :: "crypto \<Rightarrow> codecs \<Rightarrow> display \<Rightarrow> local_allowlist \<Rightarrow> string \<Rightarrow> job_sys \<Rightarrow> nat \<Rightarrow> dispatch_msg \<Rightarrow> job_world \<Rightarrow> bool" where
  "ends_in C P D backstop host_id s t d w \<longleftrightarrow>
     (\<exists>s'. (job_step C P D backstop host_id)\<^sup>*\<^sup>* s s' \<and> job_sim s' (w\<lparr>jw_inflight := jw_inflight w - {dm_job_id d}\<rparr>)
        \<and> js_tasks s' = (js_tasks s)(t := None) \<and> js_pruned s' = js_pruned s)"

lemma ends_in_step:
  assumes "job_step C P D backstop host_id s s1" "ends_in C P D backstop host_id s1 t d w"
    and "(js_tasks s1)(t := None) = (js_tasks s)(t := None)" "js_pruned s1 = js_pruned s"
  shows "ends_in C P D backstop host_id s t d w"
  using assms unfolding ends_in_def by (metis converse_rtranclp_into_rtranclp)

lemma ends_in_release:
  assumes "job_step C P D backstop host_id s (release t d s1)" "js_tasks s1 = js_tasks s" "js_pruned s1 = js_pruned s"
    and "job_sim s1 w"
  shows "ends_in C P D backstop host_id s t d w"
  unfolding ends_in_def using assms
  by (intro exI [of _ "release t d s1"]) (auto simp: release_def job_sim_def)

lemma run_started_ends:
  assumes t: "js_tasks s t = Some (d, AtSpawn params)" and sim: "job_sim s w"
  shows "ends_in C P D backstop host_id s t d (run_started C P D env d params w)"
proof -
  let ?r = "exec_stream (je_os env) (ep_argv params) (dm_run_as d) job_limits"
  let ?out = "job_outcome_of D (er_result ?r)"
  define s3 where "s3 = s\<lparr>js_spawned := (if er_process ?r = None then js_spawned s else js_spawned s @ [dm_job_id d]),
    js_tasks := (js_tasks s)(t \<mapsto> (d, AtRecord ?out))\<rparr>"
  have 3: "job_step C P D backstop host_id s s3" unfolding s3_def by (rule job_step.run [OF t refl])
  have t3: "js_tasks s3 t = Some (d, AtRecord ?out)" by (simp add: s3_def)
  have "ends_in C P D backstop host_id s3 t d (run_started C P D env d params w)"
  proof (rule ends_in_release [OF job_step.record_outcome [OF t3, of C P D backstop host_id "je_done env"]])
    show "job_sim (s3\<lparr>js_fs := snd (record_done C P (je_done env) (dm_job_id d) ?out (js_fs s3))\<rparr>)
        (run_started C P D env d params w)"
      using sim by (auto simp: job_sim_def run_started_simps s3_def split: option.splits)
  qed simp_all
  then show ?thesis by (rule ends_in_step [OF 3]) (simp_all add: s3_def)
qed

lemma run_checked_ends:
  assumes t: "js_tasks s t = Some (d, AtMark)" and sim: "job_sim s w" and host: "jc_host_id (jw_channel w) = host_id"
    and new: "job_lookup C P (je_read_ok env) (dm_job_id d) (jw_fs w) = Some None"
  shows "ends_in C P D backstop host_id s t d (run_claimed C P D backstop env d w)"
proof (cases "job_check P D backstop host_id d")
  case (Inl msg)
  show ?thesis
    by (rule ends_in_release [OF job_step.refuse [OF t Inl]])
      (use sim host new Inl in \<open>simp_all add: run_claimed_def job_sim_def\<close>)
next
  case (Inr params)
  obtain ok fs' where m: "mark_started C (je_mark env) (dm_job_id d) (js_fs s) = (ok, fs')" by (rule prod.exhaust)
  have m': "mark_started C (je_mark env) (dm_job_id d) (jw_fs w) = (ok, fs')" using m sim by (simp add: job_sim_def)
  show ?thesis
  proof (cases ok)
    case False
    then have f: "mark_started C (je_mark env) (dm_job_id d) (js_fs s) = (False, fs')" using m by simp
    show ?thesis
      by (rule ends_in_release [OF job_step.mark_failed [OF t Inr f]])
        (use sim host new Inr m' False in \<open>simp_all add: run_claimed_def job_sim_def Let_def\<close>)
  next
    case True
    let ?s = "s\<lparr>js_fs := fs', js_tasks := (js_tasks s)(t \<mapsto> (d, AtSpawn params))\<rparr>"
    have "ends_in C P D backstop host_id ?s t d (run_started C P D env d params (w\<lparr>jw_fs := fs'\<rparr>))"
      by (rule run_started_ends) (use sim in \<open>simp_all add: job_sim_def\<close>)
    moreover have "run_claimed C P D backstop env d w = run_started C P D env d params (w\<lparr>jw_fs := fs'\<rparr>)"
      using host new Inr m' True by (simp add: run_claimed_def Let_def)
    ultimately show ?thesis
      using ends_in_step [OF job_step.mark [OF t Inr, of C "je_mark env" fs']] m True by auto
  qed
qed

lemma run_claimed_ends:
  assumes t: "js_tasks s t = Some (d, AtLookup)" and sim: "job_sim s w" and host: "jc_host_id (jw_channel w) = host_id"
  shows "ends_in C P D backstop host_id s t d (run_claimed C P D backstop env d w)"
proof (cases "job_lookup C P (je_read_ok env) (dm_job_id d) (js_fs s) = Some None")
  case False
  then have "job_sim s (run_claimed C P D backstop env d w)"
    using sim by (auto simp: job_sim_def run_claimed_def Let_def split: option.splits job_state.splits)
  then show ?thesis by (intro ends_in_release [OF job_step.lookup_known [OF t False]]) simp_all
next
  case True
  have "ends_in C P D backstop host_id (s\<lparr>js_tasks := (js_tasks s)(t \<mapsto> (d, AtMark))\<rparr>) t d (run_claimed C P D backstop env d w)"
    by (rule run_checked_ends) (use sim host True in \<open>simp_all add: job_sim_def\<close>)
  then show ?thesis by (rule ends_in_step [OF job_step.lookup_new [OF t True]]) simp_all
qed

lemma run_job_steps:
  assumes "js_tasks s t = None" "job_sim s w" "jc_host_id (jw_channel w) = host_id"
  shows "\<exists>s'. (job_step C P D backstop host_id)\<^sup>*\<^sup>* s s' \<and> job_sim s' (run_job C P D backstop env d w)
    \<and> js_tasks s' = js_tasks s \<and> js_pruned s' = js_pruned s"
proof (cases "valid_job_id (dm_job_id d) \<and> dm_job_id d \<notin> jw_inflight w")
  case False
  then have "jw_fs (run_job C P D backstop env d w) = jw_fs w" "jw_inflight (run_job C P D backstop env d w) = jw_inflight w"
    "jw_spawned (run_job C P D backstop env d w) = jw_spawned w"
    by (auto simp: run_job_def try_claim_def Let_def)
  then show ?thesis using assms(2) by (auto simp: job_sim_def)
next
  case True
  let ?infl = "insert (dm_job_id d) (jw_inflight w)"
  define s1 where "s1 = s\<lparr>js_inflight := ?infl, js_tasks := (js_tasks s)(t \<mapsto> (d, AtLookup))\<rparr>"
  have "try_claim (js_inflight s) (dm_job_id d) = Some ?infl"
    using True assms(2) by (simp add: job_sim_def try_claim_def)
  then have 1: "job_step C P D backstop host_id s s1"
    unfolding s1_def using job_step.claim [OF assms(1)] True by blast
  have t1: "js_tasks s1 t = Some (d, AtLookup)" and sim: "job_sim s1 (w\<lparr>jw_inflight := ?infl\<rparr>)"
    using assms(2) by (simp_all add: s1_def job_sim_def)
  have host: "jc_host_id (jw_channel (w\<lparr>jw_inflight := ?infl\<rparr>)) = host_id" using assms(3) by simp
  obtain s' where "(job_step C P D backstop host_id)\<^sup>*\<^sup>* s1 s'" "job_sim s' (run_job C P D backstop env d w)"
    "js_tasks s' = (js_tasks s1)(t := None)" "js_pruned s' = js_pruned s1"
    using run_claimed_ends [OF t1 sim host, of C P D backstop env] True
    by (auto simp: run_job_def try_claim_def Let_def ends_in_def)
  then show ?thesis
    using 1 assms(1) by (intro exI [of _ s']) (auto simp: s1_def fun_upd_idem intro: converse_rtranclp_into_rtranclp)
qed


text \<open>
  C14.  Refinement: running the whole job runner on one dispatch is a sequence of the atomic steps,
  with the same files, in-flight claims and started processes at the end.  So everything shown of the
  step system, at-most-once execution above all, holds of the runner.
\<close>

theorem run_job_refines_job_steps:
  assumes "js_tasks s t = None" "job_sim s w" "jc_host_id (jw_channel w) = host_id"
  shows "\<exists>s'. (job_step C P D backstop host_id)\<^sup>*\<^sup>* s s' \<and> job_sim s' (run_job C P D backstop env d w)
    \<and> js_tasks s' = js_tasks s \<and> js_pruned s' = js_pruned s"
  by (rule run_job_steps [OF assms])

definition sample_display :: display where
  "sample_display = \<lparr>show_denial = (\<lambda>_. []), show_debug = id, show_decode_error = (\<lambda>_. []), show_exec_error = (\<lambda>_. [])\<rparr>"

definition sample_env :: job_env where
  "sample_env = \<lparr>je_read_ok = True, je_mark = good_io, je_os = sample_os, je_done = good_io\<rparr>"

definition sample_dispatch :: dispatch_msg where
  "sample_dispatch = \<lparr>dm_job_id = ''job'', dm_kind = ''exec'', dm_run_as = ''deploy'', dm_params = []\<rparr>"

definition sample_world :: job_world where
  "sample_world =
     \<lparr>jw_fs = \<lparr>fs_visible = Map.empty, fs_durable = Map.empty\<rparr>, jw_inflight = {},
      jw_channel = \<lparr>jc_results = [], jc_open = True, jc_keys = \<lparr>c2a = 1, a2c = 2\<rparr>, jc_send_seq = 1,
        jc_host_id = ''h'', jc_sid = ''s''\<rparr>,
      jw_spawned = []\<rparr>"

definition sample_sys :: job_sys where
  "sample_sys =
     \<lparr>js_fs = \<lparr>fs_visible = Map.empty, fs_durable = Map.empty\<rparr>, js_inflight = {}, js_tasks = Map.empty,
      js_spawned = [], js_pruned = {}\<rparr>"

lemma sample_run_spawns:
  "map fst (jw_spawned (run_job toy_crypto (sample_codecs (failed [])) sample_display (la_new [''exec''] [''deploy''])
     sample_env sample_dispatch sample_world)) = [''job'']"
  by (simp add: run_job_def valid_job_id_def MAX_JOB_ID_LEN_def try_claim_def run_claimed_def job_lookup_def
      job_check_def la_permits_def la_new_def EXEC_KIND_def mark_started_def write_durably_def run_started_simps
      exec_stream_def resolve_user_def spawn_def pre_exec_def sample_codecs_def sample_env_def sample_dispatch_def
      sample_world_def sample_os_def good_io_def Let_def case_prod_unfold)

theorem run_job_refines_job_steps_witness:
  "\<exists>s'. (job_step toy_crypto (sample_codecs (failed [])) sample_display (la_new [''exec''] [''deploy'']) ''h'')\<^sup>*\<^sup>* sample_sys s'
     \<and> js_spawned s' = [''job''] \<and> js_tasks s' = Map.empty"
proof -
  have "js_tasks sample_sys 0 = None" "job_sim sample_sys sample_world" "jc_host_id (jw_channel sample_world) = ''h''"
    by (simp_all add: sample_sys_def sample_world_def job_sim_def)
  from run_job_refines_job_steps [OF this, of toy_crypto "sample_codecs (failed [])" sample_display
      "la_new [''exec''] [''deploy'']" sample_env sample_dispatch]
  show ?thesis using sample_run_spawns by (auto simp: job_sim_def sample_sys_def)
qed

lemma sample_sys_steps:
  "\<exists>s'. (job_step toy_crypto (sample_codecs (failed [])) sample_display (la_new [''exec''] [''deploy'']) ''h'')\<^sup>*\<^sup>* sample_sys s'
     \<and> js_spawned s' = [''job''] \<and> js_pruned s' = {}"
proof -
  have "js_tasks sample_sys 0 = None" "job_sim sample_sys sample_world" "jc_host_id (jw_channel sample_world) = ''h''"
    by (simp_all add: sample_sys_def sample_world_def job_sim_def)
  from run_job_steps [OF this, of toy_crypto "sample_codecs (failed [])" sample_display
      "la_new [''exec''] [''deploy'']" sample_env sample_dispatch]
  show ?thesis using sample_run_spawns by (auto simp: job_sim_def sample_sys_def)
qed

theorem job_executed_at_most_once_witness:
  "\<exists>s'. (job_step toy_crypto (sample_codecs (failed [])) sample_display (la_new [''exec''] [''deploy'']) ''h'')\<^sup>*\<^sup>* sample_sys s'
     \<and> js_spawned s' = [''job''] \<and> count_list (js_spawned s') ''job'' \<le> 1"
proof -
  obtain s' where s': "(job_step toy_crypto (sample_codecs (failed [])) sample_display
      (la_new [''exec''] [''deploy'']) ''h'')\<^sup>*\<^sup>* sample_sys s'" "js_spawned s' = [''job'']" "js_pruned s' = {}"
    using sample_sys_steps by blast
  then show ?thesis
    using job_executed_at_most_once [OF s'(1), of "''job''"] by (auto simp: sample_sys_def)
qed

subsection \<open>What has to hold before a process starts\<close>

lemma exec_stream_argv: "er_process (exec_stream os argv run_as l) = Some p \<Longrightarrow> p_argv p = argv"
  by (auto simp: exec_stream_def spawn_def Let_def case_prod_unfold split: if_splits option.splits sum.splits)

text \<open>
  C5.  Fail closed: the runner starts a process only for a well-formed job id that is neither
  running nor on record, whose kind and user the host's backstop permits, whose parameters decode,
  and for which the start marker is already durable; it then starts exactly one, with the decoded
  argument vector.
\<close>

theorem run_job_starts_only_permitted:
  assumes "jw_spawned (run_job C P D backstop env d w) \<noteq> jw_spawned w"
  shows "\<exists>params p. jw_spawned (run_job C P D backstop env d w) = jw_spawned w @ [(dm_job_id d, p)]
    \<and> valid_job_id (dm_job_id d) \<and> dm_job_id d \<notin> jw_inflight w
    \<and> fs_visible (jw_fs w) (job_path C (dm_job_id d)) = None
    \<and> la_permits backstop \<lparr>ad_kind = dm_kind d, ad_target = jc_host_id (jw_channel w), ad_run_as = dm_run_as d, ad_params_hash = []\<rparr> = Inr ()
    \<and> dm_kind d = EXEC_KIND \<and> decode_msg (ep_codec P) (dm_params d) = Some params \<and> p_argv p = ep_argv params
    \<and> fst (mark_started C (je_mark env) (dm_job_id d) (jw_fs w))"
proof -
  let ?w = "w\<lparr>jw_inflight := insert (dm_job_id d) (jw_inflight w)\<rparr>"
  have ok: "valid_job_id (dm_job_id d)" "dm_job_id d \<notin> jw_inflight w"
    and sp: "jw_spawned (run_job C P D backstop env d w) = jw_spawned (run_claimed C P D backstop env d ?w)"
    using assms by (auto simp: run_job_def try_claim_def Let_def split: if_splits)
  have lk: "job_lookup C P (je_read_ok env) (dm_job_id d) (jw_fs w) = Some None"
    using assms unfolding sp by (auto simp: run_claimed_def Let_def split: option.splits job_state.splits)
  obtain params where ck: "job_check P D backstop (jc_host_id (jw_channel w)) d = Inr params"
    using assms lk unfolding sp by (cases "job_check P D backstop (jc_host_id (jw_channel w)) d")
      (auto simp: run_claimed_def Let_def)
  have mk: "fst (mark_started C (je_mark env) (dm_job_id d) (jw_fs w))"
    using assms lk ck unfolding sp by (auto simp: run_claimed_def Let_def case_prod_unfold split: if_splits)
  obtain p where p: "er_process (exec_stream (je_os env) (ep_argv params) (dm_run_as d) job_limits) = Some p"
    and sp': "jw_spawned (run_job C P D backstop env d w) = jw_spawned w @ [(dm_job_id d, p)]"
    using assms lk ck mk unfolding sp
    by (auto simp: run_claimed_def Let_def case_prod_unfold run_started_simps split: option.splits)
  have "fs_visible (jw_fs w) (job_path C (dm_job_id d)) = None"
    using lk by (auto simp: job_lookup_def split: if_splits option.splits list.splits)
  moreover have "la_permits backstop \<lparr>ad_kind = dm_kind d, ad_target = jc_host_id (jw_channel w), ad_run_as = dm_run_as d, ad_params_hash = []\<rparr> = Inr ()"
    "dm_kind d = EXEC_KIND" "decode_msg (ep_codec P) (dm_params d) = Some params"
    using ck by (auto simp: job_check_def Let_def split: sum.splits if_splits option.splits)
  ultimately show ?thesis using ok sp' mk exec_stream_argv [OF p] by blast
qed

theorem run_job_starts_only_permitted_witness:
  "la_permits (la_new [''exec''] [''deploy'']) \<lparr>ad_kind = dm_kind sample_dispatch, ad_target = ''h'',
     ad_run_as = dm_run_as sample_dispatch, ad_params_hash = []\<rparr> = Inr ()"
proof -
  have "jw_spawned (run_job toy_crypto (sample_codecs (failed [])) sample_display (la_new [''exec''] [''deploy''])
      sample_env sample_dispatch sample_world) \<noteq> jw_spawned sample_world"
    using sample_run_spawns by (auto simp: sample_world_def)
  from run_job_starts_only_permitted [OF this] show ?thesis by (auto simp: sample_world_def)
qed

end
