(* ===== verification/Coord_Session.thy ===== *)
theory Coord_Session
  imports Channel_Guard
begin

text \<open>
  \<^verbatim>\<open>osa-coordinator/src/session.rs\<close>: the coordinator's side of a session (downlink sequence allocator,
  uplink replay guard, stream keys) and the bounded store of sessions by host.
\<close>

subsection \<open>Model\<close>

definition MAX_SESSIONS :: nat where
  "MAX_SESSIONS = 50000"

record session =
  ses_sid :: string
  ses_keys :: session_keys
  ses_send_seq :: u64
  ses_recv_high :: "u64 option"

definition seal_downlink :: "crypto \<Rightarrow> codecs \<Rightarrow> string \<Rightarrow> bytes \<Rightarrow> session \<Rightarrow> bytes \<times> session" where
  "seal_downlink C P host_id payload ses =
     (let seq = ses_send_seq ses;
          ses' = ses\<lparr>ses_send_seq := ses_send_seq ses + 1\<rparr>;
          env = seal_envelope C (ses_keys ses) CoordToAgent host_id (ses_sid ses) seq KIND_CONTROL payload
      in (encode_msg (env_codec P) env, ses'))"

definition derive_stream_keys :: "crypto \<Rightarrow> session \<Rightarrow> bytes \<Rightarrow> session_keys" where
  "derive_stream_keys C ses stream_id = derive_stream C (ses_keys ses) stream_id"

definition open_uplink :: "crypto \<Rightarrow> session \<Rightarrow> envelope \<Rightarrow> bytes option \<times> session" where
  "open_uplink C ses env =
     (case open_envelope C (ses_keys ses) AgentToCoord env of
        None \<Rightarrow> (None, ses)
      | Some plaintext \<Rightarrow>
          if (case ses_recv_high ses of None \<Rightarrow> False | Some h \<Rightarrow> env_seq env \<le> h) then (None, ses)
          else (Some plaintext, ses\<lparr>ses_recv_high := Some (env_seq env)\<rparr>))"

record session_store =
  by_host :: "(uuid, session) amap"
  store_cap :: nat

definition store_new :: session_store where
  "store_new = \<lparr>by_host = [], store_cap = MAX_SESSIONS\<rparr>"

definition store_insert :: "session_store \<Rightarrow> uuid \<Rightarrow> string \<Rightarrow> session_keys \<Rightarrow> bool \<times> session_store" where
  "store_insert st host sid keys =
     (if map_of (by_host st) host = None \<and> length (by_host st) \<ge> store_cap st then (False, st)
      else (True, st\<lparr>by_host := AList.update host
        \<lparr>ses_sid = sid, ses_keys = keys, ses_send_seq = 0, ses_recv_high = None\<rparr> (by_host st)\<rparr>))"

definition store_get :: "session_store \<Rightarrow> uuid \<Rightarrow> session option" where
  "store_get st host = map_of (by_host st) host"

text \<open>Writing back through the reference \<open>get_mut\<close> returned.\<close>

definition store_put :: "session_store \<Rightarrow> uuid \<Rightarrow> session \<Rightarrow> session_store" where
  "store_put st host ses = st\<lparr>by_host := AList.update host ses (by_host st)\<rparr>"

definition store_host_ids :: "session_store \<Rightarrow> uuid list" where
  "store_host_ids st = map fst (by_host st)"

subsection \<open>The session follows the channel contracts\<close>

interpretation coord_rx: replay_guard "open_uplink C"
    "\<lambda>ses. open_envelope C (ses_keys ses) AgentToCoord" ses_recv_high
  by unfold_locales (auto simp: open_uplink_def above_def not_less split: option.splits)

interpretation coord_tx: nonce_source "seal_downlink C P host_id" ses_send_seq
    "\<lambda>ses payload seq. encode_msg (env_codec P)
      (seal_envelope C (ses_keys ses) CoordToAgent host_id (ses_sid ses) seq KIND_CONTROL payload)"
  by unfold_locales (simp_all add: seal_downlink_def Let_def fun_eq_iff)

text \<open>
  C22.  The coordinator's uplink cannot be replayed or poisoned, and loses nothing that arrives in
  order: accepted sequence numbers strictly increase, everything accepted authenticates, forgeries
  leave no trace, and a sequence of authentic envelopes that arrives in increasing order above the
  high-water mark is accepted completely.
\<close>

theorem coordinator_uplink_replay_safe:
  "sorted_wrt (<) (map fst (fst (open_all (open_uplink C) ses envs)))
   \<and> set (fst (open_all (open_uplink C) ses envs))
       \<subseteq> {(env_seq env, m) | env m. env \<in> set envs \<and> open_envelope C (ses_keys ses) AgentToCoord env = Some m}
   \<and> open_all (open_uplink C) ses envs
       = open_all (open_uplink C) ses (filter (\<lambda>env. open_envelope C (ses_keys ses) AgentToCoord env \<noteq> None) envs)
   \<and> ((\<forall>env \<in> set envs. open_envelope C (ses_keys ses) AgentToCoord env \<noteq> None)
        \<and> sorted_wrt (<) (map env_seq envs) \<and> (\<forall>env \<in> set envs. above (ses_recv_high ses) (env_seq env))
      \<longrightarrow> fst (open_all (open_uplink C) ses envs)
          = map (\<lambda>env. (env_seq env, the (open_envelope C (ses_keys ses) AgentToCoord env))) envs)"
proof (intro conjI impI subsetI)
  show "sorted_wrt (<) (map fst (fst (open_all (open_uplink C) ses envs)))"
    using coord_rx.accepted_strictly_increasing by blast
  fix x assume "x \<in> set (fst (open_all (open_uplink C) ses envs))"
  from coord_rx.accepted_authentic [OF this]
  show "x \<in> {(env_seq env, m) | env m. env \<in> set envs \<and> open_envelope C (ses_keys ses) AgentToCoord env = Some m}"
    by (cases x) auto
qed (rule coord_rx.forgeries_have_no_effect, blast intro: coord_rx.in_order_all_accepted)

theorem coordinator_uplink_replay_safe_witness:
  "let ses = \<lparr>ses_sid = ''s'', ses_keys = \<lparr>c2a = 1, a2c = 2\<rparr>, ses_send_seq = 0, ses_recv_high = None\<rparr>;
       e = \<lambda>q. seal_envelope toy_crypto (ses_keys ses) AgentToCoord ''h'' ''s'' q KIND_CONTROL [7]
   in fst (open_all (open_uplink toy_crypto) ses [e 0, e 3]) = [(0, [7]), (3, [7])]"
proof -
  define ses where "ses = \<lparr>ses_sid = ''s'', ses_keys = \<lparr>c2a = 1, a2c = 2\<rparr>, ses_send_seq = 0, ses_recv_high = None\<rparr>"
  define e where "e q = seal_envelope toy_crypto (ses_keys ses) AgentToCoord ''h'' ''s'' q KIND_CONTROL [7]" for q
  have o: "open_envelope toy_crypto (ses_keys ses) AgentToCoord (e q) = Some [7]" for q
    using toy_crypto_laws(1) by (simp add: e_def seal_envelope_def open_envelope_def)
  have q: "env_seq (e q) = q" for q by (simp add: e_def seal_envelope_def)
  have h: "ses_recv_high ses = None" by (simp add: ses_def)
  have "fst (open_all (open_uplink toy_crypto) ses [e 0, e 3]) = [(0, [7]), (3, [7])]"
    using coordinator_uplink_replay_safe [of toy_crypto ses "[e 0, e 3]"]
    by (simp add: o q h above_def del: open_all.simps)
  then show ?thesis unfolding Let_def e_def ses_def by simp
qed

text \<open>A later number accepted first makes the guard drop the earlier one.\<close>

lemma open_uplink_reordered:
  assumes "open_envelope C (ses_keys ses) AgentToCoord e2 = Some m2" "above (ses_recv_high ses) (env_seq e2)"
    and "env_seq e1 < env_seq e2"
  shows "fst (open_all (open_uplink C) ses [e2, e1]) = [(env_seq e2, m2)]"
proof -
  have "\<not> (case ses_recv_high ses of None \<Rightarrow> False | Some h \<Rightarrow> env_seq e2 \<le> h)"
    using assms(2) by (auto simp: above_def split: option.splits)
  then have "open_uplink C ses e2 = (Some m2, ses\<lparr>ses_recv_high := Some (env_seq e2)\<rparr>)"
    using assms(1) by (simp add: open_uplink_def)
  moreover have "fst (open_uplink C (ses\<lparr>ses_recv_high := Some (env_seq e2)\<rparr>) e1) = None"
    using less_imp_le [OF assms(3)] by (simp add: open_uplink_def split: option.splits)
  ultimately show ?thesis by (simp add: case_prod_unfold)
qed

subsection \<open>The store is bounded, with one session per host\<close>

definition store_inv :: "session_store \<Rightarrow> bool" where
  "store_inv st \<longleftrightarrow> amap_ok (by_host st) \<and> length (by_host st) \<le> store_cap st"

lemma store_inv_new [simp]: "store_inv store_new"
  by (simp add: store_inv_def store_new_def)

lemma store_inv_insert:
  assumes "store_inv st" "store_insert st host sid keys = (ok, st')"
  shows "store_inv st' \<and> store_cap st' = store_cap st"
  using assms
  by (cases "map_of (by_host st) host")
    (auto simp: store_insert_def store_inv_def length_update_amap split: if_splits)

lemma store_inv_put:
  "store_inv st \<Longrightarrow> store_get st host \<noteq> None \<Longrightarrow> store_inv (store_put st host ses)"
  by (auto simp: store_inv_def store_put_def store_get_def length_update_amap)

lemma store_get_insert:
  "store_insert st host sid keys = (True, st') \<Longrightarrow>
     store_get st' h = (if h = host
       then Some \<lparr>ses_sid = sid, ses_keys = keys, ses_send_seq = 0, ses_recv_high = None\<rparr> else store_get st h)"
  by (auto simp: store_insert_def store_get_def split: if_splits)

lemma store_get_put [simp]: "store_get (store_put st host ses) h = (if h = host then Some ses else store_get st h)"
  by (simp add: store_get_def store_put_def)

lemma store_insert_refused: "store_insert st host sid keys = (False, st') \<Longrightarrow> st' = st \<and> store_get st host = None"
  by (auto simp: store_insert_def store_get_def split: if_splits)

lemma store_host_ids_distinct: "store_inv st \<Longrightarrow> distinct (store_host_ids st)"
  by (simp add: store_inv_def store_host_ids_def amap_ok_def)

lemma store_host_ids_iff: "h \<in> set (store_host_ids st) \<longleftrightarrow> store_get st h \<noteq> None"
  by (simp add: store_host_ids_def store_get_def map_of_eq_None_iff)

end
