(* ===== verification/Registries.thy ===== *)
theory Registries
  imports Channel_Guard
begin

text \<open>
  \<^verbatim>\<open>osa-coordinator/src/epoch.rs\<close> and \<^verbatim>\<open>osa-coordinator/src/revocation.rs\<close>: the session-epoch high-water
  marks and the revoked identities, each with its in-memory and its Postgres adapter.  The locales
  \<open>epochs_port\<close> and \<open>revocations_port\<close> are the two traits; each is interpreted on both adapters.
\<close>

text \<open>What a database call did: it ran, it failed, or it ran and the answer was lost.\<close>

datatype db_call = DbOk | DbFailed | DbLost

subsection \<open>Epochs\<close>

definition registry_admit :: "unit \<Rightarrow> uuid \<Rightarrow> u64 \<Rightarrow> (uuid, u64) amap \<Rightarrow> (port_error + bool) \<times> (uuid, u64) amap" where
  "registry_admit _ host_id epoch marks =
     (case map_of marks host_id of
        Some high \<Rightarrow> if epoch \<le> high then (Inr False, marks) else (Inr True, AList.update host_id epoch marks)
      | None \<Rightarrow> (Inr True, AList.update host_id epoch marks))"

definition to_bigint :: "u64 \<Rightarrow> port_error + i64" where
  "to_bigint epoch = (if unat epoch < 2 ^ 63 then Inr epoch else Inl (Backend ''session epoch out of range''))"

text \<open>The conditional upsert: the number of rows it affects, and the table after it.\<close>

definition upsert_epoch :: "uuid \<Rightarrow> i64 \<Rightarrow> (uuid, i64) amap \<Rightarrow> nat \<times> (uuid, i64) amap" where
  "upsert_epoch host_id epoch table =
     (case map_of table host_id of
        None \<Rightarrow> (1, AList.update host_id epoch table)
      | Some stored \<Rightarrow>
          if sint epoch > sint stored then (1, AList.update host_id epoch table) else (0, table))"

definition pg_admit :: "db_call \<Rightarrow> uuid \<Rightarrow> u64 \<Rightarrow> (uuid, i64) amap \<Rightarrow> (port_error + bool) \<times> (uuid, i64) amap" where
  "pg_admit db host_id epoch table =
     (case to_bigint epoch of
        Inl e \<Rightarrow> (Inl e, table)
      | Inr big \<Rightarrow>
          (case upsert_epoch host_id big table of
             (rows, table') \<Rightarrow>
               (case db of
                  DbOk \<Rightarrow> (Inr (rows = 1), table')
                | DbFailed \<Rightarrow> (Inl (Backend ''''), table)
                | DbLost \<Rightarrow> (Inl (Backend ''''), table'))))"

text \<open>
  The contract of \<open>Epochs\<close>: an admitted epoch exceeds the mark and becomes the mark, a rejected
  one does not exceed it, and nothing lowers a mark.
\<close>

locale epochs_port =
  fixes admit :: "'f \<Rightarrow> uuid \<Rightarrow> u64 \<Rightarrow> 's \<Rightarrow> (port_error + bool) \<times> 's"
    and mark :: "'s \<Rightarrow> uuid \<Rightarrow> u64 option"
    and inv :: "'s \<Rightarrow> bool"
  assumes inv_admit: "inv s \<Longrightarrow> admit f h e s = (r, s') \<Longrightarrow> inv s'"
    and admitted: "inv s \<Longrightarrow> admit f h e s = (Inr True, s') \<Longrightarrow> above (mark s h) e \<and> mark s' = (mark s)(h \<mapsto> e)"
    and rejected: "inv s \<Longrightarrow> admit f h e s = (Inr False, s') \<Longrightarrow> \<not> above (mark s h) e \<and> mark s' = mark s"
    and failed: "inv s \<Longrightarrow> admit f h e s = (Inl err, s')
      \<Longrightarrow> mark s' = mark s \<or> (above (mark s h) e \<and> mark s' = (mark s)(h \<mapsto> e))"

fun admit_all :: "('f \<Rightarrow> uuid \<Rightarrow> u64 \<Rightarrow> 's \<Rightarrow> (port_error + bool) \<times> 's) \<Rightarrow> ('f \<times> uuid \<times> u64) list \<Rightarrow> 's
    \<Rightarrow> (uuid \<times> u64) list" where
  "admit_all admit [] s = []"
| "admit_all admit ((f, h, e) # rest) s =
     (case admit f h e s of
        (r, s') \<Rightarrow> if r = Inr True then (h, e) # admit_all admit rest s' else admit_all admit rest s')"

context epochs_port
begin

lemma admit_step:
  assumes "inv s" "admit f h e s = (r, s')"
  shows "inv s' \<and> (mark s' = mark s \<or> (above (mark s h) e \<and> mark s' = (mark s)(h \<mapsto> e)))
    \<and> (r = Inr True \<longrightarrow> above (mark s h) e \<and> mark s' = (mark s)(h \<mapsto> e))"
proof (cases r)
  case (Inl err)
  then show ?thesis using inv_admit [OF assms] failed [OF assms(1)] assms(2) by simp
next
  case (Inr b)
  then show ?thesis
    using inv_admit [OF assms] admitted [OF assms(1)] rejected [OF assms(1)] assms(2) by (cases b) simp_all
qed

lemma admitted_strictly_increasing:
  "inv s \<Longrightarrow> sorted_wrt (<) (map snd (filter (\<lambda>x. fst x = h) (admit_all admit reqs s)))
     \<and> (\<forall>x \<in> set (admit_all admit reqs s). fst x = h \<longrightarrow> above (mark s h) (snd x))"
proof (induction reqs arbitrary: s)
  case (Cons req reqs)
  obtain f k e where req: "req = (f, k, e)" by (cases req)
  obtain r s' where a: "admit f k e s = (r, s')" by (rule prod.exhaust)
  note st = admit_step [OF Cons.prems a]
  have IH: "sorted_wrt (<) (map snd (filter (\<lambda>x. fst x = h) (admit_all admit reqs s')))"
    "\<forall>x \<in> set (admit_all admit reqs s'). fst x = h \<longrightarrow> above (mark s' h) (snd x)"
    using Cons.IH [of s'] st by auto
  have up: "above (mark s h) q" if "above (mark s' h) q" for q
    using st that by (auto simp: above_def split: option.splits if_splits)
  show ?case
  proof (cases "r = Inr True \<and> k = h")
    case True
    then have "mark s' h = Some e" "above (mark s h) e" using st by auto
    then show ?thesis using True IH up a req by auto
  next
    case False
    then show ?thesis using IH up a req by auto
  qed
qed simp

end

interpretation registry_epochs: epochs_port registry_admit map_of "\<lambda>_. True"
  by unfold_locales
    (auto simp: registry_admit_def above_def split: option.splits if_splits)

definition pg_epochs_inv :: "(uuid, i64) amap \<Rightarrow> bool" where
  "pg_epochs_inv table \<longleftrightarrow> (\<forall>h e. map_of table h = Some e \<longrightarrow> unat e < 2 ^ 63)"

lemma pg_admit_alt:
  assumes "pg_epochs_inv table"
  shows "pg_admit db h e table =
    (if unat e \<ge> 2 ^ 63 then (Inl (Backend ''session epoch out of range''), table)
     else if above (map_of table h) e then
       (case db of DbOk \<Rightarrow> (Inr True, AList.update h e table) | DbFailed \<Rightarrow> (Inl (Backend ''''), table)
        | DbLost \<Rightarrow> (Inl (Backend ''''), AList.update h e table))
     else (case db of DbOk \<Rightarrow> (Inr False, table) | _ \<Rightarrow> (Inl (Backend ''''), table)))"
proof (cases "map_of table h")
  case None
  then show ?thesis by (auto simp: pg_admit_def to_bigint_def upsert_epoch_def above_def split: db_call.splits)
next
  case (Some x)
  then have "unat x < 2 ^ 63" using assms by (simp add: pg_epochs_inv_def)
  then show ?thesis
    using Some sint_small [of x] sint_small [of e]
    by (auto simp: pg_admit_def to_bigint_def upsert_epoch_def above_def word_less_def split: db_call.splits)
qed

interpretation pg_epochs: epochs_port pg_admit map_of pg_epochs_inv
proof
  fix table db h e r table'
  assume "pg_epochs_inv table" "pg_admit db h e table = (r, table')"
  then show "pg_epochs_inv table'"
    by (auto simp: pg_admit_alt split: if_splits db_call.splits) (auto simp: pg_epochs_inv_def)
qed (auto simp: pg_admit_alt split: if_splits db_call.splits)

text \<open>
  C25.  Anti-resurrection: whatever the order of session opens and whatever the database does, the
  epochs admitted for a host strictly increase, on the in-memory registry and on the shared Postgres
  one.  A session epoch is admitted at most once and a replayed hello never is.
\<close>

theorem admitted_epochs_strictly_increase:
  "sorted_wrt (<) (map snd (filter (\<lambda>x. fst x = h) (admit_all registry_admit reqs [])))
   \<and> sorted_wrt (<) (map snd (filter (\<lambda>x. fst x = h) (admit_all pg_admit pg_reqs [])))"
  using registry_epochs.admitted_strictly_increasing [where s = "[]" and h = h and reqs = reqs]
    pg_epochs.admitted_strictly_increasing [where s = "[]" and h = h and reqs = pg_reqs]
  by (simp add: pg_epochs_inv_def)

subsection \<open>Revocation\<close>

definition registry_revoke :: "db_call \<Rightarrow> i64 \<Rightarrow> uuid \<Rightarrow> uuid list \<Rightarrow> (port_error + unit) \<times> uuid list" where
  "registry_revoke _ _ host_id revoked = (Inr (), List.insert host_id revoked)"

definition registry_is_revoked :: "db_call \<Rightarrow> uuid \<Rightarrow> uuid list \<Rightarrow> port_error + bool" where
  "registry_is_revoked _ host_id revoked = Inr (host_id \<in> set revoked)"

definition pg_revoke :: "db_call \<Rightarrow> i64 \<Rightarrow> uuid \<Rightarrow> (uuid, i64) amap \<Rightarrow> (port_error + unit) \<times> (uuid, i64) amap" where
  "pg_revoke db now host_id table =
     (let table' = (if map_of table host_id = None then AList.update host_id now table else table) in
      case db of
        DbOk \<Rightarrow> (Inr (), table')
      | DbFailed \<Rightarrow> (Inl (Backend ''''), table)
      | DbLost \<Rightarrow> (Inl (Backend ''''), table'))"

definition pg_is_revoked :: "db_call \<Rightarrow> uuid \<Rightarrow> (uuid, i64) amap \<Rightarrow> port_error + bool" where
  "pg_is_revoked db host_id table =
     (if db = DbOk then Inr (map_of table host_id \<noteq> None) else Inl (Backend ''''))"

locale revocations_port =
  fixes revoke :: "db_call \<Rightarrow> i64 \<Rightarrow> uuid \<Rightarrow> 's \<Rightarrow> (port_error + unit) \<times> 's"
    and is_revoked :: "db_call \<Rightarrow> uuid \<Rightarrow> 's \<Rightarrow> port_error + bool"
    and revoked :: "'s \<Rightarrow> uuid set"
  assumes revoke_ok: "revoke db now h s = (Inr (), s') \<Longrightarrow> revoked s' = insert h (revoked s)"
    and revoke_any: "revoke db now h s = (r, s') \<Longrightarrow> revoked s \<subseteq> revoked s' \<and> revoked s' \<subseteq> insert h (revoked s)"
    and is_revoked_sound: "is_revoked db h s = Inr b \<Longrightarrow> b = (h \<in> revoked s)"

fun revoke_all :: "(db_call \<Rightarrow> i64 \<Rightarrow> uuid \<Rightarrow> 's \<Rightarrow> (port_error + unit) \<times> 's) \<Rightarrow> (db_call \<times> i64 \<times> uuid) list \<Rightarrow> 's \<Rightarrow> 's" where
  "revoke_all revoke [] s = s"
| "revoke_all revoke ((db, now, h) # rest) s = revoke_all revoke rest (snd (revoke db now h s))"

context revocations_port
begin

lemma revocation_permanent: "revoked s \<subseteq> revoked (revoke_all revoke reqs s)"
proof (induction reqs arbitrary: s)
  case (Cons req reqs)
  obtain db now h where "req = (db, now, h)" by (cases req)
  then show ?case using Cons.IH revoke_any [of db now h s] by (cases "revoke db now h s") force
qed simp

lemma revoked_never_reported_clean:
  assumes "revoke db now h s = (Inr (), s')"
  shows "is_revoked db' h (revoke_all revoke reqs s') \<noteq> Inr False"
  using revoke_ok [OF assms] revocation_permanent [of s' reqs] is_revoked_sound by fastforce

end

interpretation registry_revocations: revocations_port registry_revoke registry_is_revoked set
  by unfold_locales (auto simp: registry_revoke_def registry_is_revoked_def)

interpretation pg_revocations: revocations_port pg_revoke pg_is_revoked "\<lambda>t. dom (map_of t)"
  by unfold_locales
    (auto simp: pg_revoke_def pg_is_revoked_def Let_def split: db_call.splits if_splits)

text \<open>
  Revocation is permanent: once a revoke was acknowledged, no later query on the same store
  answers that the host is not revoked, whatever further revocations and database failures happen.
\<close>

theorem revocation_is_permanent:
  "(registry_revoke db now h s = (Inr (), s') \<longrightarrow> registry_is_revoked db' h (revoke_all registry_revoke reqs s') \<noteq> Inr False)
   \<and> (pg_revoke db now h t = (Inr (), t') \<longrightarrow> pg_is_revoked db' h (revoke_all pg_revoke reqs t') \<noteq> Inr False)"
  using registry_revocations.revoked_never_reported_clean [of db now h s s']
    pg_revocations.revoked_never_reported_clean [of db now h t t'] by blast

theorem revocation_is_permanent_witness:
  "pg_revoke DbOk 5 7 [] = (Inr (), [(7, 5)])
   \<and> pg_is_revoked DbOk 7 (revoke_all pg_revoke [(DbLost, 6, 8)] [(7, 5)]) \<noteq> Inr False"
proof -
  have r: "pg_revoke DbOk 5 7 [] = (Inr (), [(7, 5)])" by (simp add: pg_revoke_def)
  then show ?thesis
    using revocation_is_permanent [of DbOk 5 7 "[]" "[7]" DbOk "[(DbLost, 6, 8)]" "[]" "[(7, 5)]"] by blast
qed

end
