(* ===== verification/Join_Tokens.thy ===== *)
theory Join_Tokens
  imports Seal
begin

text \<open>
  \<^verbatim>\<open>osa-coordinator/src/token.rs\<close>: single-use join tokens, in memory and in Postgres.  Clock readings,
  random bytes and the outcome of database calls are arguments.  Time is an integer: nanoseconds in
  the in-memory registry (\<open>SystemTime\<close>), seconds in the database (\<open>BIGINT\<close>).  The locale
  \<open>join_tokens_port\<close> is the trait with the law that makes a token single-use.
\<close>

datatype redeem_error = RedeemUnknown | RedeemExpired | RedeemAlreadyRedeemed | RedeemBackend
datatype mint_error = MintRng | MintFull | MintBackend

definition DEFAULT_MAX_OUTSTANDING :: nat where
  "DEFAULT_MAX_OUTSTANDING = 10000"

definition token_hash :: "crypto \<Rightarrow> string \<Rightarrow> hash" where
  "token_hash C token = sha256 C (as_bytes token)"

definition hex :: "bytes \<Rightarrow> string" where
  "hex bs = fold (\<lambda>b s. s @ hex_byte b) bs []"

definition unix_seconds :: "int \<Rightarrow> int" where
  "unix_seconds t = (if t < 0 then 0 else t div 1000000000)"

subsection \<open>In memory\<close>

record token_state =
  tk_expires_at :: int
  tk_redeemed :: bool

record token_registry =
  tr_tokens :: "(string, token_state) amap"
  tr_max_ttl :: nat
  tr_cap :: nat

definition registry_new :: "nat \<Rightarrow> token_registry" where
  "registry_new max_ttl = \<lparr>tr_tokens = [], tr_max_ttl = max_ttl, tr_cap = DEFAULT_MAX_OUTSTANDING\<rparr>"

text \<open>The environment of one mint: the requested time to live, both clock readings and the random bytes.\<close>

record mint_env =
  me_ttl :: nat
  me_now1 :: int
  me_now2 :: int
  me_raw :: "bytes option"

definition registry_mint :: "mint_env \<Rightarrow> token_registry \<Rightarrow> (mint_error + string \<times> int) \<times> token_registry" where
  "registry_mint m reg =
     (let ttl = min (me_ttl m) (tr_max_ttl reg);
          expires_at = me_now1 m + int ttl;
          reg1 = reg\<lparr>tr_tokens := filter (\<lambda>(_, s). \<not> tk_redeemed s \<and> me_now2 m < tk_expires_at s) (tr_tokens reg)\<rparr>
      in if length (tr_tokens reg1) \<ge> tr_cap reg1 then (Inl MintFull, reg1)
         else case me_raw m of
           None \<Rightarrow> (Inl MintRng, reg1)
         | Some raw \<Rightarrow>
             (let token = hex raw in
              (Inr (token, unix_seconds expires_at),
               reg1\<lparr>tr_tokens := AList.update token \<lparr>tk_expires_at = expires_at, tk_redeemed = False\<rparr> (tr_tokens reg1)\<rparr>)))"

definition registry_redeem :: "int \<Rightarrow> string \<Rightarrow> token_registry \<Rightarrow> (redeem_error + unit) \<times> token_registry" where
  "registry_redeem now token reg =
     (case map_of (tr_tokens reg) token of
        None \<Rightarrow> (Inl RedeemUnknown, reg)
      | Some st \<Rightarrow>
          if tk_redeemed st then (Inl RedeemAlreadyRedeemed, reg)
          else if now \<ge> tk_expires_at st then (Inl RedeemExpired, reg)
          else (Inr (), reg\<lparr>tr_tokens := AList.update token (st\<lparr>tk_redeemed := True\<rparr>) (tr_tokens reg)\<rparr>))"

subsection \<open>In Postgres\<close>

record token_row =
  tw_expires_at_unix :: int
  tw_redeemed_at_unix :: "int option"

record pg_tokens =
  pt_table :: "(hash, token_row) amap"
  pt_max_ttl :: nat
  pt_cap :: nat

definition saturating_add_i64 :: "int \<Rightarrow> int \<Rightarrow> int" where
  "saturating_add_i64 a b = max (- (2 ^ 63)) (min (2 ^ 63 - 1) (a + b))"

text \<open>The three statements of a mint each succeed or fail; the insert may also be applied and its answer lost.\<close>

record pg_mint_env =
  pm_ttl :: nat
  pm_now :: int
  pm_raw :: "bytes option"
  pm_delete_ok :: bool
  pm_count_ok :: bool
  pm_insert_ok :: bool
  pm_insert_lost :: bool

definition pg_mint :: "crypto \<Rightarrow> pg_mint_env \<Rightarrow> pg_tokens \<Rightarrow> (mint_error + string \<times> int) \<times> pg_tokens" where
  "pg_mint C m st =
     (let ttl = min (pm_ttl m) (pt_max_ttl st);
          expires_at = saturating_add_i64 (pm_now m) (sint (of_nat (ttl div 1000000000) :: i64))
      in if \<not> pm_delete_ok m then (Inl MintBackend, st)
         else
           let st1 = st\<lparr>pt_table := filter (\<lambda>(_, r). \<not> (tw_redeemed_at_unix r \<noteq> None \<or> tw_expires_at_unix r \<le> pm_now m)) (pt_table st)\<rparr>
           in if \<not> pm_count_ok m then (Inl MintBackend, st1)
              else if length (filter (\<lambda>(_, r). tw_redeemed_at_unix r = None \<and> tw_expires_at_unix r > pm_now m) (pt_table st1)) \<ge> pt_cap st1
              then (Inl MintFull, st1)
              else case pm_raw m of
                None \<Rightarrow> (Inl MintRng, st1)
              | Some raw \<Rightarrow>
                  (let token = hex raw; h = token_hash C token in
                   if map_of (pt_table st1) h \<noteq> None \<or> \<not> pm_insert_ok m then (Inl MintBackend, st1)
                   else
                     let st2 = st1\<lparr>pt_table := AList.update h \<lparr>tw_expires_at_unix = expires_at, tw_redeemed_at_unix = None\<rparr> (pt_table st1)\<rparr>
                     in if pm_insert_lost m then (Inl MintBackend, st2) else (Inr (token, expires_at), st2)))"

record pg_redeem_env =
  pr_now :: int
  pr_update_ok :: bool
  pr_update_lost :: bool
  pr_select_ok :: bool

definition pg_redeem :: "crypto \<Rightarrow> pg_redeem_env \<Rightarrow> string \<Rightarrow> pg_tokens \<Rightarrow> (redeem_error + unit) \<times> pg_tokens" where
  "pg_redeem C e token st =
     (let h = token_hash C token in
      if \<not> pr_update_ok e then (Inl RedeemBackend, st)
      else
        let (rows, st1) =
          (case map_of (pt_table st) h of
             Some r \<Rightarrow>
               if tw_redeemed_at_unix r = None \<and> tw_expires_at_unix r > pr_now e
               then (1 :: nat, st\<lparr>pt_table := AList.update h (r\<lparr>tw_redeemed_at_unix := Some (pr_now e)\<rparr>) (pt_table st)\<rparr>)
               else (0, st)
           | None \<Rightarrow> (0, st))
        in if pr_update_lost e then (Inl RedeemBackend, st1)
           else if rows = 1 then (Inr (), st1)
           else if \<not> pr_select_ok e then (Inl RedeemBackend, st1)
           else case map_of (pt_table st1) h of
             None \<Rightarrow> (Inl RedeemUnknown, st1)
           | Some r \<Rightarrow> if tw_redeemed_at_unix r \<noteq> None then (Inl RedeemAlreadyRedeemed, st1) else (Inl RedeemExpired, st1))"

subsection \<open>The \<open>JoinTokens\<close> port\<close>

text \<open>
  \<open>live\<close> holds of a token (by its key) that is stored and not yet redeemed; \<open>mints\<close> gives the key a mint may
  create.  A successful redemption needs a live token and leaves it dead, and only a mint makes a
  key live.
\<close>

locale join_tokens_port =
  fixes mint :: "'g \<Rightarrow> 's \<Rightarrow> (mint_error + string \<times> int) \<times> 's"
    and redeem :: "'f \<Rightarrow> string \<Rightarrow> 's \<Rightarrow> (redeem_error + unit) \<times> 's"
    and tkey :: "string \<Rightarrow> 'k"
    and mints :: "'g \<Rightarrow> 'k option"
    and live :: "'s \<Rightarrow> 'k \<Rightarrow> bool"
    and inv :: "'s \<Rightarrow> bool"
  assumes inv_mint: "inv s \<Longrightarrow> inv (snd (mint g s))"
    and inv_redeem: "inv s \<Longrightarrow> inv (snd (redeem f t s))"
    and mint_live: "inv s \<Longrightarrow> live (snd (mint g s)) k \<Longrightarrow> live s k \<or> mints g = Some k"
    and redeem_live: "inv s \<Longrightarrow> live (snd (redeem f t s)) k \<Longrightarrow> live s k"
    and redeem_ok: "inv s \<Longrightarrow> fst (redeem f t s) = Inr () \<Longrightarrow> live s (tkey t) \<and> \<not> live (snd (redeem f t s)) (tkey t)"

datatype ('g, 'f) token_op = Mint 'g | Redeem 'f string

text \<open>How often a redemption of a token with key \<open>k\<close> succeeds in a history, and how often \<open>k\<close> is minted.\<close>

fun redeemed_count :: "('g \<Rightarrow> 's \<Rightarrow> (mint_error + string \<times> int) \<times> 's) \<Rightarrow> ('f \<Rightarrow> string \<Rightarrow> 's \<Rightarrow> (redeem_error + unit) \<times> 's)
    \<Rightarrow> (string \<Rightarrow> 'k) \<Rightarrow> 'k \<Rightarrow> ('g, 'f) token_op list \<Rightarrow> 's \<Rightarrow> nat" where
  "redeemed_count mint redeem tkey k [] s = 0"
| "redeemed_count mint redeem tkey k (Mint g # ops) s = redeemed_count mint redeem tkey k ops (snd (mint g s))"
| "redeemed_count mint redeem tkey k (Redeem f t # ops) s =
     (if tkey t = k \<and> fst (redeem f t s) = Inr () then 1 else 0)
     + redeemed_count mint redeem tkey k ops (snd (redeem f t s))"

fun mint_count :: "('g \<Rightarrow> 'k option) \<Rightarrow> 'k \<Rightarrow> ('g, 'f) token_op list \<Rightarrow> nat" where
  "mint_count mints k [] = 0"
| "mint_count mints k (Mint g # ops) = (if mints g = Some k then 1 else 0) + mint_count mints k ops"
| "mint_count mints k (Redeem f t # ops) = mint_count mints k ops"

context join_tokens_port
begin

lemma redemptions_bounded:
  "inv s \<Longrightarrow> redeemed_count mint redeem tkey k ops s \<le> mint_count mints k ops + (if live s k then 1 else 0)"
proof (induction ops arbitrary: s)
  case (Cons op ops)
  show ?case
  proof (cases op)
    case (Mint g)
    then show ?thesis
      using Cons.IH [OF inv_mint [OF Cons.prems], of g] mint_live [OF Cons.prems, of g k] by (auto split: if_splits)
  next
    case (Redeem f t)
    then show ?thesis
      using Cons.IH [OF inv_redeem [OF Cons.prems], of f t] redeem_live [OF Cons.prems, of f t k]
        redeem_ok [OF Cons.prems, of f t] by (auto split: if_splits)
  qed
qed simp

end

definition registry_live :: "token_registry \<Rightarrow> string \<Rightarrow> bool" where
  "registry_live reg t \<longleftrightarrow> (\<exists>st. map_of (tr_tokens reg) t = Some st \<and> \<not> tk_redeemed st)"

definition registry_inv :: "token_registry \<Rightarrow> bool" where
  "registry_inv reg \<longleftrightarrow> amap_ok (tr_tokens reg) \<and> length (tr_tokens reg) \<le> tr_cap reg"

lemma registry_inv_mint: "registry_inv reg \<Longrightarrow> registry_inv (snd (registry_mint m reg))"
proof -
  assume inv: "registry_inv reg"
  let ?kept = "filter (\<lambda>(_, s). \<not> tk_redeemed s \<and> me_now2 m < tk_expires_at s) (tr_tokens reg)"
  have "length ?kept \<le> tr_cap reg"
    by (rule le_trans [OF length_filter_le]) (use inv in \<open>simp add: registry_inv_def\<close>)
  then show ?thesis
    using inv by (auto simp: registry_inv_def registry_mint_def Let_def length_update_amap split: option.splits)
qed

lemma registry_inv_redeem: "registry_inv reg \<Longrightarrow> registry_inv (snd (registry_redeem now t reg))"
  by (auto simp: registry_inv_def registry_redeem_def length_update_amap split: option.splits)

interpretation registry_tokens: join_tokens_port registry_mint registry_redeem id "\<lambda>m. map_option hex (me_raw m)"
    registry_live registry_inv
proof (unfold_locales, goal_cases)
  case (1 s g)
  then show ?case by (rule registry_inv_mint)
next
  case (2 s f t)
  then show ?case by (rule registry_inv_redeem)
next
  case (3 s g k)
  then show ?case
    by (auto simp: registry_live_def registry_mint_def registry_inv_def Let_def map_of_filter_Some
        split: if_splits option.splits)
qed (auto simp: registry_live_def registry_redeem_def split: option.splits if_splits)

definition pg_live :: "pg_tokens \<Rightarrow> hash \<Rightarrow> bool" where
  "pg_live st h \<longleftrightarrow> (\<exists>r. map_of (pt_table st) h = Some r \<and> tw_redeemed_at_unix r = None)"

definition pg_tokens_inv :: "pg_tokens \<Rightarrow> bool" where
  "pg_tokens_inv st \<longleftrightarrow> amap_ok (pt_table st)"

interpretation pg_join_tokens: join_tokens_port "pg_mint C" "pg_redeem C" "token_hash C"
    "\<lambda>m. map_option (\<lambda>raw. token_hash C (hex raw)) (pm_raw m)" pg_live pg_tokens_inv
proof (unfold_locales, goal_cases)
  case (3 s g k)
  then show ?case
    by (auto simp: pg_live_def pg_mint_def pg_tokens_inv_def Let_def map_of_filter_Some
        split: if_splits option.splits)
qed (auto simp: pg_tokens_inv_def pg_live_def pg_mint_def pg_redeem_def Let_def
    split: option.splits if_splits)

text \<open>
  C26.  Join tokens are single-use: in any history of mints and redemptions, with any clock, any
  random bytes and any database failure, a token is redeemed successfully at most as often as it was
  minted, so a token minted once enrolls at most one host and a token never minted enrolls none.  In
  Postgres this holds per token hash.
\<close>

theorem join_tokens_single_use:
  "redeemed_count registry_mint registry_redeem id token ops (registry_new max_ttl)
     \<le> mint_count (\<lambda>m. map_option hex (me_raw m)) token ops
   \<and> redeemed_count (pg_mint C) (pg_redeem C) (token_hash C) h pg_ops \<lparr>pt_table = [], pt_max_ttl = max_ttl, pt_cap = cap\<rparr>
     \<le> mint_count (\<lambda>m. map_option (\<lambda>raw. token_hash C (hex raw)) (pm_raw m)) h pg_ops"
  using registry_tokens.redemptions_bounded [of "registry_new max_ttl" token ops]
    pg_join_tokens.redemptions_bounded [of "\<lparr>pt_table = [], pt_max_ttl = max_ttl, pt_cap = cap\<rparr>" C h pg_ops]
  by (simp add: registry_inv_def registry_live_def registry_new_def pg_tokens_inv_def pg_live_def)

text \<open>
  Redemption is exact: the in-memory registry redeems a token if and only if it is stored,
  unredeemed and not yet expired, marks just that token, and otherwise changes nothing; a token just
  minted is redeemable at every instant before its expiry, which is never later than the clamped time
  to live allows.
\<close>

theorem registry_redeem_exact:
  "(fst (registry_redeem now t reg) = Inr ()
      \<longleftrightarrow> (\<exists>st. map_of (tr_tokens reg) t = Some st \<and> \<not> tk_redeemed st \<and> now < tk_expires_at st))
   \<and> (fst (registry_redeem now t reg) \<noteq> Inr () \<longrightarrow> snd (registry_redeem now t reg) = reg)
   \<and> (\<forall>u. u \<noteq> t \<longrightarrow> map_of (tr_tokens (snd (registry_redeem now t reg))) u = map_of (tr_tokens reg) u)
   \<and> (\<forall>tok secs reg'. registry_mint m reg = (Inr (tok, secs), reg') \<longrightarrow>
        (fst (registry_redeem now tok reg') = Inr () \<longleftrightarrow> now < me_now1 m + int (min (me_ttl m) (tr_max_ttl reg))))"
  by (auto simp: registry_redeem_def registry_mint_def Let_def split: option.splits if_splits)

theorem registry_redeem_exact_witness:
  "let m = \<lparr>me_ttl = 60, me_now1 = 100, me_now2 = 100, me_raw = Some [0xAB]\<rparr>;
       reg = snd (registry_mint m (registry_new 30))
   in fst (registry_mint m (registry_new 30)) = Inr (''ab'', 0)
      \<and> fst (registry_redeem 129 ''ab'' reg) = Inr () \<and> fst (registry_redeem 130 ''ab'' reg) \<noteq> Inr ()"
proof -
  define m where "m = \<lparr>me_ttl = 60, me_now1 = 100, me_now2 = 100, me_raw = Some [0xAB]\<rparr>"
  obtain reg where r: "registry_mint m (registry_new 30) = (Inr (''ab'', 0), reg)"
    by (simp add: m_def registry_mint_def registry_new_def DEFAULT_MAX_OUTSTANDING_def hex_def hex_byte_def
        hex_digits_def unix_seconds_def Let_def)
  have "fst (registry_redeem 129 ''ab'' reg) = Inr ()" "fst (registry_redeem 130 ''ab'' reg) \<noteq> Inr ()"
    using registry_redeem_exact [of _ _ "registry_new 30" m] r by (simp_all add: m_def registry_new_def)
  with r show ?thesis unfolding m_def [symmetric] by (simp add: Let_def)
qed

end
