(* ===== verification/Audit_Chain.thy ===== *)
theory Audit_Chain
  imports Proto "HOL-Library.Sublist"
begin

text \<open>
  \<^verbatim>\<open>osa-core/src/audit.rs\<close> (the hash chain) and \<^verbatim>\<open>osa-coordinator/src/audit_log.rs\<close> (its two stores).
  SHA-256 is a parameter \<open>sha\<close>; a 32-byte hash is a 256-bit word.  The locale \<open>audit_log_port\<close> is the
  \<open>AuditLog\<close> trait with its contract, interpreted on the memory log and on the Postgres log; the
  lemmas show that both only ever export chains that verify, and that a chain with a known head cannot
  be altered, reordered or truncated.
\<close>

subsection \<open>The chain\<close>

definition GENESIS_PREV :: hash where
  "GENESIS_PREV = 0"

datatype decision = Allow | Deny

fun decision_as_str :: "decision \<Rightarrow> string" where
  "decision_as_str Allow = ''allow''"
| "decision_as_str Deny = ''deny''"

definition decision_parse :: "string \<Rightarrow> decision option" where
  "decision_parse s = (if s = ''allow'' then Some Allow else if s = ''deny'' then Some Deny else None)"

record audit_record =
  ts_unix :: i64
  subject :: string
  kind :: string
  target :: string
  run_as :: string
  decision :: decision

record audit_entry =
  ae_seq :: u64
  ae_record :: audit_record
  ae_prev_hash :: hash
  ae_hash :: hash

text \<open>The bytes \<open>compute_hash\<close> feeds to the hasher, in order.\<close>

definition audit_encoding :: "u64 \<Rightarrow> audit_record \<Rightarrow> hash \<Rightarrow> bytes" where
  "audit_encoding seq r prev_hash =
     u64_to_be_bytes seq @ u64_to_be_bytes (ts_unix r)
     @ concat (map (\<lambda>field. push_field (as_bytes field))
         [subject r, kind r, target r, run_as r, decision_as_str (decision r)])
     @ be_bytes 32 prev_hash"

definition compute_hash :: "hasher \<Rightarrow> u64 \<Rightarrow> audit_record \<Rightarrow> hash \<Rightarrow> hash" where
  "compute_hash sha seq r prev_hash = sha (audit_encoding seq r prev_hash)"

definition seal_entry :: "hasher \<Rightarrow> u64 \<Rightarrow> audit_record \<Rightarrow> hash \<Rightarrow> audit_entry" where
  "seal_entry sha seq r prev_hash =
     \<lparr>ae_seq = seq, ae_record = r, ae_prev_hash = prev_hash, ae_hash = compute_hash sha seq r prev_hash\<rparr>"

datatype audit_error =
  OutOfOrder nat u64 u64 | BrokenLink u64 | Altered u64 | Truncated | UnexpectedHead

text \<open>The loop of \<open>verify\<close> over \<open>entries.iter().enumerate()\<close>, with its running \<open>prev\<close>.\<close>

fun verify_loop :: "hasher \<Rightarrow> hash \<Rightarrow> nat \<Rightarrow> audit_entry list \<Rightarrow> audit_error + unit" where
  "verify_loop sha prev index [] = Inr ()"
| "verify_loop sha prev index (e # es) =
     (let expected = of_nat index in
      if ae_seq e \<noteq> expected then Inl (OutOfOrder index (ae_seq e) expected)
      else if ae_prev_hash e \<noteq> prev then Inl (BrokenLink (ae_seq e))
      else if compute_hash sha (ae_seq e) (ae_record e) (ae_prev_hash e) \<noteq> ae_hash e then
        Inl (Altered (ae_seq e))
      else verify_loop sha (ae_hash e) (Suc index) es)"

definition verify :: "hasher \<Rightarrow> audit_entry list \<Rightarrow> hash option \<Rightarrow> audit_error + unit" where
  "verify sha entries expected_head =
     (case verify_loop sha GENESIS_PREV 0 entries of
        Inl e \<Rightarrow> Inl e
      | Inr _ \<Rightarrow>
          (case expected_head of
             None \<Rightarrow> Inr ()
           | Some head \<Rightarrow>
               if entries = [] then Inl Truncated
               else if ae_hash (last entries) = head then Inr ()
               else Inl UnexpectedHead))"

subsection \<open>The memory log\<close>

definition chain_head :: "audit_entry list \<Rightarrow> hash" where
  "chain_head entries = (if entries = [] then GENESIS_PREV else ae_hash (last entries))"

definition mem_append :: "hasher \<Rightarrow> unit \<Rightarrow> audit_record \<Rightarrow> audit_entry list \<Rightarrow> (port_error + unit) \<times> audit_entry list"
where
  "mem_append sha _ record entries =
     (let seq = of_nat (length entries); prev = chain_head entries
      in (Inr (), entries @ [seal_entry sha seq record prev]))"

definition mem_export :: "audit_entry list \<Rightarrow> port_error + audit_entry list" where
  "mem_export entries = Inr entries"

subsection \<open>The Postgres log\<close>

record audit_row =
  row_seq :: i64
  row_ts_unix :: i64
  row_subject :: string
  row_kind :: string
  row_target :: string
  row_run_as :: string
  row_decision :: string
  row_prev_hash :: bytes
  row_hash :: bytes

text \<open>
  The outcome of the database calls of one append: whether each statement succeeds, and whether
  the commit takes effect and is acknowledged (a connection lost at commit leaves the caller with
  an error and the row stored).
\<close>

datatype commit = Committed | RolledBack | CommittedUnacked

record pg_io =
  io_ok :: "nat \<Rightarrow> bool"
  io_commit :: commit

definition hash_from_row :: "bytes \<Rightarrow> port_error + hash" where
  "hash_from_row bs =
     (if length bs = 32 then Inr (of_be_bytes bs) else Inl (Backend ''audit row has a malformed hash''))"

definition entry_to_row :: "audit_entry \<Rightarrow> audit_row" where
  "entry_to_row e =
     \<lparr>row_seq = ae_seq e, row_ts_unix = ts_unix (ae_record e), row_subject = subject (ae_record e),
      row_kind = kind (ae_record e), row_target = target (ae_record e),
      row_run_as = run_as (ae_record e), row_decision = decision_as_str (decision (ae_record e)),
      row_prev_hash = be_bytes 32 (ae_prev_hash e), row_hash = be_bytes 32 (ae_hash e)\<rparr>"

text \<open>\<open>SELECT seq, hash FROM audit_log ORDER BY seq DESC LIMIT 1\<close>.\<close>

definition select_head :: "audit_row list \<Rightarrow> audit_row option" where
  "select_head table =
     fold (\<lambda>r best. case best of None \<Rightarrow> Some r | Some b \<Rightarrow> if sint (row_seq b) < sint (row_seq r) then Some r else best)
       table None"

definition pg_append :: "hasher \<Rightarrow> pg_io \<Rightarrow> audit_record \<Rightarrow> audit_row list \<Rightarrow> (port_error + unit) \<times> audit_row list"
where
  "pg_append sha io record table =
     (if \<not> (io_ok io 0 \<and> io_ok io 1 \<and> io_ok io 2 \<and> io_ok io 3) then (Inl (Backend ''''), table)
      else
        (case (case select_head table of
                 Some row \<Rightarrow>
                   (case hash_from_row (row_hash row) of
                      Inl e \<Rightarrow> Inl e
                    | Inr h \<Rightarrow> Inr (row_seq row + 1, h))
               | None \<Rightarrow> Inr (0, GENESIS_PREV)) of
           Inl e \<Rightarrow> (Inl e, table)
         | Inr (seq, prev) \<Rightarrow>
             (let row = entry_to_row (seal_entry sha seq record prev) in
              if \<not> io_ok io 4 \<or> row_seq row \<in> row_seq ` set table then (Inl (Backend ''''), table)
              else case io_commit io of
                Committed \<Rightarrow> (Inr (), table @ [row])
              | RolledBack \<Rightarrow> (Inl (Backend ''''), table)
              | CommittedUnacked \<Rightarrow> (Inl (Backend ''''), table @ [row]))))"

definition entry_from_row :: "audit_row \<Rightarrow> port_error + audit_entry" where
  "entry_from_row row =
     (case decision_parse (row_decision row) of
        None \<Rightarrow> Inl (Backend ''audit row has an unknown decision'')
      | Some d \<Rightarrow>
          (case hash_from_row (row_prev_hash row) of
             Inl e \<Rightarrow> Inl e
           | Inr prev \<Rightarrow>
               (case hash_from_row (row_hash row) of
                  Inl e \<Rightarrow> Inl e
                | Inr h \<Rightarrow> Inr
                    \<lparr>ae_seq = row_seq row,
                     ae_record = \<lparr>ts_unix = row_ts_unix row, subject = row_subject row,
                       kind = row_kind row, target = row_target row, run_as = row_run_as row,
                       decision = d\<rparr>,
                     ae_prev_hash = prev, ae_hash = h\<rparr>)))"

definition pg_export :: "audit_row list \<Rightarrow> port_error + audit_entry list" where
  "pg_export table = collect_results entry_from_row (sort_key (\<lambda>r. sint (row_seq r)) table)"

subsection \<open>The encoding is unambiguous\<close>

lemma decision_as_str_inj: "decision_as_str d = decision_as_str d' \<longleftrightarrow> d = d'"
  by (cases d; cases d') auto

lemma decision_parse_as_str [simp]: "decision_parse (decision_as_str d) = Some d"
  by (cases d) (auto simp: decision_parse_def)

definition record_fits :: "audit_record \<Rightarrow> bool" where
  "record_fits r \<longleftrightarrow> fits (subject r) \<and> fits (kind r) \<and> fits (target r) \<and> fits (run_as r)"

lemma fits_decision [simp]: "fits (decision_as_str d)"
  by (cases d) (auto simp: fits_def)

lemma audit_encoding_inj:
  assumes "record_fits r" "record_fits r'" "audit_encoding s r p = audit_encoding s' r' p'"
  shows "s = s' \<and> r = r' \<and> p = p'"
  using assms
  by (simp add: audit_encoding_def record_fits_def append_eq_same_length push_field_eq push_field_eq_end
      be_bytes_eq decision_as_str_inj audit_record.equality)

subsection \<open>Verified chains\<close>

lemma verify_loop_snoc:
  "verify_loop sha prev i (es @ [e]) = Inr () \<longleftrightarrow> verify_loop sha prev i es = Inr ()
     \<and> ae_seq e = of_nat (i + length es) \<and> ae_prev_hash e = (if es = [] then prev else ae_hash (last es))
     \<and> compute_hash sha (ae_seq e) (ae_record e) (ae_prev_hash e) = ae_hash e"
  by (induction es arbitrary: prev i) (auto simp: Let_def)

lemma verify_loop_chain_snoc:
  "verify_loop sha GENESIS_PREV 0 (es @ [e]) = Inr () \<longleftrightarrow> verify_loop sha GENESIS_PREV 0 es = Inr ()
     \<and> e = seal_entry sha (of_nat (length es)) (ae_record e) (chain_head es)"
  by (cases e) (auto simp: verify_loop_snoc seal_entry_def chain_head_def)

lemma verify_None: "verify sha es None = Inr () \<longleftrightarrow> verify_loop sha GENESIS_PREV 0 es = Inr ()"
  by (auto simp: verify_def split: sum.splits)

lemma verify_Some:
  "verify sha es (Some h) = Inr () \<longleftrightarrow> verify_loop sha GENESIS_PREV 0 es = Inr () \<and> es \<noteq> [] \<and> chain_head es = h"
  by (auto simp: verify_def chain_head_def split: sum.splits)

definition entry_encoding :: "audit_entry \<Rightarrow> bytes" where
  "entry_encoding e = audit_encoding (ae_seq e) (ae_record e) (ae_prev_hash e)"

lemma sealed_head_eq:
  assumes "inj_on sha {entry_encoding e, entry_encoding e'}"
    and "record_fits (ae_record e)" "record_fits (ae_record e')"
    and e: "e = seal_entry sha s r p" and e': "e' = seal_entry sha s' r' p'"
    and "ae_hash e = ae_hash e'"
  shows "s = s' \<and> r = r' \<and> p = p'"
proof -
  have enc: "entry_encoding e = audit_encoding s r p" "entry_encoding e' = audit_encoding s' r' p'"
    unfolding e e' by (simp_all add: seal_entry_def entry_encoding_def)
  have fits: "record_fits r" "record_fits r'"
    using assms(2,3) unfolding e e' by (simp_all add: seal_entry_def)
  have "sha (audit_encoding s r p) = sha (audit_encoding s' r' p')"
    using assms(6) unfolding e e' by (simp add: seal_entry_def compute_hash_def)
  then have "audit_encoding s r p = audit_encoding s' r' p'"
    by (rule inj_onD [OF assms(1), unfolded enc]) simp_all
  then show ?thesis by (rule audit_encoding_inj [OF fits])
qed

lemma same_length_chains_eq:
  assumes "length es = length es'"
    and "verify_loop sha GENESIS_PREV 0 es = Inr ()" "verify_loop sha GENESIS_PREV 0 es' = Inr ()"
    and "chain_head es = chain_head es'" "inj_on sha (entry_encoding ` (set es \<union> set es'))"
    and "\<forall>e \<in> set es \<union> set es'. record_fits (ae_record e)"
  shows "es = es'"
  using assms
proof (induction es arbitrary: es' rule: rev_induct)
  case (snoc e es)
  obtain f fs where es': "es' = fs @ [f]" using snoc.prems(1) by (cases es' rule: rev_cases) auto
  have e: "e = seal_entry sha (of_nat (length es)) (ae_record e) (chain_head es)"
    and f: "f = seal_entry sha (of_nat (length fs)) (ae_record f) (chain_head fs)"
    using snoc.prems(2,3) by (simp_all add: es' verify_loop_chain_snoc)
  have "ae_record e = ae_record f \<and> chain_head es = chain_head fs"
  proof (rule sealed_head_eq [OF _ _ _ e f, THEN conjunct2])
    show "inj_on sha {entry_encoding e, entry_encoding f}"
      using snoc.prems(5) by (rule inj_on_subset) (auto simp: es')
  qed (use snoc.prems(4,6) in \<open>simp_all add: chain_head_def es'\<close>)
  moreover have "es = fs"
  proof (rule snoc.IH)
    show "inj_on sha (entry_encoding ` (set es \<union> set fs))"
      using snoc.prems(5) by (rule inj_on_subset) (auto simp: es')
  qed (use snoc.prems calculation in \<open>simp_all add: es' verify_loop_chain_snoc\<close>)
  ultimately show ?case using e f es' by metis
qed simp

lemma anchored_chains_eq:
  assumes "verify sha es (Some h) = Inr ()" "verify sha es' (Some h) = Inr ()"
    and "inj_on sha (entry_encoding ` (set es \<union> set es'))"
    and "\<forall>e \<in> set es \<union> set es'. record_fits (ae_record e)" "fits es" "fits es'"
  shows "es = es'"
proof -
  obtain as e where es: "es = as @ [e]" using assms(1) by (cases es rule: rev_cases) (auto simp: verify_Some)
  obtain bs f where es': "es' = bs @ [f]" using assms(2) by (cases es' rule: rev_cases) (auto simp: verify_Some)
  have v: "verify_loop sha GENESIS_PREV 0 es = Inr ()" "verify_loop sha GENESIS_PREV 0 es' = Inr ()"
    "chain_head es = chain_head es'"
    using assms(1,2) by (auto simp: verify_Some)
  have e: "e = seal_entry sha (of_nat (length as)) (ae_record e) (chain_head as)"
    and f: "f = seal_entry sha (of_nat (length bs)) (ae_record f) (chain_head bs)"
    using v(1,2) by (simp_all add: es es' verify_loop_chain_snoc)
  have "(of_nat (length as) :: u64) = of_nat (length bs)"
  proof (rule sealed_head_eq [OF _ _ _ e f, THEN conjunct1])
    show "inj_on sha {entry_encoding e, entry_encoding f}"
      using assms(3) by (rule inj_on_subset) (auto simp: es es')
  qed (use v(3) assms(4) in \<open>simp_all add: chain_head_def es es'\<close>)
  then have "length as = length bs"
    using len_u64_inj [of as bs] assms(5,6) by (simp add: es es' fits_def len_u64_def)
  then show ?thesis
    using same_length_chains_eq [OF _ v assms(3,4)] by (simp add: es es')
qed

text \<open>
  C8.  Tamper evidence of the audit chain: two chains that verify against the same anchored head
  are the same chain, entry for entry.  So no altered, reordered, inserted, dropped or truncated
  history verifies against a head that was noted down, as long as SHA-256 has no collision among
  the entries of the two chains.
\<close>

theorem audit_chain_tamper_evident:
  assumes "verify sha es (Some h) = Inr ()" "verify sha es' (Some h) = Inr ()"
    and "inj_on sha (entry_encoding ` (set es \<union> set es'))"
    and "\<forall>e \<in> set es \<union> set es'. record_fits (ae_record e)" "fits es" "fits es'"
  shows "es = es'"
  using assms by (rule anchored_chains_eq)

definition sample_record :: "string \<Rightarrow> decision \<Rightarrow> audit_record" where
  "sample_record who d =
     \<lparr>ts_unix = 0, subject = who, kind = ''exec'', target = ''h'', run_as = [], decision = d\<rparr>"

theorem audit_chain_tamper_evident_witness:
  "let sha = (\<lambda>b. of_nat (length b));
       e0 = seal_entry sha 0 (sample_record ''al'' Allow) GENESIS_PREV;
       e1 = seal_entry sha 1 (sample_record ''alice'' Deny) (ae_hash e0)
   in verify sha [e0, e1] (Some (ae_hash e1)) = Inr () \<and> verify sha [e0] (Some (ae_hash e1)) \<noteq> Inr ()"
proof -
  define sha :: hasher where "sha = (\<lambda>b. of_nat (length b))"
  define e0 where "e0 = seal_entry sha 0 (sample_record ''al'' Allow) GENESIS_PREV"
  define e1 where "e1 = seal_entry sha 1 (sample_record ''alice'' Deny) (ae_hash e0)"
  note defs = e0_def e1_def seal_entry_def sample_record_def
  have v: "verify sha [e0, e1] (Some (ae_hash e1)) = Inr ()"
    by (simp add: verify_def defs)
  have len: "length (entry_encoding e0) = 100" "length (entry_encoding e1) = 102"
    by (simp_all add: defs entry_encoding_def audit_encoding_def push_field_def)
  have "verify sha [e0] (Some (ae_hash e1)) \<noteq> Inr ()"
  proof
    assume "verify sha [e0] (Some (ae_hash e1)) = Inr ()"
    then have "[e0] = [e0, e1]"
    proof (rule audit_chain_tamper_evident [OF _ v])
      show "inj_on sha (entry_encoding ` (set [e0] \<union> set [e0, e1]))"
        using len by (simp add: inj_on_def sha_def)
      show "\<forall>e \<in> set [e0] \<union> set [e0, e1]. record_fits (ae_record e)"
        by (simp add: defs record_fits_def fits_def)
    qed (simp_all add: fits_def)
    then show False by simp
  qed
  with v show ?thesis by (simp add: Let_def e1_def e0_def sha_def)
qed

subsection \<open>The \<open>AuditLog\<close> port\<close>

text \<open>
  The contract of the trait: from a state that exports a chain, an append, whatever the store's
  environment \<open>f\<close> does, leaves a state that exports the same chain or the chain with the record
  sealed onto its head, and it acknowledges only the latter.
\<close>

locale audit_log_port =
  fixes sha :: hasher
    and append_op :: "'f \<Rightarrow> audit_record \<Rightarrow> 's \<Rightarrow> (port_error + unit) \<times> 's"
    and export_op :: "'s \<Rightarrow> port_error + audit_entry list"
    and holds :: "'s \<Rightarrow> audit_entry list \<Rightarrow> bool"
  assumes export_holds: "holds s es \<Longrightarrow> export_op s = Inr es"
    and append_holds:
      "holds s es \<Longrightarrow> verify sha es None = Inr () \<Longrightarrow> length es < 2 ^ 63 - 1
       \<Longrightarrow> append_op f r s = (res, s')
       \<Longrightarrow> holds s' (es @ [seal_entry sha (of_nat (length es)) r (chain_head es)])
           \<or> (res \<noteq> Inr () \<and> holds s' es)"

text \<open>A history of appends: the records acknowledged, and the final state.\<close>

fun append_all :: "('f \<Rightarrow> audit_record \<Rightarrow> 's \<Rightarrow> (port_error + unit) \<times> 's) \<Rightarrow> ('f \<times> audit_record) list \<Rightarrow> 's
    \<Rightarrow> audit_record list \<times> 's" where
  "append_all ap [] s = ([], s)"
| "append_all ap ((f, r) # rest) s =
     (case ap f r s of
        (res, s') \<Rightarrow> (case append_all ap rest s' of
          (acked, s'') \<Rightarrow> (if res = Inr () then r # acked else acked, s'')))"

context audit_log_port
begin

lemma append_all_holds:
  assumes "holds s es" "verify sha es None = Inr ()" "length es + length rs < 2 ^ 63"
    and "append_all append_op rs s = (acked, s')"
  shows "\<exists>new. holds s' (es @ new) \<and> verify sha (es @ new) None = Inr ()
    \<and> subseq acked (map ae_record new) \<and> subseq (map ae_record new) (map snd rs)"
  using assms
proof (induction rs arbitrary: s es acked)
  case (Cons fr rs)
  obtain f r where fr: "fr = (f, r)" by (cases fr)
  obtain res s1 where a: "append_op f r s = (res, s1)" by (cases "append_op f r s")
  obtain acked1 where rest: "append_all append_op rs s1 = (acked1, s')"
    and acked: "acked = (if res = Inr () then r # acked1 else acked1)"
    using Cons.prems(4) by (auto simp: fr a split: prod.splits)
  let ?e = "seal_entry sha (of_nat (length es)) r (chain_head es)"
  have rec: "ae_record ?e = r" by (simp add: seal_entry_def)
  have "holds s1 (es @ [?e]) \<or> (res \<noteq> Inr () \<and> holds s1 es)"
    using append_holds [OF Cons.prems(1,2) _ a] Cons.prems(3) by simp
  then show ?case
  proof
    assume h: "holds s1 (es @ [?e])"
    have v: "verify sha (es @ [?e]) None = Inr ()"
      using Cons.prems(2) by (simp add: verify_None verify_loop_chain_snoc rec)
    have "length (es @ [?e]) + length rs < 2 ^ 63" using Cons.prems(3) by simp
    from Cons.IH [OF h v this rest] obtain new where "holds s' (es @ ?e # new)"
      "verify sha (es @ ?e # new) None = Inr ()" "subseq acked1 (map ae_record new)"
      "subseq (map ae_record new) (map snd rs)"
      by auto
    then show ?thesis
      by (intro exI [of _ "?e # new"]) (auto simp: fr acked rec intro: subseq_Cons')
  next
    assume h: "res \<noteq> Inr () \<and> holds s1 es"
    have "length es + length rs < 2 ^ 63" using Cons.prems(3) by simp
    from Cons.IH [OF _ Cons.prems(2) this rest] h obtain new where "holds s' (es @ new)"
      "verify sha (es @ new) None = Inr ()" "subseq acked1 (map ae_record new)"
      "subseq (map ae_record new) (map snd rs)"
      by auto
    then show ?thesis using h by (intro exI [of _ new]) (auto simp: fr acked)
  qed
qed (auto intro: exI [of _ "[]"])

lemma export_verifies:
  assumes "holds s []" "length rs < 2 ^ 63" "append_all append_op rs s = (acked, s')"
  shows "\<exists>es. export_op s' = Inr es \<and> verify sha es None = Inr ()
    \<and> subseq acked (map ae_record es) \<and> subseq (map ae_record es) (map snd rs)"
  using append_all_holds [OF assms(1) _ _ assms(3)] assms(2) export_holds
  by (fastforce simp: verify_None)

end

interpretation mem_log: audit_log_port sha "mem_append sha" mem_export "\<lambda>s es. s = es"
  by unfold_locales (auto simp: mem_export_def mem_append_def Let_def)

definition pg_holds :: "audit_row list \<Rightarrow> audit_entry list \<Rightarrow> bool" where
  "pg_holds table es \<longleftrightarrow> table = map entry_to_row es \<and> length es < 2 ^ 63
     \<and> map ae_seq es = map of_nat [0..<length es]"

lemma hash_from_row_be [simp]: "hash_from_row (be_bytes 32 h) = Inr h"
  by (simp add: hash_from_row_def of_be_bytes_inverse)

lemma entry_round_trip [simp]: "entry_from_row (entry_to_row e) = Inr e"
  by (simp add: entry_from_row_def entry_to_row_def)

lemma select_head_mem: "select_head table = Some b \<Longrightarrow> b \<in> set table"
  by (induction table arbitrary: b rule: rev_induct)
    (auto simp: select_head_def split: option.splits if_splits)

lemma select_head_snoc:
  assumes "\<forall>b \<in> set table. sint (row_seq b) < sint (row_seq r)"
  shows "select_head (table @ [r]) = Some r"
  using assms select_head_mem [of table] by (auto simp: select_head_def split: option.splits)

lemma pg_holds_seq:
  assumes "pg_holds table es" "i < length es"
  shows "row_seq (table ! i) = of_nat i" "sint (row_seq (table ! i)) = int i"
proof -
  have "map ae_seq es ! i = map of_nat [0..<length es] ! i"
    using assms(1) by (simp only: pg_holds_def)
  then have "ae_seq (es ! i) = of_nat i" using assms(2) by simp
  then show "row_seq (table ! i) = of_nat i"
    using assms by (simp add: pg_holds_def entry_to_row_def)
  then show "sint (row_seq (table ! i)) = int i"
    using assms by (simp add: pg_holds_def sint_of_nat_64)
qed

lemma pg_holds_sorted: "pg_holds table es \<Longrightarrow> sorted (map (\<lambda>r. sint (row_seq r)) table)"
proof -
  assume h: "pg_holds table es"
  then have "length table = length es" by (simp add: pg_holds_def)
  then show ?thesis by (auto simp: sorted_iff_nth_mono pg_holds_seq(2) [OF h])
qed

lemma pg_head:
  assumes "pg_holds table es"
  shows "select_head table = (if es = [] then None else Some (entry_to_row (last es)))"
proof (cases es rule: rev_cases)
  case Nil
  then show ?thesis using assms by (simp add: pg_holds_def select_head_def)
next
  case (snoc fs e)
  have t: "table = map entry_to_row fs @ [entry_to_row e]" using assms snoc by (simp add: pg_holds_def)
  have "sint (row_seq b) < sint (row_seq (entry_to_row e))" if b: "b \<in> set (map entry_to_row fs)" for b
  proof -
    obtain i where i: "i < length fs" "b = map entry_to_row fs ! i" using b unfolding in_set_conv_nth by auto
    then have "b = table ! i" "entry_to_row e = table ! length fs" by (auto simp: t nth_append)
    then show ?thesis
      using pg_holds_seq(2) [OF assms, of i] pg_holds_seq(2) [OF assms, of "length fs"] i snoc by simp
  qed
  then show ?thesis using select_head_snoc [of "map entry_to_row fs" "entry_to_row e"] t snoc by simp
qed

lemma pg_append_holds:
  assumes "pg_holds table es" "length es < 2 ^ 63 - 1" "pg_append sha io r table = (res, table')"
  shows "pg_holds table' (es @ [seal_entry sha (of_nat (length es)) r (chain_head es)])
    \<or> (res \<noteq> Inr () \<and> pg_holds table' es)"
proof -
  let ?e = "seal_entry sha (of_nat (length es)) r (chain_head es)"
  have seq: "row_seq (entry_to_row (last es)) + 1 = of_nat (length es)" if "es \<noteq> []"
  proof -
    have "entry_to_row (last es) = table ! (length es - 1)"
      using that assms(1) by (simp add: pg_holds_def last_conv_nth)
    then show ?thesis
      using pg_holds_seq(1) [OF assms(1), of "length es - 1"] that by (cases es) simp_all
  qed
  have hash: "row_hash (entry_to_row (last es)) = be_bytes 32 (ae_hash (last es))"
    by (simp add: entry_to_row_def)
  have "table' = table @ [entry_to_row ?e] \<or> res \<noteq> Inr () \<and> table' = table"
    using assms(3) seq unfolding pg_append_def pg_head [OF assms(1)]
    by (cases "es = []")
      (auto simp: Let_def chain_head_def hash split: if_splits commit.splits)
  then show ?thesis
    using assms(1,2) by (auto simp: pg_holds_def seal_entry_def)
qed

interpretation pg_log: audit_log_port sha "pg_append sha" pg_export pg_holds
proof
  fix table es assume h: "pg_holds table es"
  have "sort_key (\<lambda>r. sint (row_seq r)) table = table"
    by (rule sort_key_id_if_sorted) (rule pg_holds_sorted [OF h])
  then show "pg_export table = Inr es"
    using h collect_results_round_trip [of es entry_from_row entry_to_row]
    by (simp add: pg_export_def pg_holds_def)
qed (rule pg_append_holds)



end
