(* ===== verification/Shell_Stream.thy ===== *)
theory Shell_Stream
  imports Channel_Guard
begin

text \<open>
  \<^verbatim>\<open>osa-agent/src/shell_stream.rs\<close>: the agent's end of an interactive shell.  The PTY is an argument:
  whether it spawns, and what its reads return.  The bounded channel to the PTY writer is the list of
  its queued items; the two pumps are functions from what they receive to what they emit.
\<close>

subsection \<open>Model\<close>

definition SHELL_READ_CHUNK :: nat where "SHELL_READ_CHUNK = 8 * 1024"
definition DOWNLINK_QUEUE :: nat where "DOWNLINK_QUEUE = 256"

text \<open>A stream holds its PTY as the id of its process group; \<open>ss_writer_gone\<close> says that the write pump ended.\<close>

record shell_stream =
  ss_pid :: "nat option"
  ss_stream_keys :: session_keys
  ss_recv_high :: "u64 option"
  ss_downlink :: "bytes list"
  ss_writer_gone :: bool

datatype pty_error =
  PtyUnknownUser string | PtyUserLookup string | PtyUnsupported | PtyOpenPty | PtyMasterFailed | PtySpawnFailed string

definition shell_open ::
  "crypto \<Rightarrow> (string \<Rightarrow> u16 \<Rightarrow> u16 \<Rightarrow> pty_error + nat option) \<Rightarrow> session_keys \<Rightarrow> string \<Rightarrow> string \<Rightarrow> u16 \<Rightarrow> u16
   \<Rightarrow> pty_error + shell_stream" where
  "shell_open C pty_spawn keys stream_id run_as rows cols =
     (let stream_keys = derive_stream C keys (as_bytes stream_id) in
      case pty_spawn run_as rows cols of
        Inl e \<Rightarrow> Inl e
      | Inr pid \<Rightarrow> Inr
          \<lparr>ss_pid = pid, ss_stream_keys = stream_keys, ss_recv_high = None, ss_downlink = [],
           ss_writer_gone = False\<rparr>)"

text \<open>Dropping the stream: the process group it signals, if the process still has an id.\<close>

definition shell_drop :: "shell_stream \<Rightarrow> nat option" where
  "shell_drop st = ss_pid st"

definition shell_open_downlink :: "crypto \<Rightarrow> shell_stream \<Rightarrow> envelope \<Rightarrow> bytes option \<times> shell_stream" where
  "shell_open_downlink C st env =
     (case open_envelope C (ss_stream_keys st) CoordToAgent env of
        None \<Rightarrow> (None, st)
      | Some plaintext \<Rightarrow>
          if (case ss_recv_high st of None \<Rightarrow> False | Some h \<Rightarrow> env_seq env \<le> h) then (None, st)
          else (Some plaintext, st\<lparr>ss_recv_high := Some (env_seq env)\<rparr>))"

definition downlink_try_send :: "bytes \<Rightarrow> shell_stream \<Rightarrow> shell_stream" where
  "downlink_try_send data st =
     (if ss_writer_gone st \<or> length (ss_downlink st) \<ge> DOWNLINK_QUEUE then st
      else st\<lparr>ss_downlink := ss_downlink st @ [data]\<rparr>)"

definition route_downlink :: "crypto \<Rightarrow> codecs \<Rightarrow> shell_stream \<Rightarrow> envelope \<Rightarrow> bool \<times> shell_stream" where
  "route_downlink C P st env =
     (case shell_open_downlink C st env of
        (None, st') \<Rightarrow> (True, st')
      | (Some plaintext, st') \<Rightarrow>
          (case decode_msg (sf_codec P) plaintext of
             None \<Rightarrow> (True, st')
           | Some frame \<Rightarrow>
               if sf_eof frame then (False, st') else (True, downlink_try_send (sf_data frame) st')))"

definition seal_frame :: "crypto \<Rightarrow> codecs \<Rightarrow> session_keys \<Rightarrow> string \<Rightarrow> string \<Rightarrow> u64 \<Rightarrow> bytes \<Rightarrow> bool \<Rightarrow> bytes" where
  "seal_frame C P keys host_id sid seq data eof =
     (let frame = \<lparr>sf_data = data, sf_eof = eof\<rparr>;
          env = seal_envelope C keys AgentToCoord host_id sid seq KIND_STREAM (encode_msg (sf_codec P) frame)
      in encode_msg (env_codec P) env)"

text \<open>
  The uplink pump on the results of its reads (empty at end of file or on an error) and on how many
  sends the publisher still takes; the frames it hands to the publisher.
\<close>

fun uplink_pump :: "crypto \<Rightarrow> codecs \<Rightarrow> session_keys \<Rightarrow> string \<Rightarrow> string \<Rightarrow> u64 \<Rightarrow> nat \<Rightarrow> bytes list \<Rightarrow> bytes list" where
  "uplink_pump C P keys host_id sid seq takes [] =
     (if takes = 0 then [] else [seal_frame C P keys host_id sid seq [] True])"
| "uplink_pump C P keys host_id sid seq takes (r # rs) =
     (if r = [] then (if takes = 0 then [] else [seal_frame C P keys host_id sid seq [] True])
      else if takes = 0 then []
      else seal_frame C P keys host_id sid seq (take SHELL_READ_CHUNK r) False
           # uplink_pump C P keys host_id sid (seq + 1) (takes - 1) rs)"

text \<open>The downlink pump: what it writes to the PTY, with the number of writes that succeed.\<close>

fun downlink_pump :: "nat \<Rightarrow> bytes list \<Rightarrow> bytes list" where
  "downlink_pump ok [] = []"
| "downlink_pump ok (d # ds) = (if ok = 0 then [] else d # downlink_pump (ok - 1) ds)"

subsection \<open>The stream follows the receiver contract\<close>

interpretation shell_rx: replay_guard "shell_open_downlink C"
    "\<lambda>st. open_envelope C (ss_stream_keys st) CoordToAgent" ss_recv_high
  by unfold_locales (auto simp: shell_open_downlink_def above_def not_less split: option.splits)

lemma route_downlink_queue_bound:
  "length (ss_downlink st) \<le> DOWNLINK_QUEUE \<Longrightarrow> length (ss_downlink (snd (route_downlink C P st env))) \<le> DOWNLINK_QUEUE"
  by (auto simp: route_downlink_def shell_open_downlink_def downlink_try_send_def split: option.splits)

lemma route_downlink_forged:
  "open_envelope C (ss_stream_keys st) CoordToAgent env = None \<Longrightarrow> route_downlink C P st env = (True, st)"
  by (simp add: route_downlink_def shell_open_downlink_def)

subsection \<open>What the uplink pump emits\<close>

lemma uplink_pump_frames:
  assumes "\<forall>r \<in> set rs. r \<noteq> [] \<and> length r \<le> SHELL_READ_CHUNK" "length rs < takes"
  shows "uplink_pump C P keys host_id sid seq takes (rs @ [[]]) =
    map (\<lambda>k. seal_frame C P keys host_id sid (seq + of_nat k) (rs ! k) False) [0..<length rs]
    @ [seal_frame C P keys host_id sid (seq + of_nat (length rs)) [] True]"
  using assms
proof (induction rs arbitrary: seq takes)
  case (Cons r rs)
  have "uplink_pump C P keys host_id sid (seq + 1) (takes - 1) (rs @ [[]]) =
      map (\<lambda>k. seal_frame C P keys host_id sid (seq + 1 + of_nat k) (rs ! k) False) [0..<length rs]
      @ [seal_frame C P keys host_id sid (seq + 1 + of_nat (length rs)) [] True]"
    by (rule Cons.IH) (use Cons.prems in auto)
  then show ?case
    using Cons.prems
    by (simp add: upt_conv_Cons map_Suc_upt [symmetric] comp_def algebra_simps del: upt_Suc)
qed simp

lemma uplink_pump_length: "length (uplink_pump C P keys host_id sid seq takes rs) \<le> takes"
  by (induction C P keys host_id sid seq takes rs rule: uplink_pump.induct) auto

end
