(* ===== verification/Control_Channel.thy ===== *)
theory Control_Channel
  imports Dispatch Shell_Stream Topics
begin

text \<open>
  \<^verbatim>\<open>osa-agent/src/control_channel.rs\<close>: the agent's connection to the broker.  The record \<open>agent_conn\<close> is
  what one connection of \<open>run\<close> owns, with what it published and subscribed as logs; \<open>on_publish\<close> is the
  whole routing function with its callees.  \<open>cc_opened\<close> is a ghost log of the stream ids under which
  shells were opened on the current session.
\<close>

subsection \<open>Constants and backoff\<close>

definition SHELL_KIND :: string where "SHELL_KIND = ''shell''"
definition DEFAULT_ROWS :: u16 where "DEFAULT_ROWS = 24"
definition DEFAULT_COLS :: u16 where "DEFAULT_COLS = 80"
definition MAX_STREAM_ID_LEN :: nat where "MAX_STREAM_ID_LEN = 256"
definition MAX_SHELLS_PER_SESSION :: nat where "MAX_SHELLS_PER_SESSION = 4096"
definition MAX_CONCURRENT_JOBS :: nat where "MAX_CONCURRENT_JOBS = 16"
definition BACKOFF_BASE_MS :: nat where "BACKOFF_BASE_MS = 500"
definition BACKOFF_MAX_MS :: nat where "BACKOFF_MAX_MS = 30000"
definition STABLE_RESET_MS :: nat where "STABLE_RESET_MS = 30000"

text \<open>The delay in milliseconds; \<open>hash\<close> is the standard library's hasher on (seed, attempt).\<close>

definition backoff :: "(u64 \<times> u32 \<Rightarrow> u64) \<Rightarrow> u32 \<Rightarrow> u64 \<Rightarrow> nat" where
  "backoff hash attempt seed =
     (let factor = 2 ^ min (unat attempt) 20;
          capped = max (min (min (BACKOFF_BASE_MS * factor) (2 ^ 64 - 1)) BACKOFF_MAX_MS) BACKOFF_BASE_MS;
          frac = unat (hash (seed, attempt)) mod 1000
      in capped div 2 + (capped div 2) * frac div 1000)"

text \<open>The end of one iteration of \<open>run\<close>: how long to wait and the next attempt number, given how long
  the connection was up (if it ever was).\<close>

definition reconnect :: "(u64 \<times> u32 \<Rightarrow> u64) \<Rightarrow> u64 \<Rightarrow> nat option \<Rightarrow> u32 \<Rightarrow> nat \<times> u32" where
  "reconnect hash seed up_ms attempt =
     (let attempt' = (case up_ms of None \<Rightarrow> attempt | Some t \<Rightarrow> if t \<ge> STABLE_RESET_MS then 0 else attempt)
      in (backoff hash attempt' seed, if attempt' = - 1 then - 1 else attempt' + 1))"

definition clamp_dim :: "u32 \<Rightarrow> u16 \<Rightarrow> u16" where
  "clamp_dim v dflt = (if v = 0 then dflt else ucast (min v 0xFFFF))"

subsection \<open>The connection\<close>

record session_topics =
  st_hs_up :: string
  st_hs_down :: string
  st_ctrl_up :: string
  st_ctrl_down :: string
  st_dispatch_down :: string
  st_result_up :: string
  st_stream_up :: string
  st_stream_down :: string

definition for_host :: "string \<Rightarrow> session_topics" where
  "for_host host_id =
     \<lparr>st_hs_up = hs_up host_id, st_hs_down = hs_down host_id, st_ctrl_up = ctrl_up host_id,
      st_ctrl_down = ctrl_down host_id, st_dispatch_down = dispatch_down host_id,
      st_result_up = result_up host_id, st_stream_up = stream_up host_id, st_stream_down = stream_down host_id\<rparr>"

record job_ticket =
  jt_dispatch :: dispatch_msg
  jt_keys :: session_keys
  jt_host_id :: string
  jt_sid :: string

record agent_conn =
  cc_handshaking :: "handshaking option"
  cc_session :: "established option"
  cc_active :: "shell_stream option"
  cc_used :: "string list"
  cc_permits :: nat
  cc_jobs :: "job_ticket list"
  cc_published :: "(string \<times> bytes) list"
  cc_subscribed :: "string list"
  cc_opened :: "string list"
  cc_connected :: bool

text \<open>\<open>client.try_publish\<close> and \<open>client.try_subscribe\<close>, with whether the request queue takes them.\<close>

definition cc_publish :: "bool \<Rightarrow> string \<Rightarrow> bytes \<Rightarrow> agent_conn \<Rightarrow> agent_conn" where
  "cc_publish ok topic payload cc = (if ok then cc\<lparr>cc_published := cc_published cc @ [(topic, payload)]\<rparr> else cc)"

definition publish_heartbeat :: "bool \<Rightarrow> string \<Rightarrow> agent_conn \<Rightarrow> agent_conn" where
  "publish_heartbeat ok topic cc = cc_publish ok topic [] cc"

record hs_env =
  he_sub1 :: bool
  he_sub2 :: bool
  he_sub3 :: bool
  he_sub4 :: bool
  he_sid :: string
  he_seed :: "key option"
  he_pub :: bool
  he_beat :: bool

definition begin_handshake ::
  "crypto \<Rightarrow> codecs \<Rightarrow> agent_identity \<Rightarrow> session_topics \<Rightarrow> hs_env \<Rightarrow> u64 \<Rightarrow> agent_conn \<Rightarrow> handshaking option \<times> agent_conn" where
  "begin_handshake C P ident topics e epoch cc =
     (let sub = (\<lambda>t cc. cc\<lparr>cc_subscribed := cc_subscribed cc @ [t]\<rparr>) in
      if \<not> he_sub1 e then (None, cc)
      else let cc1 = sub (st_hs_down topics) cc in
      if \<not> he_sub2 e then (None, cc1)
      else let cc2 = sub (st_ctrl_down topics) cc1 in
      if \<not> he_sub3 e then (None, cc2)
      else let cc3 = sub (st_dispatch_down topics) cc2 in
      if \<not> he_sub4 e then (None, cc3)
      else let cc4 = sub (st_stream_down topics) cc3 in
      case start_handshake C P (he_sid e) (he_seed e) ident epoch of
        Inl _ \<Rightarrow> (None, cc4)
      | Inr (hs, hello) \<Rightarrow>
          if \<not> he_pub e then (None, cc4) else (Some hs, cc_publish True (st_hs_up topics) hello cc4))"

definition open_dispatch :: "crypto \<Rightarrow> codecs \<Rightarrow> established \<Rightarrow> bytes \<Rightarrow> dispatch_msg option \<times> established" where
  "open_dispatch C P est payload =
     (case decode_msg (env_codec P) payload of
        None \<Rightarrow> (None, est)
      | Some env \<Rightarrow>
          (case open_downlink C est env of
             (None, est') \<Rightarrow> (None, est')
           | (Some plaintext, est') \<Rightarrow> (decode_msg (dm_codec P) plaintext, est')))"

definition handle_job :: "established \<Rightarrow> agent_identity \<Rightarrow> dispatch_msg \<Rightarrow> agent_conn \<Rightarrow> agent_conn" where
  "handle_job est ident d cc =
     (if cc_permits cc = 0 then cc
      else cc\<lparr>cc_permits := cc_permits cc - 1,
              cc_jobs := cc_jobs cc @ [\<lparr>jt_dispatch = d, jt_keys = est_keys est, jt_host_id = id_host_id ident,
                jt_sid = est_sid est\<rparr>]\<rparr>)"

definition handle_shell_open ::
  "crypto \<Rightarrow> codecs \<Rightarrow> (string \<Rightarrow> u16 \<Rightarrow> u16 \<Rightarrow> pty_error + nat option) \<Rightarrow> established \<Rightarrow> local_allowlist \<Rightarrow> dispatch_msg
   \<Rightarrow> agent_conn \<Rightarrow> agent_conn" where
  "handle_shell_open C P pty_spawn est backstop d cc =
     (if dm_job_id d = [] \<or> length (dm_job_id d) > MAX_STREAM_ID_LEN then cc
      else if dm_job_id d \<in> set (cc_used cc) then cc
      else if length (cc_used cc) \<ge> MAX_SHELLS_PER_SESSION then cc
      else
        let action = \<lparr>ad_kind = dm_kind d, ad_target = [], ad_run_as = dm_run_as d, ad_params_hash = []\<rparr> in
        case la_permits backstop action of
          Inl _ \<Rightarrow> cc
        | Inr _ \<Rightarrow>
            let params = (case decode_msg (sp_codec P) (dm_params d) of None \<Rightarrow> \<lparr>sp_rows = 0, sp_cols = 0\<rparr> | Some p \<Rightarrow> p);
                rows = clamp_dim (sp_rows params) DEFAULT_ROWS;
                cols = clamp_dim (sp_cols params) DEFAULT_COLS
            in (case shell_open C pty_spawn (est_keys est) (dm_job_id d) (dm_run_as d) rows cols of
                  Inl _ \<Rightarrow> cc
                | Inr stream \<Rightarrow>
                    cc\<lparr>cc_used := dm_job_id d # cc_used cc, cc_active := Some stream,
                       cc_opened := cc_opened cc @ [dm_job_id d]\<rparr>))"

definition on_publish ::
  "crypto \<Rightarrow> codecs \<Rightarrow> (string \<Rightarrow> u16 \<Rightarrow> u16 \<Rightarrow> pty_error + nat option) \<Rightarrow> agent_identity \<Rightarrow> local_allowlist
   \<Rightarrow> session_topics \<Rightarrow> bool \<Rightarrow> string \<Rightarrow> bytes \<Rightarrow> agent_conn \<Rightarrow> agent_conn" where
  "on_publish C P pty_spawn ident backstop topics pub_ok topic payload cc =
     (if topic = st_hs_down topics then
        (case cc_handshaking cc of
           None \<Rightarrow> cc
         | Some hs \<Rightarrow>
             let cc' = cc\<lparr>cc_handshaking := None\<rparr> in
             (case finish_handshake C P hs ident payload of
                Inl _ \<Rightarrow> cc'
              | Inr est \<Rightarrow> cc'\<lparr>cc_session := Some est\<rparr>))
      else if topic = st_ctrl_down topics then
        (case cc_session cc of
           None \<Rightarrow> cc
         | Some est \<Rightarrow>
             (case confirm_session C P est ident payload of
                (Inl _, est') \<Rightarrow> cc\<lparr>cc_session := Some est'\<rparr>
              | (Inr ack, est') \<Rightarrow> cc_publish pub_ok (st_ctrl_up topics) ack (cc\<lparr>cc_session := Some est'\<rparr>)))
      else if topic = st_dispatch_down topics then
        (case cc_session cc of
           None \<Rightarrow> cc
         | Some est \<Rightarrow>
             (case open_dispatch C P est payload of
                (None, est') \<Rightarrow> cc\<lparr>cc_session := Some est'\<rparr>
              | (Some d, est') \<Rightarrow>
                  let cc' = cc\<lparr>cc_session := Some est'\<rparr> in
                  if dm_kind d = SHELL_KIND then handle_shell_open C P pty_spawn est' backstop d cc'
                  else handle_job est' ident d cc'))
      else if topic = st_stream_down topics then
        (case cc_active cc of
           None \<Rightarrow> cc
         | Some stream \<Rightarrow>
             (case decode_msg (env_codec P) payload of
                None \<Rightarrow> cc
              | Some env \<Rightarrow>
                  (case route_downlink C P stream env of
                     (keep, stream') \<Rightarrow> cc\<lparr>cc_active := (if keep then Some stream' else None)\<rparr>)))
      else cc)"

subsection \<open>A connection over time\<close>

text \<open>What the event loop of one connection sees, and the end of a job task, which frees its permit.\<close>

datatype conn_event =
    ConnAck "epoch_error + u64" hs_env
  | Incoming bool string bytes "string \<Rightarrow> u16 \<Rightarrow> u16 \<Rightarrow> pty_error + nat option"
  | HeartbeatTick bool
  | JobFinished nat
  | Disconnected

definition conn_reset :: "agent_conn \<Rightarrow> agent_conn" where
  "conn_reset cc =
     cc\<lparr>cc_handshaking := None, cc_session := None, cc_active := None, cc_used := [], cc_opened := [],
        cc_subscribed := [], cc_connected := False\<rparr>"

text \<open>\<open>beat\<close> is the heartbeat topic.\<close>

fun conn_step ::
  "crypto \<Rightarrow> codecs \<Rightarrow> agent_identity \<Rightarrow> local_allowlist \<Rightarrow> string \<Rightarrow> session_topics \<Rightarrow> conn_event \<Rightarrow> agent_conn \<Rightarrow> agent_conn" where
  "conn_step C P ident backstop beat topics (ConnAck epoch e) cc =
     (let cc0 = publish_heartbeat (he_beat e) beat (cc\<lparr>cc_connected := True\<rparr>) in
      case epoch of
        Inl _ \<Rightarrow> cc0
      | Inr ep \<Rightarrow>
          (case begin_handshake C P ident topics e ep cc0 of (hs, cc') \<Rightarrow> cc'\<lparr>cc_handshaking := hs\<rparr>))"
| "conn_step C P ident backstop beat topics (Incoming pub_ok topic payload pty_spawn) cc =
     on_publish C P pty_spawn ident backstop topics pub_ok topic payload cc"
| "conn_step C P ident backstop beat topics (HeartbeatTick ok) cc =
     (if cc_connected cc then publish_heartbeat ok beat cc else cc)"
| "conn_step C P ident backstop beat topics (JobFinished i) cc =
     (if i < length (cc_jobs cc)
      then cc\<lparr>cc_jobs := take i (cc_jobs cc) @ drop (Suc i) (cc_jobs cc), cc_permits := cc_permits cc + 1\<rparr>
      else cc)"
| "conn_step C P ident backstop beat topics Disconnected cc = conn_reset cc"

definition conn_run ::
  "crypto \<Rightarrow> codecs \<Rightarrow> agent_identity \<Rightarrow> local_allowlist \<Rightarrow> string \<Rightarrow> session_topics \<Rightarrow> conn_event list \<Rightarrow> agent_conn \<Rightarrow> agent_conn" where
  "conn_run C P ident backstop beat topics evs cc = fold (conn_step C P ident backstop beat topics) evs cc"

definition conn_init :: agent_conn where
  "conn_init =
     \<lparr>cc_handshaking = None, cc_session = None, cc_active = None, cc_used = [], cc_permits = MAX_CONCURRENT_JOBS,
      cc_jobs = [], cc_published = [], cc_subscribed = [], cc_opened = [],
      cc_connected = False\<rparr>"

subsection \<open>Bounds\<close>

text \<open>
  Reconnect delays are bounded and jittered as documented: the delay always lies between half
  of the exponential value and that value, so between a quarter of a second and thirty seconds, and
  it is never the full value of a non-trivial one.
\<close>

theorem backoff_bounds:
  "let capped = max (min (BACKOFF_BASE_MS * 2 ^ min (unat attempt) 20) BACKOFF_MAX_MS) BACKOFF_BASE_MS
   in capped div 2 \<le> backoff hash attempt seed \<and> backoff hash attempt seed < capped
      \<and> 250 \<le> backoff hash attempt seed \<and> backoff hash attempt seed < 30000"
proof -
  define capped where "capped = max (min (BACKOFF_BASE_MS * 2 ^ min (unat attempt) 20) BACKOFF_MAX_MS) BACKOFF_BASE_MS"
  have "BACKOFF_BASE_MS * 2 ^ min (unat attempt) 20 \<le> BACKOFF_BASE_MS * 2 ^ 20"
    by (intro mult_left_mono power_increasing) simp_all
  then have sat: "min (BACKOFF_BASE_MS * 2 ^ min (unat attempt) 20) (2 ^ 64 - 1) = BACKOFF_BASE_MS * 2 ^ min (unat attempt) 20"
    by (simp add: BACKOFF_BASE_MS_def min_def)
  define frac where "frac = unat (hash (seed, attempt)) mod 1000"
  have b: "backoff hash attempt seed = capped div 2 + capped div 2 * frac div 1000"
    unfolding backoff_def sat capped_def frac_def Let_def ..
  have c: "500 \<le> capped" "capped \<le> 30000"
    by (simp_all add: capped_def BACKOFF_BASE_MS_def BACKOFF_MAX_MS_def)
  have "capped div 2 * frac \<le> capped div 2 * 999" by (intro mult_left_mono) (simp_all add: frac_def)
  then have "capped div 2 * frac div 1000 < capped div 2" using c by linarith
  then show ?thesis using c unfolding b Let_def capped_def [symmetric] by linarith
qed

lemma clamp_dim_pos:
  assumes "0 < dflt"
  shows "0 < clamp_dim v dflt"
proof (cases "v = 0")
  case False
  define m where "m = min v 0xFFFF"
  have le: "m \<le> 0xFFFF" by (simp add: m_def)
  have "m \<noteq> 0" using False by (simp add: m_def min_def)
  then have pos: "0 < unat m" by (simp add: unat_gt_0)
  have "unat m \<le> unat (0xFFFF :: u32)" using le by (simp only: word_le_nat_alt)
  then have small: "unat m < 2 ^ 16" by simp
  have "unat (ucast m :: u16) = unat m"
    using small by (simp add: unsigned_ucast_eq take_bit_nat_eq_self)
  then have "0 < unat (ucast m :: u16)" using pos by (simp only:)
  then have "clamp_dim v dflt \<noteq> 0" using False unfolding clamp_dim_def m_def by (simp only: if_False unat_gt_0 not_False_eq_True)
  then show ?thesis by (simp only: word_neq_0_conv)
qed (simp add: clamp_dim_def assms)

definition conn_inv :: "agent_conn \<Rightarrow> bool" where
  "conn_inv cc \<longleftrightarrow> distinct (cc_used cc) \<and> cc_opened cc = rev (cc_used cc)
     \<and> length (cc_used cc) \<le> MAX_SHELLS_PER_SESSION
     \<and> (\<forall>i \<in> set (cc_used cc). i \<noteq> [] \<and> length i \<le> MAX_STREAM_ID_LEN)
     \<and> cc_permits cc + length (cc_jobs cc) = MAX_CONCURRENT_JOBS"

lemma conn_inv_cong:
  assumes "cc_used cc' = cc_used cc" "cc_opened cc' = cc_opened cc" "cc_permits cc' = cc_permits cc" "cc_jobs cc' = cc_jobs cc"
  shows "conn_inv cc' \<longleftrightarrow> conn_inv cc"
  using assms by (simp add: conn_inv_def)

lemma cc_publish_simps [simp]:
  "cc_used (cc_publish ok t p cc) = cc_used cc" "cc_opened (cc_publish ok t p cc) = cc_opened cc"
  "cc_permits (cc_publish ok t p cc) = cc_permits cc" "cc_jobs (cc_publish ok t p cc) = cc_jobs cc"
  "cc_active (cc_publish ok t p cc) = cc_active cc"
  by (simp_all add: cc_publish_def)

lemma conn_inv_shell_open: "conn_inv cc \<Longrightarrow> conn_inv (handle_shell_open C P pty est backstop d cc)"
  by (auto simp: conn_inv_def handle_shell_open_def Let_def split: sum.splits)

lemma conn_inv_job: "conn_inv cc \<Longrightarrow> conn_inv (handle_job est ident d cc)"
  by (auto simp: conn_inv_def handle_job_def)

lemma conn_inv_on_publish:
  assumes "conn_inv cc"
  shows "conn_inv (on_publish C P pty ident backstop topics ok topic payload cc)"
proof -
  have upd: "conn_inv (cc\<lparr>cc_session := se\<rparr>)" "conn_inv (cc\<lparr>cc_active := ac\<rparr>)" "conn_inv (cc\<lparr>cc_handshaking := hs\<rparr>)"
    "conn_inv (cc\<lparr>cc_handshaking := hs, cc_session := se\<rparr>)" for se ac hs
    using assms by (simp_all add: conn_inv_def)
  have pub: "conn_inv (cc_publish ok t p (cc\<lparr>cc_session := se\<rparr>))" for t p se
    using upd(1) conn_inv_cong [of "cc_publish ok t p (cc\<lparr>cc_session := se\<rparr>)" "cc\<lparr>cc_session := se\<rparr>"] by simp
  show ?thesis
    unfolding on_publish_def Let_def
    by (auto simp: assms upd pub intro!: conn_inv_shell_open conn_inv_job split: option.splits sum.splits prod.splits)
qed

lemma conn_inv_step:
  assumes "conn_inv cc"
  shows "conn_inv (conn_step C P ident backstop beat topics ev cc)"
proof (cases ev)
  case (ConnAck epoch e)
  define cc0 where "cc0 = publish_heartbeat (he_beat e) beat (cc\<lparr>cc_connected := True\<rparr>)"
  have 0: "conn_inv cc0" using assms by (simp add: cc0_def publish_heartbeat_def conn_inv_def)
  then have "conn_inv (snd (begin_handshake C P ident topics e ep cc0)\<lparr>cc_handshaking := hs\<rparr>)" for ep hs
    by (auto simp: conn_inv_def begin_handshake_def Let_def split: sum.splits)
  with 0 show ?thesis
    by (auto simp: ConnAck Let_def cc0_def [symmetric] case_prod_unfold split: sum.splits)
next
  case (HeartbeatTick ok)
  then show ?thesis using assms by (simp add: publish_heartbeat_def conn_inv_def)
next
  case (Incoming ok topic payload pty)
  then show ?thesis using conn_inv_on_publish [OF assms] by simp
next
  case (JobFinished i)
  then show ?thesis using assms by (auto simp: conn_inv_def)
next
  case Disconnected
  then show ?thesis using assms by (simp add: conn_inv_def conn_reset_def)
qed

text \<open>
  Resource and nonce guards of a connection: over any sequence of connects, incoming publishes
  (forged or not), job completions and disconnects, at most sixteen job tasks run at a time, and the
  shells of a session are opened under pairwise different, non-empty, bounded stream ids, at most
  4096 of them, so no stream key is ever derived twice in a session.
\<close>

theorem agent_connection_guards:
  "let cc = conn_run C P ident backstop beat topics evs conn_init in
    length (cc_jobs cc) \<le> MAX_CONCURRENT_JOBS \<and> distinct (cc_opened cc)
    \<and> length (cc_opened cc) \<le> MAX_SHELLS_PER_SESSION
    \<and> list_all (\<lambda>i. i \<noteq> [] \<and> length i \<le> MAX_STREAM_ID_LEN) (cc_opened cc)"
proof -
  have "conn_inv (fold (conn_step C P ident backstop beat topics) evs cc0)" if "conn_inv cc0" for cc0
    using that by (induction evs arbitrary: cc0) (simp_all add: conn_inv_step)
  moreover have "conn_inv conn_init" by (simp add: conn_inv_def conn_init_def)
  ultimately have "conn_inv (conn_run C P ident backstop beat topics evs conn_init)"
    unfolding conn_run_def by blast
  then show ?thesis by (auto simp: conn_inv_def list_all_iff Let_def)
qed

subsection \<open>What makes the agent act\<close>

lemma handle_shell_open_opened:
  assumes "cc_opened (handle_shell_open C P pty est backstop d cc) \<noteq> cc_opened cc"
  shows "cc_opened (handle_shell_open C P pty est backstop d cc) = cc_opened cc @ [dm_job_id d]
    \<and> dm_job_id d \<notin> set (cc_used cc)
    \<and> la_permits backstop \<lparr>ad_kind = dm_kind d, ad_target = [], ad_run_as = dm_run_as d, ad_params_hash = []\<rparr> = Inr ()
    \<and> (\<exists>stream. cc_active (handle_shell_open C P pty est backstop d cc) = Some stream
         \<and> ss_stream_keys stream = derive_stream C (est_keys est) (as_bytes (dm_job_id d)))"
  using assms by (auto simp: handle_shell_open_def shell_open_def Let_def split: if_splits sum.splits)

lemma handle_shell_open_jobs [simp]: "cc_jobs (handle_shell_open C P pty est backstop d cc) = cc_jobs cc"
  by (simp add: handle_shell_open_def Let_def split: sum.splits)

lemma handle_job_simps:
  "cc_opened (handle_job est ident d cc) = cc_opened cc"
  "cc_jobs (handle_job est ident d cc) \<noteq> cc_jobs cc \<Longrightarrow>
     cc_jobs (handle_job est ident d cc) = cc_jobs cc @ [\<lparr>jt_dispatch = d, jt_keys = est_keys est,
       jt_host_id = id_host_id ident, jt_sid = est_sid est\<rparr>]"
  by (simp_all add: handle_job_def split: if_splits)

lemma open_downlink_Some:
  assumes "open_downlink C est env = (Some m, est')"
  shows "open_envelope C (est_keys est) CoordToAgent env = Some m \<and> above (est_recv_high est) (env_seq env)
    \<and> est_keys est' = est_keys est \<and> est_sid est' = est_sid est"
  using assms by (auto simp: open_downlink_def accept_recv_def above_def not_le split: option.splits if_splits)

lemma on_publish_acts:
  assumes "cc' = on_publish C P pty ident backstop topics ok topic payload cc"
    and "cc_jobs cc' \<noteq> cc_jobs cc \<or> cc_opened cc' \<noteq> cc_opened cc"
  obtains est d est' where "topic = st_dispatch_down topics" "cc_session cc = Some est" "open_dispatch C P est payload = (Some d, est')"
    "cc' = (if dm_kind d = SHELL_KIND then handle_shell_open C P pty est' backstop d (cc\<lparr>cc_session := Some est'\<rparr>)
      else handle_job est' ident d (cc\<lparr>cc_session := Some est'\<rparr>))"
proof -
  obtain est where t: "topic = st_dispatch_down topics" "topic \<noteq> st_hs_down topics" "topic \<noteq> st_ctrl_down topics"
    and est: "cc_session cc = Some est"
    using assms by (auto simp: on_publish_def Let_def split: if_splits option.splits sum.splits prod.splits)
  obtain d est' where d: "open_dispatch C P est payload = (Some d, est')"
    using assms t est by (cases "open_dispatch C P est payload"; cases "fst (open_dispatch C P est payload)")
      (auto simp: on_publish_def)
  show thesis using that [OF t(1) est d] assms(1) t est d by (simp add: on_publish_def Let_def)
qed

text \<open>
  The agent acts only on what the coordinator sealed: an incoming publish starts a job task or
  opens a shell only on the dispatch topic, within a session, for a dispatch that authenticates under
  the session key with a sequence number above every earlier one; the task runs that dispatch, and
  the shell is opened under its fresh id, with the key derived from it, only if the host's backstop
  permits its kind and user.
\<close>

theorem agent_acts_only_on_sealed_dispatch:
  assumes "cc' = on_publish C P pty ident backstop topics ok topic payload cc"
    and "cc_jobs cc' \<noteq> cc_jobs cc \<or> cc_opened cc' \<noteq> cc_opened cc"
  shows "\<exists>est env plaintext d. topic = st_dispatch_down topics \<and> cc_session cc = Some est
    \<and> decode_msg (env_codec P) payload = Some env
    \<and> open_envelope C (est_keys est) CoordToAgent env = Some plaintext \<and> above (est_recv_high est) (env_seq env)
    \<and> decode_msg (dm_codec P) plaintext = Some d
    \<and> (if dm_kind d = SHELL_KIND
       then cc_opened cc' = cc_opened cc @ [dm_job_id d] \<and> dm_job_id d \<notin> set (cc_used cc)
         \<and> la_permits backstop \<lparr>ad_kind = dm_kind d, ad_target = [], ad_run_as = dm_run_as d, ad_params_hash = []\<rparr> = Inr ()
         \<and> (\<exists>stream. cc_active cc' = Some stream \<and> ss_stream_keys stream = derive_stream C (est_keys est) (as_bytes (dm_job_id d)))
       else cc_jobs cc' = cc_jobs cc @ [\<lparr>jt_dispatch = d, jt_keys = est_keys est, jt_host_id = id_host_id ident, jt_sid = est_sid est\<rparr>])"
proof -
  obtain est d est' where t: "topic = st_dispatch_down topics" and est: "cc_session cc = Some est"
    and d: "open_dispatch C P est payload = (Some d, est')"
    and cc': "cc' = (if dm_kind d = SHELL_KIND then handle_shell_open C P pty est' backstop d (cc\<lparr>cc_session := Some est'\<rparr>)
      else handle_job est' ident d (cc\<lparr>cc_session := Some est'\<rparr>))"
    by (rule on_publish_acts [OF assms])
  obtain env plaintext where env: "decode_msg (env_codec P) payload = Some env"
    "open_downlink C est env = (Some plaintext, est')" "decode_msg (dm_codec P) plaintext = Some d"
    using d by (auto simp: open_dispatch_def split: option.splits prod.splits)
  note o = open_downlink_Some [OF env(2)]
  show ?thesis
  proof (cases "dm_kind d = SHELL_KIND")
    case True
    then show ?thesis
      using t est env o cc' assms(2) handle_shell_open_opened [of C P pty est' backstop d "cc\<lparr>cc_session := Some est'\<rparr>"]
      by auto
  next
    case False
    then show ?thesis
      using t est env o cc' assms(2) handle_job_simps [of est' ident d "cc\<lparr>cc_session := Some est'\<rparr>"] by auto
  qed
qed

definition sample_shell :: dispatch_msg where
  "sample_shell = \<lparr>dm_job_id = ''s1'', dm_kind = SHELL_KIND, dm_run_as = ''deploy'', dm_params = []\<rparr>"

definition sample_envelope :: envelope where
  "sample_envelope = seal_envelope toy_crypto \<lparr>c2a = 1, a2c = 2\<rparr> CoordToAgent ''h'' ''s'' 7 KIND_CONTROL [1]"

definition sample_conn :: agent_conn where
  "sample_conn = conn_init\<lparr>cc_session := Some \<lparr>est_keys = \<lparr>c2a = 1, a2c = 2\<rparr>, est_sid = ''s'', est_send_seq = 0,
     est_recv_high = None\<rparr>\<rparr>"

definition sample_prost :: codecs where
  "sample_prost = (sample_codecs (failed []))
     \<lparr>env_codec := \<lparr>encode_msg = (\<lambda>_. []), decode_msg = (\<lambda>_. Some sample_envelope)\<rparr>,
      dm_codec := \<lparr>encode_msg = (\<lambda>_. []), decode_msg = (\<lambda>_. Some sample_shell)\<rparr>\<rparr>"

definition sample_ident :: agent_identity where
  "sample_ident = \<lparr>id_host_id = ''h'', id_signing_key_pem = [], id_cert_der = [], id_ca_pubkey_sec1 = []\<rparr>"

theorem agent_acts_only_on_sealed_dispatch_witness:
  "let cc' = on_publish toy_crypto sample_prost (\<lambda>_ _ _. Inr None) sample_ident (la_new [''shell''] [''deploy'']) (for_host ''h'') True (dispatch_down ''h'') [] sample_conn
   in cc_opened cc' = [''s1''] \<and> (\<exists>stream. cc_active cc' = Some stream
        \<and> ss_stream_keys stream = derive_stream toy_crypto \<lparr>c2a = 1, a2c = 2\<rparr> (as_bytes ''s1''))"
proof -
  define cc' where "cc' = on_publish toy_crypto sample_prost (\<lambda>_ _ _. Inr None) sample_ident (la_new [''shell''] [''deploy''])
    (for_host ''h'') True (dispatch_down ''h'') [] sample_conn"
  have o: "open_envelope toy_crypto \<lparr>c2a = 1, a2c = 2\<rparr> CoordToAgent sample_envelope = Some [1]"
    unfolding sample_envelope_def
    by (rule open_seal_envelope [OF toy_crypto_laws(1)])
  have "cc_opened cc' = [''s1'']"
    by (simp add: cc'_def on_publish_def open_dispatch_def open_downlink_def accept_recv_def sample_prost_def o
        sample_conn_def conn_init_def handle_shell_open_def sample_shell_def for_host_def topic_defs Let_def
        MAX_STREAM_ID_LEN_def MAX_SHELLS_PER_SESSION_def la_permits_def la_new_def SHELL_KIND_def shell_open_def
        sample_codecs_def)
  moreover from this have "\<exists>stream. cc_active cc' = Some stream
      \<and> ss_stream_keys stream = derive_stream toy_crypto \<lparr>c2a = 1, a2c = 2\<rparr> (as_bytes ''s1'')"
    using agent_acts_only_on_sealed_dispatch [OF cc'_def]
    by (auto simp: sample_conn_def conn_init_def sample_prost_def sample_shell_def o)
  ultimately show ?thesis unfolding cc'_def [symmetric] Let_def by blast
qed

end
