(* ===== verification/Ca.thy ===== *)
theory Ca
  imports Handshake Topics Audit_Chain
begin

text \<open>
  \<^verbatim>\<open>osa-coordinator/src/ca.rs\<close>: the embedded CA.  It issues host certificates whose every field but the
  public key is the coordinator's, verifies the certificates presented in a handshake and at
  renewal, and is generated once and shared by all replicas through the database.  The X.509 crates
  (\<^verbatim>\<open>rcgen\<close>, \<^verbatim>\<open>x509-parser\<close>, \<^verbatim>\<open>pem\<close>) are a parameter, the record \<open>pki\<close>; instants and durations are
  nanoseconds.
\<close>

subsection \<open>Model\<close>

definition SECOND :: int where "SECOND = 1000000000"
definition CLOCK_SKEW :: int where "CLOCK_SKEW = 300 * SECOND"

datatype dn_type = CommonName | OrganizationName
datatype san_type = SanUri string | SanDns string
datatype key_usage = DigitalSignature | KeyCertSign | CrlSign
datatype ext_key_usage = ClientAuth | ServerAuth
datatype is_ca = IsCaNotSet | ExplicitNoCa | CaUnconstrained

record cert_params =
  cp_distinguished_name :: "(dn_type \<times> string) list"
  cp_subject_alt_names :: "san_type list"
  cp_is_ca :: is_ca
  cp_key_usages :: "key_usage list"
  cp_extended_key_usages :: "ext_key_usage list"
  cp_not_before :: int
  cp_not_after :: int

text \<open>What is read of a parsed certificate; \<open>None\<close> for a missing or unreadable SAN extension and for
  a key that is not an EC point.\<close>

datatype general_name = GnUri string | GnOther

record x509 =
  x_san :: "general_name list option"
  x_public_key :: bytes
  x_ec_point :: "bytes option"

text \<open>
  \<open>x509_from_der\<close>, \<open>verify_signature\<close> and \<open>is_valid\<close> are \<^verbatim>\<open>x509-parser\<close>'s; \<open>csr_from_der\<close> checks the
  request's self-signature and gives its public key; \<open>sign_by\<close> signs parameters and a subject key
  with an issuer's key; \<open>key_from_pem\<close> gives the public key of a private one, \<open>pem_of\<close> and
  \<open>pem_contents\<close> the two directions of PEM.  Errors carry the crate's message.
\<close>

record pki =
  x509_from_der :: "bytes \<Rightarrow> string + x509"
  verify_signature :: "x509 \<Rightarrow> bytes \<Rightarrow> bool"
  is_valid :: "x509 \<Rightarrow> int \<Rightarrow> bool"
  csr_from_der :: "bytes \<Rightarrow> string + bytes"
  sign_by :: "string \<Rightarrow> string \<Rightarrow> cert_params \<Rightarrow> bytes \<Rightarrow> string + bytes"
  self_signed :: "string \<Rightarrow> cert_params \<Rightarrow> string + bytes"
  key_from_pem :: "string \<Rightarrow> string + bytes"
  pem_of :: "bytes \<Rightarrow> string"
  pem_contents :: "string \<Rightarrow> string + bytes"
  issuer_from_ca_cert_pem :: "string \<Rightarrow> string + unit"
  ia5_string :: "string \<Rightarrow> string + unit"

definition host_san_uri :: "uuid_lib \<Rightarrow> uuid \<Rightarrow> string" where
  "host_san_uri U host_id = ''urn:osa:host:'' @ hyphenated U host_id"

record ca_material =
  cm_cert_pem :: string
  cm_key_pem :: string

record embedded_ca =
  ca_issuer :: "string \<times> string"
  ca_cert_der :: bytes
  ca_cert_pem :: string
  ca_key_pem :: string
  ca_cert_ttl :: int

record verified_host =
  vh_host_id :: uuid
  vh_public_key_sec1 :: bytes

definition ca_params :: "int \<Rightarrow> cert_params" where
  "ca_params now =
     \<lparr>cp_distinguished_name = [(CommonName, ''open-ssm-agent embedded CA'')], cp_subject_alt_names = [],
      cp_is_ca = CaUnconstrained, cp_key_usages = [KeyCertSign, CrlSign], cp_extended_key_usages = [],
      cp_not_before = now - CLOCK_SKEW, cp_not_after = now + 3650 * 86400 * SECOND\<rparr>"

definition from_material :: "pki \<Rightarrow> string \<Rightarrow> string \<Rightarrow> int \<Rightarrow> port_error + embedded_ca" where
  "from_material K cert_pem key_pem cert_ttl =
     (if cert_ttl \<le> 0 then Inl (Invalid ''cert_ttl must be positive'')
      else case key_from_pem K key_pem of
        Inl e \<Rightarrow> Inl (Invalid (''stored CA key is unusable: '' @ e))
      | Inr key_der \<Rightarrow>
          (case pem_contents K cert_pem of
             Inl e \<Rightarrow> Inl (Invalid (''stored CA cert is not valid PEM: '' @ e))
           | Inr cert_der \<Rightarrow>
               (case x509_from_der K cert_der of
                  Inl e \<Rightarrow> Inl (Invalid (''stored CA cert could not be parsed: '' @ e))
                | Inr parsed \<Rightarrow>
                    if key_der \<noteq> x_public_key parsed
                    then Inl (Invalid ''stored CA key does not match the stored CA cert'')
                    else case issuer_from_ca_cert_pem K cert_pem of
                      Inl e \<Rightarrow> Inl (Invalid (''stored CA cert is unusable: '' @ e))
                    | Inr _ \<Rightarrow>
                        Inr \<lparr>ca_issuer = (cert_pem, key_pem), ca_cert_der = cert_der, ca_cert_pem = cert_pem,
                             ca_key_pem = key_pem, ca_cert_ttl = cert_ttl\<rparr>)))"

text \<open>\<open>gen\<close> is the key pair the generator produces, as PEM, or its error.\<close>

definition ca_generate ::
  "pki \<Rightarrow> string + string \<Rightarrow> int \<Rightarrow> int \<Rightarrow> port_error + embedded_ca \<times> ca_material" where
  "ca_generate K gen now cert_ttl =
     (if cert_ttl \<le> 0 then Inl (Invalid ''cert_ttl must be positive'')
      else case gen of
        Inl e \<Rightarrow> Inl (Backend e)
      | Inr key_pem \<Rightarrow>
          (case self_signed K key_pem (ca_params now) of
             Inl e \<Rightarrow> Inl (Backend e)
           | Inr der \<Rightarrow>
               let cert_pem = pem_of K der in
               (case from_material K cert_pem key_pem cert_ttl of
                  Inl e \<Rightarrow> Inl e
                | Inr ca \<Rightarrow> Inr (ca, \<lparr>cm_cert_pem = cert_pem, cm_key_pem = key_pem\<rparr>))))"

fun find_uri :: "general_name list \<Rightarrow> string option" where
  "find_uri [] = None"
| "find_uri (GnUri u # gns) = Some u"
| "find_uri (GnOther # gns) = find_uri gns"

definition host_id_from_cert :: "uuid_lib \<Rightarrow> x509 \<Rightarrow> port_error + uuid" where
  "host_id_from_cert U cert =
     (case x_san cert of
        None \<Rightarrow> Inl (Invalid ''current cert has no SAN'')
      | Some gns \<Rightarrow>
          (case find_uri gns of
             None \<Rightarrow> Inl (Invalid ''current cert has no URI SAN'')
           | Some uri \<Rightarrow>
               (case Option.bind (strip_prefix ''urn:osa:host:'' uri) (parse_uuid U) of
                  None \<Rightarrow> Inl (Invalid ''SAN is not a host identity'')
                | Some u \<Rightarrow> Inr u)))"

definition ca_root_der :: "embedded_ca \<Rightarrow> bytes" where
  "ca_root_der ca = ca_cert_der ca"

definition ca_root_pem :: "embedded_ca \<Rightarrow> string" where
  "ca_root_pem ca = ca_cert_pem ca"

definition verify_host_cert :: "pki \<Rightarrow> uuid_lib \<Rightarrow> int \<Rightarrow> embedded_ca \<Rightarrow> bytes \<Rightarrow> port_error + verified_host" where
  "verify_host_cert K U now ca cert_der =
     (case x509_from_der K cert_der of
        Inl _ \<Rightarrow> Inl (Invalid ''malformed host certificate'')
      | Inr cert \<Rightarrow>
          (case x509_from_der K (ca_root_der ca) of
             Inl e \<Rightarrow> Inl (Backend e)
           | Inr root \<Rightarrow>
               if \<not> verify_signature K cert (x_public_key root) then Inl (Invalid ''host cert was not issued by this CA'')
               else if \<not> is_valid K cert now then Inl (Invalid ''host cert is expired or not yet valid'')
               else case host_id_from_cert U cert of
                 Inl e \<Rightarrow> Inl e
               | Inr host_id \<Rightarrow>
                   (case x_ec_point cert of
                      None \<Rightarrow> Inl (Invalid ''host cert public key is not an EC key'')
                    | Some point \<Rightarrow> Inr \<lparr>vh_host_id = host_id, vh_public_key_sec1 = point\<rparr>)))"

definition respond_handshake ::
  "crypto \<Rightarrow> (hs_error \<Rightarrow> string) \<Rightarrow> key option \<Rightarrow> embedded_ca \<Rightarrow> bytes \<Rightarrow> u64 \<Rightarrow> key \<Rightarrow> bytes \<Rightarrow> bytes \<Rightarrow> bytes
   \<Rightarrow> port_error + server_response" where
  "respond_handshake C show_hs seed ca sid epoch client_eph client_sig public_key_sec1 cert_der =
     (case respond C seed sid epoch client_eph client_sig public_key_sec1 cert_der (ca_key_pem ca) of
        Inl e \<Rightarrow> Inl (Invalid (''session handshake failed: '' @ show_hs e))
      | Inr r \<Rightarrow> Inr r)"

definition validate_csr :: "pki \<Rightarrow> bytes \<Rightarrow> port_error + unit" where
  "validate_csr K csr =
     (case csr_from_der K csr of Inl e \<Rightarrow> Inl (Invalid (''invalid CSR: '' @ e)) | Inr _ \<Rightarrow> Inr ())"

definition server_cert_params :: "string list \<Rightarrow> int \<Rightarrow> int \<Rightarrow> cert_params" where
  "server_cert_params dns_names now ttl =
     \<lparr>cp_distinguished_name = [(CommonName, hd dns_names)], cp_subject_alt_names = map SanDns dns_names,
      cp_is_ca = ExplicitNoCa, cp_key_usages = [DigitalSignature], cp_extended_key_usages = [ServerAuth],
      cp_not_before = now - CLOCK_SKEW, cp_not_after = now + ttl\<rparr>"

text \<open>\<open>gen\<close>: the new key as PEM with its public key, or the generator's error; the result is the
  certificate and the private key, both PEM.\<close>

definition issue_server_cert ::
  "pki \<Rightarrow> string + string \<times> bytes \<Rightarrow> int \<Rightarrow> embedded_ca \<Rightarrow> string list \<Rightarrow> port_error + string \<times> string" where
  "issue_server_cert K gen now ca dns_names =
     (if dns_names = [] then Inl (Invalid ''a server cert needs at least one DNS name'')
      else case gen of
        Inl e \<Rightarrow> Inl (Backend e)
      | Inr (key_pem, public_key) \<Rightarrow>
          (case collect_results (ia5_string K) dns_names of
             Inl e \<Rightarrow> Inl (Backend e)
           | Inr _ \<Rightarrow>
               (case sign_by K (fst (ca_issuer ca)) (snd (ca_issuer ca))
                       (server_cert_params dns_names now (ca_cert_ttl ca)) public_key of
                  Inl e \<Rightarrow> Inl (Backend (''signing server cert: '' @ e))
                | Inr der \<Rightarrow> Inr (pem_of K der, key_pem))))"

definition host_cert_params :: "uuid_lib \<Rightarrow> uuid \<Rightarrow> int \<Rightarrow> int \<Rightarrow> cert_params" where
  "host_cert_params U host_id now ttl =
     \<lparr>cp_distinguished_name = [(CommonName, hyphenated U host_id), (OrganizationName, simple_hex U host_id)],
      cp_subject_alt_names = [SanUri (host_san_uri U host_id)], cp_is_ca = ExplicitNoCa,
      cp_key_usages = [DigitalSignature], cp_extended_key_usages = [ClientAuth],
      cp_not_before = now - CLOCK_SKEW, cp_not_after = now + ttl\<rparr>"

definition ca_issue :: "pki \<Rightarrow> uuid_lib \<Rightarrow> int \<Rightarrow> embedded_ca \<Rightarrow> uuid \<Rightarrow> bytes \<Rightarrow> port_error + bytes" where
  "ca_issue K U now ca host_id csr =
     (case csr_from_der K csr of
        Inl e \<Rightarrow> Inl (Invalid (''invalid CSR: '' @ e))
      | Inr public_key \<Rightarrow>
          (case ia5_string K (host_san_uri U host_id) of
             Inl e \<Rightarrow> Inl (Backend e)
           | Inr _ \<Rightarrow>
               (case sign_by K (fst (ca_issuer ca)) (snd (ca_issuer ca))
                       (host_cert_params U host_id now (ca_cert_ttl ca)) public_key of
                  Inl e \<Rightarrow> Inl (Backend (''signing failed: '' @ e))
                | Inr der \<Rightarrow> Inr der)))"

definition validate_renewal :: "pki \<Rightarrow> uuid_lib \<Rightarrow> int \<Rightarrow> embedded_ca \<Rightarrow> bytes \<Rightarrow> bytes \<Rightarrow> port_error + uuid" where
  "validate_renewal K U now ca current_cert csr =
     (case x509_from_der K current_cert of
        Inl _ \<Rightarrow> Inl (Invalid ''malformed current certificate'')
      | Inr cert \<Rightarrow>
          (case x509_from_der K (ca_root_der ca) of
             Inl e \<Rightarrow> Inl (Backend e)
           | Inr root \<Rightarrow>
               if \<not> verify_signature K cert (x_public_key root) then Inl (Invalid ''current cert was not issued by this CA'')
               else if \<not> is_valid K cert now then Inl (Invalid ''current cert is expired or not yet valid'')
               else case host_id_from_cert U cert of
                 Inl e \<Rightarrow> Inl e
               | Inr host_id \<Rightarrow>
                   (case csr_from_der K csr of
                      Inl e \<Rightarrow> Inl (Invalid (''invalid CSR: '' @ e))
                    | Inr public_key \<Rightarrow>
                        if public_key \<noteq> x_public_key cert
                        then Inl (Invalid ''CSR key does not match the current identity'')
                        else Inr host_id)))"

text \<open>
  The table \<open>ca_identity\<close> in the order of its identity column, and the outcome of the transaction's
  statements: begin, lock, select, insert, and the commit.  The unique index on a constant refuses a
  second row.
\<close>

record ca_io =
  ci_begin :: bool
  ci_lock :: bool
  ci_select :: bool
  ci_insert :: bool
  ci_commit :: commit
  ci_gen :: "string + string"
  ci_now :: int

definition ca_commit :: "commit \<Rightarrow> 'a \<Rightarrow> 't \<Rightarrow> 't \<Rightarrow> (port_error + 'a) \<times> 't" where
  "ca_commit c ca before after =
     (case c of
        Committed \<Rightarrow> (Inr ca, after)
      | RolledBack \<Rightarrow> (Inl (Backend ''''), before)
      | CommittedUnacked \<Rightarrow> (Inl (Backend ''''), after))"

definition load_or_generate ::
  "pki \<Rightarrow> ca_io \<Rightarrow> int \<Rightarrow> ca_material list \<Rightarrow> (port_error + embedded_ca) \<times> ca_material list" where
  "load_or_generate K io cert_ttl table =
     (if \<not> (ci_begin io \<and> ci_lock io \<and> ci_select io) then (Inl (Backend ''''), table)
      else case table of
        row # _ \<Rightarrow>
          (case from_material K (cm_cert_pem row) (cm_key_pem row) cert_ttl of
             Inl e \<Rightarrow> (Inl e, table)
           | Inr ca \<Rightarrow> ca_commit (ci_commit io) ca table table)
      | [] \<Rightarrow>
          (case ca_generate K (ci_gen io) (ci_now io) cert_ttl of
             Inl e \<Rightarrow> (Inl e, table)
           | Inr (ca, material) \<Rightarrow>
               if \<not> ci_insert io then (Inl (Backend ''''), table)
               else ca_commit (ci_commit io) ca table (table @ [material])))"

subsection \<open>What the CA issues it verifies\<close>

fun as_general_name :: "san_type \<Rightarrow> general_name" where
  "as_general_name (SanUri u) = GnUri u"
| "as_general_name (SanDns d) = GnOther"

text \<open>
  What the crates document: a certificate signed with a private key parses back, verifies under the
  public key of that private key, carries the names and the subject key it was built from, and is
  valid in its interval (to the second, the resolution of the encoding).  \<open>ec\<close> tells the EC keys.
\<close>

definition pki_issues :: "pki \<Rightarrow> (bytes \<Rightarrow> bool) \<Rightarrow> bool" where
  "pki_issues K ec \<longleftrightarrow> (\<forall>cert_pem key_pem ca_public params public_key der.
     key_from_pem K key_pem = Inr ca_public \<longrightarrow> sign_by K cert_pem key_pem params public_key = Inr der \<longrightarrow>
     (\<exists>c. x509_from_der K der = Inr c \<and> verify_signature K c ca_public
        \<and> x_san c = Some (map as_general_name (cp_subject_alt_names params)) \<and> x_public_key c = public_key
        \<and> x_ec_point c = (if ec public_key then Some public_key else None)
        \<and> (\<forall>now. cp_not_before params \<le> now \<and> now + SECOND \<le> cp_not_after params \<longrightarrow> is_valid K c now)))"

lemma from_material_key:
  assumes "from_material K cert_pem key_pem ttl = Inr ca"
  obtains root where "key_from_pem K key_pem = Inr (x_public_key root)" "x509_from_der K (ca_cert_der ca) = Inr root"
    "ca_issuer ca = (cert_pem, key_pem)" "ca_cert_ttl ca = ttl" "0 < ttl"
    "ca_cert_pem ca = cert_pem" "ca_key_pem ca = key_pem" "pem_contents K cert_pem = Inr (ca_cert_der ca)"
  using assms by (auto simp: from_material_def split: if_splits sum.splits)

lemma host_id_from_san:
  "uuid_laws U \<Longrightarrow> x_san c = Some [GnUri (host_san_uri U h)] \<Longrightarrow> host_id_from_cert U c = Inr h"
  unfolding host_id_from_cert_def host_san_uri_def
  by (simp only: option.case find_uri.simps strip_prefix_append Option.bind.simps) (simp add: uuid_laws_def)

lemma issue_verifies:
  assumes "pki_issues K ec" "uuid_laws U" "from_material K cert_pem key_pem ttl = Inr ca"
    and "csr_from_der K csr = Inr public_key" "ec public_key" "ca_issue K U t ca host csr = Inr der"
    and "t - CLOCK_SKEW \<le> now" "now + SECOND \<le> t + ttl"
  shows "verify_host_cert K U now ca der = Inr \<lparr>vh_host_id = host, vh_public_key_sec1 = public_key\<rparr>
    \<and> map_of (cp_distinguished_name (host_cert_params U host t ttl)) OrganizationName = Some (tenant (hyphenated U host))
    \<and> (\<forall>csr'. validate_renewal K U now ca der csr' =
         (case csr_from_der K csr' of
            Inl e \<Rightarrow> Inl (Invalid (''invalid CSR: '' @ e))
          | Inr k \<Rightarrow> if k = public_key then Inr host else Inl (Invalid ''CSR key does not match the current identity'')))"
proof -
  obtain root where root: "key_from_pem K key_pem = Inr (x_public_key root)" "x509_from_der K (ca_cert_der ca) = Inr root"
    "ca_issuer ca = (cert_pem, key_pem)" "ca_cert_ttl ca = ttl"
    using assms(3) by (rule from_material_key)
  have sign: "sign_by K cert_pem key_pem (host_cert_params U host t ttl) public_key = Inr der"
    using assms(4,6) by (auto simp: ca_issue_def root split: sum.splits)
  obtain c where c: "x509_from_der K der = Inr c" "verify_signature K c (x_public_key root)"
    "x_san c = Some [GnUri (host_san_uri U host)]" "x_public_key c = public_key" "x_ec_point c = Some public_key"
    "is_valid K c now"
    using assms(1) [unfolded pki_issues_def, rule_format, OF root(1) sign] assms(5,7,8)
    by (auto simp: host_cert_params_def)
  note host = host_id_from_san [OF assms(2) c(3)]
  have "simple_hex U host = tenant (hyphenated U host)" using assms(2) by (simp add: uuid_laws_def tenant_def)
  then show ?thesis
    by (auto simp: verify_host_cert_def validate_renewal_def ca_root_der_def c root host host_cert_params_def split: sum.splits)
qed

text \<open>
  The identity of a host is the one the coordinator assigned: a certificate issued for a host
  on some request verifies, during its lifetime, as exactly that host with the key of the request;
  its organisation is the tenant whose topics the broker opens to it; and a renewal against it
  succeeds for the same identity exactly when the new request proves the same key.
\<close>

theorem issued_identity_is_assigned:
  assumes "pki_issues K ec" "uuid_laws U" "from_material K cert_pem key_pem ttl = Inr ca"
    and "csr_from_der K csr = Inr public_key" "ec public_key" "ca_issue K U t ca host csr = Inr der"
    and "t - CLOCK_SKEW \<le> now" "now + SECOND \<le> t + ttl"
  shows "verify_host_cert K U now ca der = Inr \<lparr>vh_host_id = host, vh_public_key_sec1 = public_key\<rparr>
    \<and> map_of (cp_distinguished_name (host_cert_params U host t ttl)) OrganizationName = Some (tenant (hyphenated U host))
    \<and> (\<forall>csr'. validate_renewal K U now ca der csr' =
         (case csr_from_der K csr' of
            Inl e \<Rightarrow> Inl (Invalid (''invalid CSR: '' @ e))
          | Inr k \<Rightarrow> if k = public_key then Inr host else Inl (Invalid ''CSR key does not match the current identity'')))"
  using assms by (rule issue_verifies)

definition sample_pki :: pki where
  "sample_pki =
     \<lparr>x509_from_der = (\<lambda>der. if der = [1] then Inr \<lparr>x_san = Some [GnUri (host_san_uri tally_uuid 5)], x_public_key = [7],
          x_ec_point = Some [7]\<rparr>
        else if der = [2] then Inr \<lparr>x_san = None, x_public_key = [9], x_ec_point = None\<rparr> else Inl ''''),
      verify_signature = (\<lambda>c k. k = [9]),
      is_valid = (\<lambda>c now. - CLOCK_SKEW \<le> now \<and> now < 3600 * SECOND),
      csr_from_der = (\<lambda>csr. if csr = [3] then Inr [7] else Inl ''''),
      sign_by = (\<lambda>_ _ params k. if params = host_cert_params tally_uuid 5 0 (3600 * SECOND) \<and> k = [7] then Inr [1] else Inl ''''),
      self_signed = (\<lambda>_ _. Inr [2]), key_from_pem = (\<lambda>_. Inr [9]), pem_of = (\<lambda>_. ''root''),
      pem_contents = (\<lambda>_. Inr [2]), issuer_from_ca_cert_pem = (\<lambda>_. Inr ()), ia5_string = (\<lambda>_. Inr ())\<rparr>"

lemma sample_pki_issues: "pki_issues sample_pki (\<lambda>k. k = [7])"
  by (auto simp: pki_issues_def sample_pki_def host_cert_params_def SECOND_def split: if_splits)

theorem issued_identity_is_assigned_witness:
  "\<exists>ca. from_material sample_pki ''root'' ''key'' (3600 * SECOND) = Inr ca \<and> ca_issue sample_pki tally_uuid 0 ca 5 [3] = Inr [1]
     \<and> verify_host_cert sample_pki tally_uuid 60 ca [1] = Inr \<lparr>vh_host_id = 5, vh_public_key_sec1 = [7]\<rparr>"
proof -
  obtain ca where ca: "from_material sample_pki ''root'' ''key'' (3600 * SECOND) = Inr ca"
    by (simp add: from_material_def sample_pki_def SECOND_def)
  then have "ca_cert_ttl ca = 3600 * SECOND" by (rule from_material_key)
  then have i: "ca_issue sample_pki tally_uuid 0 ca 5 [3] = Inr [1]" by (simp add: ca_issue_def sample_pki_def)
  have k: "csr_from_der sample_pki [3] = Inr [7]" by (simp add: sample_pki_def)
  have "verify_host_cert sample_pki tally_uuid 60 ca [1] = Inr \<lparr>vh_host_id = 5, vh_public_key_sec1 = [7]\<rparr>"
    using issued_identity_is_assigned [OF sample_pki_issues tally_uuid_laws ca k refl i, of 60]
    by (simp add: SECOND_def CLOCK_SKEW_def)
  with ca i show ?thesis by blast
qed

subsection \<open>One CA for all replicas\<close>

fun load_all :: "pki \<Rightarrow> (ca_io \<times> int) list \<Rightarrow> ca_material list \<Rightarrow> (port_error + embedded_ca) list \<times> ca_material list" where
  "load_all K [] table = ([], table)"
| "load_all K ((io, ttl) # runs) table =
     (case load_or_generate K io ttl table of
        (r, table') \<Rightarrow> (case load_all K runs table' of (rs, table'') \<Rightarrow> (r # rs, table'')))"

definition ca_is :: "ca_material \<Rightarrow> embedded_ca \<Rightarrow> bool" where
  "ca_is row ca \<longleftrightarrow> ca_cert_pem ca = cm_cert_pem row \<and> ca_key_pem ca = cm_key_pem row"

lemma load_or_generate_keeps: "load_or_generate K io ttl [row] = (r, table') \<Longrightarrow> table' = [row] \<and> (\<forall>ca. r = Inr ca \<longrightarrow> ca_is row ca)"
  by (auto simp: load_or_generate_def ca_commit_def ca_is_def elim!: from_material_key split: if_splits sum.splits commit.splits)

lemma load_or_generate_first:
  assumes "load_or_generate K io ttl [] = (r, table')"
  shows "(table' = [] \<and> (\<exists>e. r = Inl e)) \<or> (\<exists>row. table' = [row] \<and> (\<forall>ca. r = Inr ca \<longrightarrow> ca_is row ca))"
  using assms
  by (auto simp: load_or_generate_def ca_commit_def ca_is_def ca_generate_def Let_def elim!: from_material_key
      split: if_splits sum.splits commit.splits prod.splits)

lemma load_all_keeps: "load_all K runs [row] = (rs, table') \<Longrightarrow> table' = [row] \<and> (\<forall>ca. Inr ca \<in> set rs \<longrightarrow> ca_is row ca)"
proof (induction runs arbitrary: rs)
  case (Cons run runs)
  obtain io ttl where run: "run = (io, ttl)" by fastforce
  obtain r t where r: "load_or_generate K io ttl [row] = (r, t)" by fastforce
  note keeps = load_or_generate_keeps [OF r]
  obtain rs' where rs': "load_all K runs [row] = (rs', table')" "rs = r # rs'"
    using Cons.prems keeps by (auto simp: run r split: prod.splits)
  then show ?case using Cons.IH [OF rs'(1)] keeps by auto
qed simp

text \<open>
  C28.  All replicas share one CA: however many replicas start against an empty database, in any
  order, with any failures of their statements and commits, and whatever keys they would generate,
  at most one CA row is ever stored, and every replica that starts signs with exactly that row's
  certificate and key.
\<close>

theorem replicas_share_one_ca:
  assumes "load_all K runs [] = (results, table)"
  shows "length table \<le> 1 \<and> (\<forall>ca. Inr ca \<in> set results \<longrightarrow>
    table = [\<lparr>cm_cert_pem = ca_cert_pem ca, cm_key_pem = ca_key_pem ca\<rparr>])"
  using assms
proof (induction runs arbitrary: results)
  case (Cons run runs)
  obtain io ttl where run: "run = (io, ttl)" by fastforce
  obtain r t where r: "load_or_generate K io ttl [] = (r, t)" by fastforce
  obtain rs where rs: "load_all K runs t = (rs, table)" "results = r # rs"
    using Cons.prems by (auto simp: run r split: prod.splits)
  from load_or_generate_first [OF r] show ?case
  proof
    assume "t = [] \<and> (\<exists>e. r = Inl e)"
    then show ?thesis using Cons.IH [of rs] rs by auto
  next
    assume "\<exists>row. t = [row] \<and> (\<forall>ca. r = Inr ca \<longrightarrow> ca_is row ca)"
    then obtain row where row: "t = [row]" "\<And>ca. r = Inr ca \<Longrightarrow> ca_is row ca" by blast
    have "ca_is row ca" if "Inr ca \<in> set results" for ca
      using that rs row load_all_keeps [of K runs row rs table] by auto
    moreover have "table = [row]" using rs row load_all_keeps [of K runs row rs table] by auto
    ultimately show ?thesis by (auto simp: ca_is_def)
  qed
qed simp

definition sample_ca_io :: "string \<Rightarrow> commit \<Rightarrow> ca_io" where
  "sample_ca_io key c = \<lparr>ci_begin = True, ci_lock = True, ci_select = True, ci_insert = True, ci_commit = c,
     ci_gen = Inr key, ci_now = 0\<rparr>"

theorem replicas_share_one_ca_witness:
  "let (results, table) = load_all sample_pki [(sample_ca_io ''k1'' RolledBack, 9), (sample_ca_io ''k2'' CommittedUnacked, 9),
       (sample_ca_io ''k3'' Committed, 9)] []
   in table = [\<lparr>cm_cert_pem = ''root'', cm_key_pem = ''k2''\<rparr>] \<and> (\<exists>ca. results ! 2 = Inr ca \<and> ca_key_pem ca = ''k2'')"
proof -
  define ca :: embedded_ca where "ca = \<lparr>ca_issuer = (''root'', ''k2''), ca_cert_der = [2], ca_cert_pem = ''root'',
    ca_key_pem = ''k2'', ca_cert_ttl = 9\<rparr>"
  let ?row = "\<lparr>cm_cert_pem = ''root'', cm_key_pem = ''k2''\<rparr>"
  note defs = Let_def load_or_generate_def sample_ca_io_def sample_pki_def ca_generate_def from_material_def ca_commit_def ca_def
  have one: "load_or_generate sample_pki (sample_ca_io ''k1'' RolledBack) 9 [] = (Inl (Backend []), [])"
    by (simp add: defs)
  have two: "load_or_generate sample_pki (sample_ca_io ''k2'' CommittedUnacked) 9 [] = (Inl (Backend []), [?row])"
    by (simp add: defs)
  have three: "load_or_generate sample_pki (sample_ca_io ''k3'' Committed) 9 [?row] = (Inr ca, [?row])"
    by (simp add: defs)
  have run: "load_all sample_pki [(sample_ca_io ''k1'' RolledBack, 9), (sample_ca_io ''k2'' CommittedUnacked, 9),
       (sample_ca_io ''k3'' Committed, 9)] [] = ([Inl (Backend []), Inl (Backend []), Inr ca], [?row])"
    by (simp add: one two three)
  show ?thesis using replicas_share_one_ca [OF run] unfolding run by (auto simp: ca_def)
qed

end
