(* ===== verification/Channels.thy ===== *)
theory Channels
  imports Osa_Prelude
begin

text \<open>
  A bounded channel (\<open>tokio::sync::mpsc\<close>) as its two ends see it: everything ever accepted, how much
  the receiver has taken, the capacity, and whether the receiver is gone.  The coordinator keeps its
  operators' channels in a store indexed by the sender it holds.
\<close>

datatype send_result = Sent | SendFull | SendClosed

record 'a chan =
  ch_sent :: "'a list"
  ch_taken :: nat
  ch_cap :: nat
  ch_closed :: bool

definition chan_try_send :: "'a \<Rightarrow> 'a chan \<Rightarrow> send_result \<times> 'a chan" where
  "chan_try_send v ch =
     (if ch_closed ch then (SendClosed, ch)
      else if length (ch_sent ch) - ch_taken ch \<ge> ch_cap ch then (SendFull, ch)
      else (Sent, ch\<lparr>ch_sent := ch_sent ch @ [v]\<rparr>))"

definition chan_recv :: "'a chan \<Rightarrow> 'a option \<times> 'a chan" where
  "chan_recv ch =
     (if ch_taken ch < length (ch_sent ch) then (Some (ch_sent ch ! ch_taken ch), ch\<lparr>ch_taken := Suc (ch_taken ch)\<rparr>)
      else (None, ch))"

definition chan_close :: "'a chan \<Rightarrow> 'a chan" where
  "chan_close ch = ch\<lparr>ch_closed := True\<rparr>"

type_synonym 'a chans = "nat \<Rightarrow> 'a chan"

definition chans_try_send :: "nat \<Rightarrow> 'a \<Rightarrow> 'a chans \<Rightarrow> send_result \<times> 'a chans" where
  "chans_try_send c v chs = (case chan_try_send v (chs c) of (r, ch) \<Rightarrow> (r, chs(c := ch)))"

definition new_chan :: "nat \<Rightarrow> 'a chan" where
  "new_chan cap = \<lparr>ch_sent = [], ch_taken = 0, ch_cap = cap, ch_closed = False\<rparr>"

subsection \<open>Laws\<close>

definition chan_ok :: "'a chan \<Rightarrow> bool" where
  "chan_ok ch \<longleftrightarrow> ch_taken ch \<le> length (ch_sent ch) \<and> length (ch_sent ch) - ch_taken ch \<le> ch_cap ch"

lemma chan_ok_ops:
  "chan_ok (new_chan cap)"
  "chan_ok ch \<Longrightarrow> chan_ok (snd (chan_try_send v ch))"
  "chan_ok ch \<Longrightarrow> chan_ok (snd (chan_recv ch))"
  "chan_ok ch \<Longrightarrow> chan_ok (chan_close ch)"
  by (auto simp: chan_ok_def new_chan_def chan_try_send_def chan_recv_def chan_close_def)

lemma chan_try_send_Sent:
  "chan_try_send v ch = (Sent, ch') \<longleftrightarrow>
     \<not> ch_closed ch \<and> length (ch_sent ch) - ch_taken ch < ch_cap ch \<and> ch' = ch\<lparr>ch_sent := ch_sent ch @ [v]\<rparr>"
  by (auto simp: chan_try_send_def)

lemma chan_try_send_refused: "chan_try_send v ch = (r, ch') \<Longrightarrow> r \<noteq> Sent \<Longrightarrow> ch' = ch"
  by (auto simp: chan_try_send_def split: if_splits)

lemma chans_try_send_cases:
  obtains (sent) "chans_try_send c v chs = (Sent, chs(c := (chs c)\<lparr>ch_sent := ch_sent (chs c) @ [v]\<rparr>))"
    "\<not> ch_closed (chs c)" "length (ch_sent (chs c)) - ch_taken (chs c) < ch_cap (chs c)"
  | (full) "chans_try_send c v chs = (SendFull, chs)" "\<not> ch_closed (chs c)"
    "ch_cap (chs c) \<le> length (ch_sent (chs c)) - ch_taken (chs c)"
  | (closed) "chans_try_send c v chs = (SendClosed, chs)" "ch_closed (chs c)"
  by (cases "ch_closed (chs c)"; cases "ch_cap (chs c) \<le> length (ch_sent (chs c)) - ch_taken (chs c)")
    (auto simp: chans_try_send_def chan_try_send_def not_le)

text \<open>What a send can do to the messages of a channel: nothing, or add its message.\<close>

lemma chans_try_send_sent:
  "ch_sent (snd (chans_try_send c v chs) d) = ch_sent (chs d)
   \<or> (d = c \<and> ch_sent (snd (chans_try_send c v chs) d) = ch_sent (chs d) @ [v])"
  by (cases rule: chans_try_send_cases [of c v chs]) auto

text \<open>A batch of sends: on each channel a part of its messages in order, and all of them unless the
  channel is closed or full at the end.\<close>

lemma chans_fold_sends:
  "\<exists>vs. fold (\<lambda>x chs. snd (chans_try_send (c x) (v x) chs)) xs chs d = (chs d)\<lparr>ch_sent := ch_sent (chs d) @ vs\<rparr>
     \<and> set vs \<subseteq> v ` {x \<in> set xs. c x = d}
     \<and> (ch_closed (chs d) \<or> ch_cap (chs d) \<le> length (ch_sent (chs d) @ vs) - ch_taken (chs d)
        \<or> set vs = v ` {x \<in> set xs. c x = d})"
proof (induction xs arbitrary: chs)
  case Nil
  then show ?case by (intro exI [of _ "[]"]) simp
next
  case (Cons x xs)
  define chs1 where "chs1 = snd (chans_try_send (c x) (v x) chs)"
  obtain vs where vs: "fold (\<lambda>x chs. snd (chans_try_send (c x) (v x) chs)) xs chs1 d = (chs1 d)\<lparr>ch_sent := ch_sent (chs1 d) @ vs\<rparr>"
      "set vs \<subseteq> v ` {x \<in> set xs. c x = d}"
      "ch_closed (chs1 d) \<or> ch_cap (chs1 d) \<le> length (ch_sent (chs1 d) @ vs) - ch_taken (chs1 d)
        \<or> set vs = v ` {x \<in> set xs. c x = d}"
    using Cons.IH [of chs1] by blast
  have run: "fold (\<lambda>x chs. snd (chans_try_send (c x) (v x) chs)) (x # xs) chs d = (chs1 d)\<lparr>ch_sent := ch_sent (chs1 d) @ vs\<rparr>"
    using vs(1) by (simp add: chs1_def)
  show ?case
  proof (cases "c x = d")
    case False
    then have "chs1 d = chs d" by (cases rule: chans_try_send_cases [of "c x" "v x" chs]) (auto simp: chs1_def)
    moreover have "{y \<in> set (x # xs). c y = d} = {y \<in> set xs. c y = d}" using False by auto
    ultimately show ?thesis unfolding run using vs(2,3) by (intro exI [of _ vs]) auto
  next
    case True
    then have all: "v ` {y \<in> set (x # xs). c y = d} = insert (v x) (v ` {y \<in> set xs. c y = d})" by auto
    show ?thesis
    proof (cases rule: chans_try_send_cases [of "c x" "v x" chs])
      case sent
      then have "chs1 d = (chs d)\<lparr>ch_sent := ch_sent (chs d) @ [v x]\<rparr>" using True by (simp add: chs1_def)
      then show ?thesis unfolding run all using vs(2,3) by (intro exI [of _ "v x # vs"]) auto
    next
      case full
      then have "chs1 d = chs d" by (simp add: chs1_def)
      then show ?thesis unfolding run all using vs(2) full True by (intro exI [of _ vs]) auto
    next
      case closed
      then have "chs1 d = chs d" by (simp add: chs1_def)
      then show ?thesis unfolding run all using vs(2) closed True by (intro exI [of _ vs]) auto
    qed
  qed
qed

end
