(* ===== verification/Broker.thy ===== *)
theory Broker
  imports Ca Coord_Session Registries Channels
begin

text \<open>
  \<^verbatim>\<open>osa-coordinator/src/broker.rs\<close>: the coordinator's bridge.  It owns the sessions, the pending jobs and
  the live shells, and turns each message of the broker's link and each command of the gRPC service
  into one step on them.  Operator channels are kept in a store (\<^verbatim>\<open>Channels\<close>); publishing on the link
  appends to \<open>br_published\<close> and may fail.  The CA, the revocation and the epoch store are the ports the
  bridge is given.  Instants are nanoseconds.
\<close>

subsection \<open>State\<close>

type_synonym host_result = "uuid \<times> job_result"

datatype bridge_command =
    CmdDispatch uuid dispatch_msg nat
  | CmdOnlineHosts nat
  | CmdOpenShell uuid string string u32 u32 nat
  | CmdShellInput uuid string bytes
  | CmdShellClose uuid string

record shell_route =
  sr_stream_id :: string
  sr_stream_keys :: session_keys
  sr_sid :: string
  sr_send_seq :: u64
  sr_recv_high :: "u64 option"
  sr_output :: nat

record pending_job =
  pj_events :: nat
  pj_deadline :: int

definition MAX_PENDING_JOBS :: nat where "MAX_PENDING_JOBS = 4096"
definition PENDING_TTL :: int where "PENDING_TTL = 600 * SECOND"
definition ONLINE_AFTER_GAP :: int where "ONLINE_AFTER_GAP = 90 * SECOND"
definition MAX_TRACKED_HOSTS :: nat where "MAX_TRACKED_HOSTS = 50000"
definition BRIDGE_QUEUE :: nat where "BRIDGE_QUEUE = 1024"
definition MAX_INFLIGHT_INVENTORY_UPSERTS :: nat where "MAX_INFLIGHT_INVENTORY_UPSERTS = 16"

text \<open>
  \<open>br_replies\<close>: the answers given to \<open>OnlineHosts\<close>; \<open>br_upserts\<close>: the inventory tasks started, with the
  free slots in \<open>br_slots\<close>; \<open>br_epochs\<close>: the state of the epoch port; \<open>br_opened\<close>: a history of the
  sessions stored (host, session id, epoch), which no code reads.
\<close>

record 'e bridge =
  br_sessions :: session_store
  br_last_seen :: "(string, int) amap"
  br_pending :: "(uuid \<times> string, pending_job) amap"
  br_shells :: "(uuid, shell_route) amap"
  br_results :: "host_result chans"
  br_outputs :: "stream_frame chans"
  br_published :: "(string \<times> bytes) list"
  br_replies :: "(nat \<times> uuid list) list"
  br_upserts :: "(uuid \<times> inventory_msg) list"
  br_slots :: nat
  br_commands_open :: bool
  br_epochs :: 'e
  br_opened :: "(uuid \<times> string \<times> u64) list"

text \<open>What the bridge is built with: the crates, the CA and the ports.\<close>

record bridge_ctx =
  bc_crypto :: crypto
  bc_codecs :: codecs
  bc_uuid :: uuid_lib
  bc_pki :: pki
  bc_show_hs :: "hs_error \<Rightarrow> string"
  bc_ca :: embedded_ca
  bc_has_sink :: bool

text \<open>What one step meets: the clocks, whether each publish is taken, the randomness of the response,
  the answer of the revocation store and the effect of the epoch store.\<close>

record 'e bridge_env =
  be_now :: int
  be_utc :: int
  be_pub1 :: bool
  be_pub2 :: bool
  be_seed :: "key option"
  be_is_revoked :: "uuid \<Rightarrow> port_error + bool"
  be_admit :: "uuid \<Rightarrow> u64 \<Rightarrow> 'e \<Rightarrow> (port_error + bool) \<times> 'e"

definition link_publish :: "bool \<Rightarrow> string \<Rightarrow> bytes \<Rightarrow> 'e bridge \<Rightarrow> bool \<times> 'e bridge" where
  "link_publish ok topic payload br =
     (if ok then (True, br\<lparr>br_published := br_published br @ [(topic, payload)]\<rparr>) else (False, br))"

subsection \<open>Shell routes\<close>

definition eof_frame :: stream_frame where
  "eof_frame = \<lparr>sf_data = [], sf_eof = True\<rparr>"

definition route_seal_downlink ::
  "crypto \<Rightarrow> codecs \<Rightarrow> string \<Rightarrow> stream_frame \<Rightarrow> shell_route \<Rightarrow> bytes \<times> shell_route" where
  "route_seal_downlink C P host_str frame route =
     (let seq = sr_send_seq route;
          route' = route\<lparr>sr_send_seq := sr_send_seq route + 1\<rparr>;
          env = seal_envelope C (sr_stream_keys route) CoordToAgent host_str (sr_sid route) seq KIND_STREAM
                  (encode_msg (sf_codec P) frame)
      in (encode_msg (env_codec P) env, route'))"

definition route_authenticate :: "crypto \<Rightarrow> shell_route \<Rightarrow> envelope \<Rightarrow> bytes option \<times> shell_route" where
  "route_authenticate C route env =
     (case open_envelope C (sr_stream_keys route) AgentToCoord env of
        None \<Rightarrow> (None, route)
      | Some plaintext \<Rightarrow>
          if (case sr_recv_high route of None \<Rightarrow> False | Some h \<Rightarrow> env_seq env \<le> h) then (None, route)
          else (Some plaintext, route\<lparr>sr_recv_high := Some (env_seq env)\<rparr>))"

definition route_open_uplink :: "crypto \<Rightarrow> codecs \<Rightarrow> envelope \<Rightarrow> shell_route \<Rightarrow> stream_frame option \<times> shell_route" where
  "route_open_uplink C P env route =
     (case route_authenticate C route env of
        (None, route') \<Rightarrow> (None, route')
      | (Some plaintext, route') \<Rightarrow> (decode_msg (sf_codec P) plaintext, route'))"

subsection \<open>Sessions\<close>

definition error_result :: "string \<Rightarrow> string \<Rightarrow> job_result" where
  "error_result job_id msg =
     \<lparr>jr_job_id = job_id,
      jr_body = Some (Outcome \<lparr>jo_terminal = Some (TermError msg), jo_output_truncated = False, jo_timed_out = False\<rparr>)\<rparr>"

definition handle_client_hello ::
  "bridge_ctx \<Rightarrow> 'e bridge_env \<Rightarrow> string \<Rightarrow> bytes \<Rightarrow> 'e bridge \<Rightarrow> uuid option \<times> 'e bridge" where
  "handle_client_hello X E tnt payload br =
     (let C = bc_crypto X; P = bc_codecs X; U = bc_uuid X in
      case decode_msg (ch_codec P) payload of
        None \<Rightarrow> (None, br)
      | Some hello \<Rightarrow>
      if length (ch_client_eph hello) \<noteq> 32 then (None, br)
      else let client_eph = of_be_bytes (ch_client_eph hello) in
      if ch_sid hello = [] \<or> length (ch_sid hello) > 128 then (None, br)
      else case verify_host_cert (bc_pki X) U (be_utc E) (bc_ca X) (ch_cert_der hello) of
        Inl _ \<Rightarrow> (None, br)
      | Inr verified \<Rightarrow>
      let host = vh_host_id verified; host_str = hyphenated U host in
      if tenant host_str \<noteq> tnt then (None, br)
      else if (case store_get (br_sessions br) host of None \<Rightarrow> False | Some s \<Rightarrow> ses_sid s = ch_sid hello) then (None, br)
      else case be_is_revoked E host of
        Inl _ \<Rightarrow> (None, br)
      | Inr True \<Rightarrow> (None, br)
      | Inr False \<Rightarrow>
      (case respond_handshake C (bc_show_hs X) (be_seed E) (bc_ca X) (as_bytes (ch_sid hello)) (ch_epoch hello)
             client_eph (ch_sig hello) (vh_public_key_sec1 verified) (ch_cert_der hello) of
        Inl _ \<Rightarrow> (None, br)
      | Inr resp \<Rightarrow>
      (case be_admit E host (ch_epoch hello) (br_epochs br) of
        (Inl _, ep) \<Rightarrow> (None, br\<lparr>br_epochs := ep\<rparr>)
      | (Inr False, ep) \<Rightarrow> (None, br\<lparr>br_epochs := ep\<rparr>)
      | (Inr True, ep) \<Rightarrow>
      (case store_insert (br_sessions br) host (ch_sid hello) (sr_keys resp) of
        (False, _) \<Rightarrow> (None, br\<lparr>br_epochs := ep\<rparr>)
      | (True, sessions) \<Rightarrow>
      let br1 = br\<lparr>br_epochs := ep, br_sessions := sessions,
                   br_opened := br_opened br @ [(host, ch_sid hello, ch_epoch hello)]\<rparr>;
          server_hello = \<lparr>sh_sid = ch_sid hello, sh_server_eph = be_bytes 32 (sr_server_eph resp), sh_sig = sr_sig resp\<rparr>
      in (case link_publish (be_pub1 E) (hs_down host_str) (encode_msg (sh_codec P) server_hello) br1 of
            (False, br2) \<Rightarrow> (None, br2)
          | (True, br2) \<Rightarrow>
              (case store_get (br_sessions br2) host of
                 None \<Rightarrow> (None, br2)
               | Some session \<Rightarrow>
                   (case seal_downlink C P host_str CTRL_SESSION_READY session of
                      (beacon, session') \<Rightarrow>
                        let br3 = br2\<lparr>br_sessions := store_put (br_sessions br2) host session'\<rparr>
                        in (Some host, snd (link_publish (be_pub2 E) (ctrl_down host_str) beacon br3)))))))))"

definition handle_ctrl_ack :: "bridge_ctx \<Rightarrow> bytes \<Rightarrow> 'e bridge \<Rightarrow> 'e bridge" where
  "handle_ctrl_ack X payload br =
     (case decode_msg (env_codec (bc_codecs X)) payload of
        None \<Rightarrow> br
      | Some env \<Rightarrow>
          (case parse_uuid (bc_uuid X) (env_host_id env) of
             None \<Rightarrow> br
           | Some host \<Rightarrow>
               (case store_get (br_sessions br) host of
                  None \<Rightarrow> br
                | Some session \<Rightarrow>
                    if ses_sid session \<noteq> env_sid env then br
                    else (case open_uplink (bc_crypto X) session env of
                            (_, session') \<Rightarrow> br\<lparr>br_sessions := store_put (br_sessions br) host session'\<rparr>))))"

subsection \<open>Commands\<close>

definition send_result_event :: "nat \<Rightarrow> host_result \<Rightarrow> 'e bridge \<Rightarrow> send_result \<times> 'e bridge" where
  "send_result_event c v br =
     (case chans_try_send c v (br_results br) of (r, chs) \<Rightarrow> (r, br\<lparr>br_results := chs\<rparr>))"

definition send_output :: "nat \<Rightarrow> stream_frame \<Rightarrow> 'e bridge \<Rightarrow> send_result \<times> 'e bridge" where
  "send_output c v br = (case chans_try_send c v (br_outputs br) of (r, chs) \<Rightarrow> (r, br\<lparr>br_outputs := chs\<rparr>))"

definition open_shell ::
  "bridge_ctx \<Rightarrow> 'e bridge_env \<Rightarrow> uuid \<Rightarrow> string \<Rightarrow> string \<Rightarrow> u32 \<Rightarrow> u32 \<Rightarrow> nat \<Rightarrow> 'e bridge \<Rightarrow> 'e bridge" where
  "open_shell X E host stream_id user rows cols out br =
     (let C = bc_crypto X; P = bc_codecs X; host_str = hyphenated (bc_uuid X) host in
      case store_get (br_sessions br) host of
        None \<Rightarrow> snd (send_output out eof_frame br)
      | Some session \<Rightarrow>
          let stream_keys = derive_stream_keys C session (as_bytes stream_id);
              sid = ses_sid session;
              dispatch = \<lparr>dm_job_id = stream_id, dm_kind = ''shell'', dm_run_as = user,
                          dm_params = encode_msg (sp_codec P) \<lparr>sp_rows = rows, sp_cols = cols\<rparr>\<rparr>
          in (case seal_downlink C P host_str (encode_msg (dm_codec P) dispatch) session of
                (sealed, session') \<Rightarrow>
                  let br1 = br\<lparr>br_sessions := store_put (br_sessions br) host session'\<rparr> in
                  (case link_publish (be_pub1 E) (dispatch_down host_str) sealed br1 of
                     (False, br2) \<Rightarrow> snd (send_output out eof_frame br2)
                   | (True, br2) \<Rightarrow>
                       br2\<lparr>br_shells := AList.update host
                         \<lparr>sr_stream_id = stream_id, sr_stream_keys = stream_keys, sr_sid = sid, sr_send_seq = 0,
                          sr_recv_high = None, sr_output = out\<rparr> (br_shells br2)\<rparr>)))"

definition shell_input :: "bridge_ctx \<Rightarrow> 'e bridge_env \<Rightarrow> uuid \<Rightarrow> string \<Rightarrow> bytes \<Rightarrow> 'e bridge \<Rightarrow> 'e bridge" where
  "shell_input X E host stream_id data br =
     (let host_str = hyphenated (bc_uuid X) host in
      case map_of (br_shells br) host of
        None \<Rightarrow> br
      | Some route \<Rightarrow>
          if sr_stream_id route \<noteq> stream_id then br
          else (case route_seal_downlink (bc_crypto X) (bc_codecs X) host_str \<lparr>sf_data = data, sf_eof = False\<rparr> route of
                  (sealed, route') \<Rightarrow>
                    let br1 = br\<lparr>br_shells := AList.update host route' (br_shells br)\<rparr> in
                    (case link_publish (be_pub1 E) (stream_down host_str) sealed br1 of
                       (True, br2) \<Rightarrow> br2
                     | (False, br2) \<Rightarrow> br2\<lparr>br_shells := AList.delete host (br_shells br2)\<rparr>)))"

definition close_shell_route :: "bridge_ctx \<Rightarrow> 'e bridge_env \<Rightarrow> uuid \<Rightarrow> shell_route \<Rightarrow> 'e bridge \<Rightarrow> 'e bridge" where
  "close_shell_route X E host route br =
     (let host_str = hyphenated (bc_uuid X) host in
      case route_seal_downlink (bc_crypto X) (bc_codecs X) host_str eof_frame route of
        (sealed, route') \<Rightarrow>
          snd (link_publish (be_pub1 E) (stream_down host_str) sealed
            (br\<lparr>br_shells := AList.update host route' (br_shells br)\<rparr>)))"

definition shell_close :: "bridge_ctx \<Rightarrow> 'e bridge_env \<Rightarrow> uuid \<Rightarrow> string \<Rightarrow> 'e bridge \<Rightarrow> 'e bridge" where
  "shell_close X E host stream_id br =
     (case map_of (br_shells br) host of
        None \<Rightarrow> br
      | Some route \<Rightarrow>
          if sr_stream_id route \<noteq> stream_id then br
          else let br1 = close_shell_route X E host route br
               in br1\<lparr>br_shells := AList.delete host (br_shells br1)\<rparr>)"

definition dispatch_job :: "bridge_ctx \<Rightarrow> 'e bridge_env \<Rightarrow> uuid \<Rightarrow> dispatch_msg \<Rightarrow> nat \<Rightarrow> 'e bridge \<Rightarrow> 'e bridge" where
  "dispatch_job X E host dispatch events br =
     (let C = bc_crypto X; P = bc_codecs X; job_id = dm_job_id dispatch; key = (host, job_id);
          refuse = (\<lambda>msg br. snd (send_result_event events (host, error_result job_id msg) br)) in
      if map_of (br_pending br) key \<noteq> None then refuse ''duplicate job_id'' br
      else if length (br_pending br) \<ge> MAX_PENDING_JOBS then refuse ''coordinator at job capacity'' br
      else let host_str = hyphenated (bc_uuid X) host in
      case store_get (br_sessions br) host of
        None \<Rightarrow> refuse ''host is not connected'' br
      | Some session \<Rightarrow>
          (case seal_downlink C P host_str (encode_msg (dm_codec P) dispatch) session of
             (sealed, session') \<Rightarrow>
               let br1 = br\<lparr>br_sessions := store_put (br_sessions br) host session'\<rparr> in
               (case link_publish (be_pub1 E) (dispatch_down host_str) sealed br1 of
                  (False, br2) \<Rightarrow> refuse ''failed to reach the host'' br2
                | (True, br2) \<Rightarrow>
                    br2\<lparr>br_pending := AList.update key \<lparr>pj_events = events, pj_deadline = be_now E + PENDING_TTL\<rparr>
                      (br_pending br2)\<rparr>)))"

fun handle_command :: "bridge_ctx \<Rightarrow> 'e bridge_env \<Rightarrow> bridge_command \<Rightarrow> 'e bridge \<Rightarrow> 'e bridge" where
  "handle_command X E (CmdDispatch host dispatch events) br = dispatch_job X E host dispatch events br"
| "handle_command X E (CmdOnlineHosts reply) br =
     br\<lparr>br_replies := br_replies br @ [(reply, store_host_ids (br_sessions br))]\<rparr>"
| "handle_command X E (CmdOpenShell host stream_id user rows cols out) br =
     open_shell X E host stream_id user rows cols out br"
| "handle_command X E (CmdShellInput host stream_id data) br = shell_input X E host stream_id data br"
| "handle_command X E (CmdShellClose host stream_id) br = shell_close X E host stream_id br"

subsection \<open>Uplinks\<close>

definition handle_stream_up :: "bridge_ctx \<Rightarrow> 'e bridge_env \<Rightarrow> string \<Rightarrow> bytes \<Rightarrow> 'e bridge \<Rightarrow> 'e bridge" where
  "handle_stream_up X E tnt payload br =
     (case parse_uuid (bc_uuid X) tnt of
        None \<Rightarrow> br
      | Some host \<Rightarrow>
          (case map_of (br_shells br) host of
             None \<Rightarrow> br
           | Some route \<Rightarrow>
               (case decode_msg (env_codec (bc_codecs X)) payload of
                  None \<Rightarrow> br
                | Some env \<Rightarrow>
                    (case route_open_uplink (bc_crypto X) (bc_codecs X) env route of
                       (r, route') \<Rightarrow>
                         let br1 = br\<lparr>br_shells := AList.update host route' (br_shells br)\<rparr>;
                             finish = (\<lambda>b. let b' = close_shell_route X E host route' b
                                           in b'\<lparr>br_shells := AList.delete host (br_shells b')\<rparr>) in
                         (case r of
                            None \<Rightarrow> br1
                          | Some frame \<Rightarrow>
                              (case send_output (sr_output route') frame br1 of
                                 (Sent, br2) \<Rightarrow> if sf_eof frame then finish br2 else br2
                               | (SendFull, br2) \<Rightarrow> br2
                               | (SendClosed, br2) \<Rightarrow> finish br2))))))"

definition handle_result :: "bridge_ctx \<Rightarrow> string \<Rightarrow> bytes \<Rightarrow> 'e bridge \<Rightarrow> 'e bridge" where
  "handle_result X tnt payload br =
     (case parse_uuid (bc_uuid X) tnt of
        None \<Rightarrow> br
      | Some host \<Rightarrow>
          (case decode_msg (env_codec (bc_codecs X)) payload of
             None \<Rightarrow> br
           | Some env \<Rightarrow>
               (case store_get (br_sessions br) host of
                  None \<Rightarrow> br
                | Some session \<Rightarrow>
                    (case open_uplink (bc_crypto X) session env of
                       (r, session') \<Rightarrow>
                         let br1 = br\<lparr>br_sessions := store_put (br_sessions br) host session'\<rparr> in
                         (case r of
                            None \<Rightarrow> br1
                          | Some plaintext \<Rightarrow>
                              (case decode_msg (jr_codec (bc_codecs X)) plaintext of
                                 None \<Rightarrow> br1
                               | Some result \<Rightarrow>
                                   let key = (host, jr_job_id result) in
                                   (case map_of (br_pending br1) key of
                                      None \<Rightarrow> br1
                                    | Some job \<Rightarrow>
                                        let terminal = (case jr_body result of Some (Outcome _) \<Rightarrow> True | _ \<Rightarrow> False) in
                                        (case send_result_event (pj_events job) (host, result) br1 of
                                           (Sent, br2) \<Rightarrow>
                                             if terminal then br2\<lparr>br_pending := AList.delete key (br_pending br2)\<rparr> else br2
                                         | (SendClosed, br2) \<Rightarrow> br2\<lparr>br_pending := AList.delete key (br_pending br2)\<rparr>
                                         | (SendFull, br2) \<Rightarrow> br2\<lparr>br_pending := AList.delete key (br_pending br2)\<rparr>)))))))) "

definition decode_inventory ::
  "bridge_ctx \<Rightarrow> string \<Rightarrow> bytes \<Rightarrow> 'e bridge \<Rightarrow> (uuid \<times> inventory_msg) option \<times> 'e bridge" where
  "decode_inventory X tnt payload br =
     (case parse_uuid (bc_uuid X) tnt of
        None \<Rightarrow> (None, br)
      | Some host \<Rightarrow>
          (case decode_msg (env_codec (bc_codecs X)) payload of
             None \<Rightarrow> (None, br)
           | Some env \<Rightarrow>
               (case store_get (br_sessions br) host of
                  None \<Rightarrow> (None, br)
                | Some session \<Rightarrow>
                    (case open_uplink (bc_crypto X) session env of
                       (r, session') \<Rightarrow>
                         (map_option (Pair host) (Option.bind r (decode_msg (im_codec (bc_codecs X)))),
                          br\<lparr>br_sessions := store_put (br_sessions br) host session'\<rparr>)))))"

subsection \<open>Pending jobs and presence\<close>

text \<open>\<open>pending.retain\<close>: the entries that go are told why, each on its own channel.\<close>

definition drop_jobs ::
  "(uuid \<times> string \<Rightarrow> pending_job \<Rightarrow> bool) \<Rightarrow> string \<Rightarrow> 'e bridge \<Rightarrow> 'e bridge" where
  "drop_jobs gone msg br =
     (let dead = filter (\<lambda>(k, job). gone k job) (br_pending br) in
      br\<lparr>br_pending := filter (\<lambda>(k, job). \<not> gone k job) (br_pending br),
         br_results := fold (\<lambda>((h, job_id), job) chs. snd (chans_try_send (pj_events job) (h, error_result job_id msg) chs))
           dead (br_results br)\<rparr>)"

definition purge_host_jobs :: "uuid \<Rightarrow> 'e bridge \<Rightarrow> 'e bridge" where
  "purge_host_jobs host br = drop_jobs (\<lambda>(h, _) _. h = host) ''host reconnected; job interrupted'' br"

definition reap_stale_jobs :: "int \<Rightarrow> 'e bridge \<Rightarrow> 'e bridge" where
  "reap_stale_jobs now br = drop_jobs (\<lambda>_ job. now \<ge> pj_deadline job) ''no result from host (timed out)'' br"

definition record_heartbeat :: "string \<Rightarrow> int \<Rightarrow> nat \<Rightarrow> (string, int) amap \<Rightarrow> bool \<times> (string, int) amap" where
  "record_heartbeat host now cap last_seen =
     (let live = filter (\<lambda>(_, t). max 0 (now - t) \<le> ONLINE_AFTER_GAP) last_seen in
      if map_of live host \<noteq> None then (False, AList.update host now live)
      else if length live \<ge> cap then (False, live)
      else (True, AList.update host now live))"

subsection \<open>The loop\<close>

definition handle_message :: "bridge_ctx \<Rightarrow> 'e bridge_env \<Rightarrow> string \<Rightarrow> bytes \<Rightarrow> 'e bridge \<Rightarrow> 'e bridge" where
  "handle_message X E topic payload br =
     (case tenant_from_heartbeat topic of
        Some tnt \<Rightarrow> br\<lparr>br_last_seen := snd (record_heartbeat tnt (be_now E) MAX_TRACKED_HOSTS (br_last_seen br))\<rparr>
      | None \<Rightarrow>
      (case tenant_from_hs_up topic of
        Some tnt \<Rightarrow>
          (case handle_client_hello X E tnt payload br of
             (Some host, br1) \<Rightarrow>
               let br2 = purge_host_jobs host br1 in br2\<lparr>br_shells := AList.delete host (br_shells br2)\<rparr>
           | (None, br1) \<Rightarrow> br1)
      | None \<Rightarrow>
      if tenant_from_ctrl_up topic \<noteq> None then handle_ctrl_ack X payload br
      else (case tenant_from_result_up topic of
        Some tnt \<Rightarrow> handle_result X tnt payload br
      | None \<Rightarrow>
      (case tenant_from_stream_up topic of
        Some tnt \<Rightarrow> handle_stream_up X E tnt payload br
      | None \<Rightarrow>
      (case tenant_from_inventory_up topic of
        Some tnt \<Rightarrow>
          if \<not> bc_has_sink X then br
          else (case decode_inventory X tnt payload br of
                  (None, br1) \<Rightarrow> br1
                | (Some hi, br1) \<Rightarrow>
                    if br_slots br1 = 0 then br1
                    else br1\<lparr>br_slots := br_slots br1 - 1, br_upserts := br_upserts br1 @ [hi]\<rparr>)
      | None \<Rightarrow> br)))))"

text \<open>One turn of the select loop, and what the operators and the started tasks do in between.\<close>

datatype 'e bridge_event =
    Message "'e bridge_env" string bytes
  | Command "'e bridge_env" bridge_command
  | CommandsGone
  | Sweep int
  | UpsertDone nat
  | ResultTaken nat
  | ResultClosed nat
  | OutputTaken nat
  | OutputClosed nat

fun bridge_step :: "bridge_ctx \<Rightarrow> 'e bridge_event \<Rightarrow> 'e bridge \<Rightarrow> 'e bridge" where
  "bridge_step X (Message E topic payload) br = handle_message X E topic payload br"
| "bridge_step X (Command E cmd) br = (if br_commands_open br then handle_command X E cmd br else br)"
| "bridge_step X CommandsGone br = br\<lparr>br_commands_open := False\<rparr>"
| "bridge_step X (Sweep now) br = reap_stale_jobs now br"
| "bridge_step X (UpsertDone i) br =
     (if i < length (br_upserts br)
      then br\<lparr>br_slots := br_slots br + 1, br_upserts := take i (br_upserts br) @ drop (Suc i) (br_upserts br)\<rparr>
      else br)"
| "bridge_step X (ResultTaken c) br = br\<lparr>br_results := (br_results br)(c := snd (chan_recv (br_results br c)))\<rparr>"
| "bridge_step X (ResultClosed c) br = br\<lparr>br_results := (br_results br)(c := chan_close (br_results br c))\<rparr>"
| "bridge_step X (OutputTaken c) br = br\<lparr>br_outputs := (br_outputs br)(c := snd (chan_recv (br_outputs br c)))\<rparr>"
| "bridge_step X (OutputClosed c) br = br\<lparr>br_outputs := (br_outputs br)(c := chan_close (br_outputs br c))\<rparr>"

definition run_bridge :: "bridge_ctx \<Rightarrow> 'e bridge_event list \<Rightarrow> 'e bridge \<Rightarrow> 'e bridge" where
  "run_bridge X evs br = fold (bridge_step X) evs br"

definition bridge_init :: "host_result chans \<Rightarrow> stream_frame chans \<Rightarrow> 'e \<Rightarrow> 'e bridge" where
  "bridge_init results outputs epochs =
     \<lparr>br_sessions = store_new, br_last_seen = [], br_pending = [], br_shells = [], br_results = results,
      br_outputs = outputs, br_published = [], br_replies = [], br_upserts = [],
      br_slots = MAX_INFLIGHT_INVENTORY_UPSERTS, br_commands_open = True, br_epochs = epochs, br_opened = []\<rparr>"

text \<open>The receive thread: forward what the link delivers into the bounded queue, or shed it.\<close>

datatype notification = Forward string bytes | OtherNotification | LinkError string

fun forward_events :: "notification list \<Rightarrow> u64 \<Rightarrow> (string \<times> bytes) chan \<Rightarrow> u64 \<times> (string \<times> bytes) chan" where
  "forward_events [] shed q = (shed, q)"
| "forward_events (Forward topic payload # ns) shed q =
     (case chan_try_send (topic, payload) q of
        (Sent, q') \<Rightarrow> forward_events ns shed q'
      | (SendFull, q') \<Rightarrow> forward_events ns (shed + 1) q'
      | (SendClosed, q') \<Rightarrow> (shed, q'))"
| "forward_events (OtherNotification # ns) shed q = forward_events ns shed q"
| "forward_events (LinkError e # ns) shed q = (shed, q)"

subsection \<open>A route follows the channel contracts\<close>

interpretation route_rx: replay_guard "route_authenticate C"
    "\<lambda>route. open_envelope C (sr_stream_keys route) AgentToCoord" sr_recv_high
  by unfold_locales (auto simp: route_authenticate_def above_def not_less split: option.splits)

interpretation route_tx: nonce_source "route_seal_downlink C P host_str" sr_send_seq
    "\<lambda>route frame seq. encode_msg (env_codec P)
      (seal_envelope C (sr_stream_keys route) CoordToAgent host_str (sr_sid route) seq KIND_STREAM
        (encode_msg (sf_codec P) frame))"
  by unfold_locales (simp_all add: route_seal_downlink_def Let_def fun_eq_iff)

end
