(* ===== verification/Broker_Safety.thy ===== *)
theory Broker_Safety
  imports Broker
begin

text \<open>
  What the bridge of \<^verbatim>\<open>Broker\<close> guarantees: who gets a session, which bounds its maps keep over any
  sequence of events, where results and shell frames go, and that no operator waits forever.
\<close>

subsection \<open>The pieces of a step\<close>

lemma link_publish_simps [simp]:
  "br_sessions (snd (link_publish ok t p br)) = br_sessions br" "br_last_seen (snd (link_publish ok t p br)) = br_last_seen br"
  "br_pending (snd (link_publish ok t p br)) = br_pending br" "br_shells (snd (link_publish ok t p br)) = br_shells br"
  "br_results (snd (link_publish ok t p br)) = br_results br" "br_outputs (snd (link_publish ok t p br)) = br_outputs br"
  "br_upserts (snd (link_publish ok t p br)) = br_upserts br" "br_slots (snd (link_publish ok t p br)) = br_slots br"
  "br_epochs (snd (link_publish ok t p br)) = br_epochs br" "br_opened (snd (link_publish ok t p br)) = br_opened br"
  "br_commands_open (snd (link_publish ok t p br)) = br_commands_open br" "fst (link_publish ok t p br) = ok"
  by (simp_all add: link_publish_def)

lemma send_result_event_simps [simp]:
  "br_sessions (snd (send_result_event c v br)) = br_sessions br" "br_last_seen (snd (send_result_event c v br)) = br_last_seen br"
  "br_pending (snd (send_result_event c v br)) = br_pending br" "br_shells (snd (send_result_event c v br)) = br_shells br"
  "br_upserts (snd (send_result_event c v br)) = br_upserts br" "br_slots (snd (send_result_event c v br)) = br_slots br"
  "br_epochs (snd (send_result_event c v br)) = br_epochs br" "br_opened (snd (send_result_event c v br)) = br_opened br"
  "br_outputs (snd (send_result_event c v br)) = br_outputs br"
  "br_results (snd (send_result_event c v br)) = snd (chans_try_send c v (br_results br))"
  "fst (send_result_event c v br) = fst (chans_try_send c v (br_results br))"
  by (simp_all add: send_result_event_def case_prod_unfold)

lemma send_output_simps [simp]:
  "br_sessions (snd (send_output c v br)) = br_sessions br" "br_last_seen (snd (send_output c v br)) = br_last_seen br"
  "br_pending (snd (send_output c v br)) = br_pending br" "br_shells (snd (send_output c v br)) = br_shells br"
  "br_upserts (snd (send_output c v br)) = br_upserts br" "br_slots (snd (send_output c v br)) = br_slots br"
  "br_epochs (snd (send_output c v br)) = br_epochs br" "br_opened (snd (send_output c v br)) = br_opened br"
  "br_results (snd (send_output c v br)) = br_results br"
  "br_outputs (snd (send_output c v br)) = snd (chans_try_send c v (br_outputs br))"
  "fst (send_output c v br) = fst (chans_try_send c v (br_outputs br))"
  by (simp_all add: send_output_def case_prod_unfold)

subsection \<open>Who gets a session\<close>

text \<open>Every check a \<open>ClientHello\<close> has to pass.\<close>

definition hello_accepted ::
  "bridge_ctx \<Rightarrow> 'e bridge_env \<Rightarrow> string \<Rightarrow> bytes \<Rightarrow> 'e bridge \<Rightarrow> client_hello \<Rightarrow> verified_host \<Rightarrow> server_response \<Rightarrow> 'e \<Rightarrow> bool" where
  "hello_accepted X E tnt payload br hello verified resp ep \<longleftrightarrow>
     decode_msg (ch_codec (bc_codecs X)) payload = Some hello \<and> length (ch_client_eph hello) = 32
     \<and> ch_sid hello \<noteq> [] \<and> length (ch_sid hello) \<le> 128
     \<and> verify_host_cert (bc_pki X) (bc_uuid X) (be_utc E) (bc_ca X) (ch_cert_der hello) = Inr verified
     \<and> tenant (hyphenated (bc_uuid X) (vh_host_id verified)) = tnt
     \<and> (\<forall>s. store_get (br_sessions br) (vh_host_id verified) = Some s \<longrightarrow> ses_sid s \<noteq> ch_sid hello)
     \<and> be_is_revoked E (vh_host_id verified) = Inr False
     \<and> respond_handshake (bc_crypto X) (bc_show_hs X) (be_seed E) (bc_ca X) (as_bytes (ch_sid hello)) (ch_epoch hello)
         (of_be_bytes (ch_client_eph hello)) (ch_sig hello) (vh_public_key_sec1 verified) (ch_cert_der hello) = Inr resp
     \<and> be_admit E (vh_host_id verified) (ch_epoch hello) (br_epochs br) = (Inr True, ep)"

lemma client_hello_cases:
  assumes "handle_client_hello X E tnt payload br = (r, br')"
  obtains (dropped) ep where "r = None" "br' = br\<lparr>br_epochs := ep\<rparr>"
      "ep = br_epochs br \<or> (\<exists>h e a. be_admit E h e (br_epochs br) = (a, ep))"
  | (opened) hello verified resp ep sessions where "hello_accepted X E tnt payload br hello verified resp ep"
      "store_insert (br_sessions br) (vh_host_id verified) (ch_sid hello) (sr_keys resp) = (True, sessions)"
      "r = (if be_pub1 E then Some (vh_host_id verified) else None)"
      "br' = br\<lparr>br_epochs := ep, br_opened := br_opened br @ [(vh_host_id verified, ch_sid hello, ch_epoch hello)],
        br_sessions := (if be_pub1 E then store_put sessions (vh_host_id verified)
          \<lparr>ses_sid = ch_sid hello, ses_keys = sr_keys resp, ses_send_seq = 1, ses_recv_high = None\<rparr> else sessions),
        br_published := br_published br'\<rparr>"
proof (cases "\<exists>ep. r = None \<and> br' = br\<lparr>br_epochs := ep\<rparr> \<and> (ep = br_epochs br \<or> (\<exists>h e a. be_admit E h e (br_epochs br) = (a, ep)))")
  case True
  then show ?thesis using dropped by blast
next
  case False
  let ?P = "bc_codecs X" and ?U = "bc_uuid X"
  have same: "(r, br') \<noteq> (None, br)" using False by (metis (mono_tags) bridge.surjective bridge.update_convs(12) prod.inject)
  obtain hello where hello: "decode_msg (ch_codec ?P) payload = Some hello" "length (ch_client_eph hello) = 32"
      "ch_sid hello \<noteq> []" "length (ch_sid hello) \<le> 128"
    using assms same by (fastforce simp: handle_client_hello_def Let_def split: option.splits if_splits)
  obtain verified where ver: "verify_host_cert (bc_pki X) ?U (be_utc E) (bc_ca X) (ch_cert_der hello) = Inr verified"
      "tenant (hyphenated ?U (vh_host_id verified)) = tnt"
      "\<not> (case store_get (br_sessions br) (vh_host_id verified) of None \<Rightarrow> False | Some s \<Rightarrow> ses_sid s = ch_sid hello)"
    using assms same hello by (simp add: handle_client_hello_def Let_def split: sum.splits if_split_asm)
  have rev: "be_is_revoked E (vh_host_id verified) = Inr False"
    using assms same hello ver by (simp add: handle_client_hello_def Let_def split: sum.splits bool.splits if_splits)
  obtain resp where resp: "respond_handshake (bc_crypto X) (bc_show_hs X) (be_seed E) (bc_ca X) (as_bytes (ch_sid hello))
      (ch_epoch hello) (of_be_bytes (ch_client_eph hello)) (ch_sig hello) (vh_public_key_sec1 verified) (ch_cert_der hello) = Inr resp"
    using assms same hello ver rev by (simp add: handle_client_hello_def Let_def split: sum.splits)
  obtain a ep where a: "be_admit E (vh_host_id verified) (ch_epoch hello) (br_epochs br) = (a, ep)" by fastforce
  have dropped': "(r, br') \<noteq> (None, br\<lparr>br_epochs := ep\<rparr>)" using False a by blast
  have adm: "a = Inr True"
    using assms dropped' hello ver rev resp a
    by (simp add: handle_client_hello_def Let_def split: sum.splits bool.splits)
  obtain sessions where ins: "store_insert (br_sessions br) (vh_host_id verified) (ch_sid hello) (sr_keys resp) = (True, sessions)"
    using assms dropped' hello ver rev resp a adm
    by (cases "store_insert (br_sessions br) (vh_host_id verified) (ch_sid hello) (sr_keys resp)")
      (simp add: handle_client_hello_def Let_def split: bool.splits)
  have acc: "hello_accepted X E tnt payload br hello verified resp ep"
    using hello ver rev resp a adm by (auto simp: hello_accepted_def)
  show ?thesis
    by (rule opened [OF acc ins])
      (use assms hello ver rev resp a adm ins store_get_insert [OF ins] in
        \<open>auto simp: handle_client_hello_def Let_def link_publish_def seal_downlink_def split: if_splits\<close>)
qed

lemma client_hello_complete:
  assumes "hello_accepted X E tnt payload br hello verified resp ep" "be_pub1 E"
    and "store_get (br_sessions br) (vh_host_id verified) \<noteq> None \<or> length (by_host (br_sessions br)) < store_cap (br_sessions br)"
  shows "\<exists>br'. handle_client_hello X E tnt payload br = (Some (vh_host_id verified), br')"
proof -
  obtain sessions where ins: "store_insert (br_sessions br) (vh_host_id verified) (ch_sid hello) (sr_keys resp) = (True, sessions)"
    using assms(3) by (auto simp: store_insert_def store_get_def)
  have "\<not> (case store_get (br_sessions br) (vh_host_id verified) of None \<Rightarrow> False | Some s \<Rightarrow> ses_sid s = ch_sid hello)"
    using assms(1) by (simp add: hello_accepted_def split: option.split)
  then show ?thesis
    using assms(1,2) ins store_get_insert [OF ins]
    by (simp add: hello_accepted_def handle_client_hello_def Let_def link_publish_def seal_downlink_def)
qed


subsection \<open>Epochs of a host only grow\<close>

text \<open>What each handler leaves alone.\<close>

lemma handle_ctrl_ack_frame [simp]:
  "br_last_seen (handle_ctrl_ack X payload br) = br_last_seen br"
  "br_pending (handle_ctrl_ack X payload br) = br_pending br"
  "br_shells (handle_ctrl_ack X payload br) = br_shells br"
  "br_results (handle_ctrl_ack X payload br) = br_results br"
  "br_outputs (handle_ctrl_ack X payload br) = br_outputs br"
  "br_upserts (handle_ctrl_ack X payload br) = br_upserts br"
  "br_slots (handle_ctrl_ack X payload br) = br_slots br"
  "br_epochs (handle_ctrl_ack X payload br) = br_epochs br"
  "br_opened (handle_ctrl_ack X payload br) = br_opened br"
  by (simp_all add: handle_ctrl_ack_def case_prod_unfold Let_def link_publish_def split: option.splits send_result.splits)

lemma handle_result_frame [simp]:
  "br_last_seen (handle_result X tnt payload br) = br_last_seen br"
  "br_shells (handle_result X tnt payload br) = br_shells br"
  "br_outputs (handle_result X tnt payload br) = br_outputs br"
  "br_upserts (handle_result X tnt payload br) = br_upserts br"
  "br_slots (handle_result X tnt payload br) = br_slots br"
  "br_epochs (handle_result X tnt payload br) = br_epochs br"
  "br_opened (handle_result X tnt payload br) = br_opened br"
  by (simp_all add: handle_result_def case_prod_unfold Let_def link_publish_def split: option.splits send_result.splits)

lemma decode_inventory_frame [simp]:
  "br_last_seen (snd (decode_inventory X tnt payload br)) = br_last_seen br"
  "br_pending (snd (decode_inventory X tnt payload br)) = br_pending br"
  "br_shells (snd (decode_inventory X tnt payload br)) = br_shells br"
  "br_results (snd (decode_inventory X tnt payload br)) = br_results br"
  "br_outputs (snd (decode_inventory X tnt payload br)) = br_outputs br"
  "br_upserts (snd (decode_inventory X tnt payload br)) = br_upserts br"
  "br_slots (snd (decode_inventory X tnt payload br)) = br_slots br"
  "br_epochs (snd (decode_inventory X tnt payload br)) = br_epochs br"
  "br_opened (snd (decode_inventory X tnt payload br)) = br_opened br"
  by (simp_all add: decode_inventory_def case_prod_unfold Let_def link_publish_def split: option.splits send_result.splits)

lemma drop_jobs_frame [simp]:
  "br_sessions (drop_jobs gone msg br) = br_sessions br"
  "br_last_seen (drop_jobs gone msg br) = br_last_seen br"
  "br_shells (drop_jobs gone msg br) = br_shells br"
  "br_outputs (drop_jobs gone msg br) = br_outputs br"
  "br_upserts (drop_jobs gone msg br) = br_upserts br"
  "br_slots (drop_jobs gone msg br) = br_slots br"
  "br_epochs (drop_jobs gone msg br) = br_epochs br"
  "br_opened (drop_jobs gone msg br) = br_opened br"
  by (simp_all add: drop_jobs_def Let_def)

lemma close_shell_route_frame [simp]:
  "br_sessions (close_shell_route X E host route br) = br_sessions br"
  "br_last_seen (close_shell_route X E host route br) = br_last_seen br"
  "br_pending (close_shell_route X E host route br) = br_pending br"
  "br_results (close_shell_route X E host route br) = br_results br"
  "br_outputs (close_shell_route X E host route br) = br_outputs br"
  "br_upserts (close_shell_route X E host route br) = br_upserts br"
  "br_slots (close_shell_route X E host route br) = br_slots br"
  "br_epochs (close_shell_route X E host route br) = br_epochs br"
  "br_opened (close_shell_route X E host route br) = br_opened br"
  by (simp_all add: close_shell_route_def case_prod_unfold Let_def link_publish_def split: option.splits send_result.splits)

lemma shell_close_frame [simp]:
  "br_sessions (shell_close X E host stream_id br) = br_sessions br"
  "br_last_seen (shell_close X E host stream_id br) = br_last_seen br"
  "br_pending (shell_close X E host stream_id br) = br_pending br"
  "br_results (shell_close X E host stream_id br) = br_results br"
  "br_outputs (shell_close X E host stream_id br) = br_outputs br"
  "br_upserts (shell_close X E host stream_id br) = br_upserts br"
  "br_slots (shell_close X E host stream_id br) = br_slots br"
  "br_epochs (shell_close X E host stream_id br) = br_epochs br"
  "br_opened (shell_close X E host stream_id br) = br_opened br"
  by (simp_all add: shell_close_def case_prod_unfold Let_def split: option.splits send_result.splits)

lemma shell_input_frame [simp]:
  "br_sessions (shell_input X E host stream_id data br) = br_sessions br"
  "br_last_seen (shell_input X E host stream_id data br) = br_last_seen br"
  "br_pending (shell_input X E host stream_id data br) = br_pending br"
  "br_results (shell_input X E host stream_id data br) = br_results br"
  "br_outputs (shell_input X E host stream_id data br) = br_outputs br"
  "br_upserts (shell_input X E host stream_id data br) = br_upserts br"
  "br_slots (shell_input X E host stream_id data br) = br_slots br"
  "br_epochs (shell_input X E host stream_id data br) = br_epochs br"
  "br_opened (shell_input X E host stream_id data br) = br_opened br"
  by (simp_all add: shell_input_def case_prod_unfold Let_def link_publish_def split: option.splits send_result.splits)

lemma open_shell_frame [simp]:
  "br_last_seen (open_shell X E host stream_id user rows cols out br) = br_last_seen br"
  "br_pending (open_shell X E host stream_id user rows cols out br) = br_pending br"
  "br_results (open_shell X E host stream_id user rows cols out br) = br_results br"
  "br_upserts (open_shell X E host stream_id user rows cols out br) = br_upserts br"
  "br_slots (open_shell X E host stream_id user rows cols out br) = br_slots br"
  "br_epochs (open_shell X E host stream_id user rows cols out br) = br_epochs br"
  "br_opened (open_shell X E host stream_id user rows cols out br) = br_opened br"
  by (simp_all add: open_shell_def case_prod_unfold Let_def link_publish_def split: option.splits send_result.splits)

lemma dispatch_job_frame [simp]:
  "br_last_seen (dispatch_job X E host dispatch events br) = br_last_seen br"
  "br_shells (dispatch_job X E host dispatch events br) = br_shells br"
  "br_outputs (dispatch_job X E host dispatch events br) = br_outputs br"
  "br_upserts (dispatch_job X E host dispatch events br) = br_upserts br"
  "br_slots (dispatch_job X E host dispatch events br) = br_slots br"
  "br_epochs (dispatch_job X E host dispatch events br) = br_epochs br"
  "br_opened (dispatch_job X E host dispatch events br) = br_opened br"
  by (simp_all add: dispatch_job_def case_prod_unfold Let_def link_publish_def split: option.splits send_result.splits)

lemma handle_stream_up_frame [simp]:
  "br_sessions (handle_stream_up X E tnt payload br) = br_sessions br"
  "br_last_seen (handle_stream_up X E tnt payload br) = br_last_seen br"
  "br_pending (handle_stream_up X E tnt payload br) = br_pending br"
  "br_results (handle_stream_up X E tnt payload br) = br_results br"
  "br_upserts (handle_stream_up X E tnt payload br) = br_upserts br"
  "br_slots (handle_stream_up X E tnt payload br) = br_slots br"
  "br_epochs (handle_stream_up X E tnt payload br) = br_epochs br"
  "br_opened (handle_stream_up X E tnt payload br) = br_opened br"
  by (simp_all add: handle_stream_up_def case_prod_unfold Let_def split: option.splits send_result.splits)

lemma handle_message_frame:
  assumes "tenant_from_hs_up topic = None \<or> tenant_from_heartbeat topic \<noteq> None"
  shows "br_epochs (handle_message X E topic payload br) = br_epochs br"
    "br_opened (handle_message X E topic payload br) = br_opened br"
  using assms
  by (cases "tenant_from_heartbeat topic"; simp add: handle_message_def case_prod_unfold split: option.split)+

lemma handle_command_frame [simp]:
  "br_epochs (handle_command X E cmd br) = br_epochs br" "br_opened (handle_command X E cmd br) = br_opened br"
  "br_last_seen (handle_command X E cmd br) = br_last_seen br" "br_slots (handle_command X E cmd br) = br_slots br"
  "br_upserts (handle_command X E cmd br) = br_upserts br"
  by (cases cmd; simp)+

subsection \<open>Epochs of a host only grow\<close>

text \<open>The epoch port an event is served with.\<close>

fun admits :: "('f \<Rightarrow> uuid \<Rightarrow> u64 \<Rightarrow> 'e \<Rightarrow> (port_error + bool) \<times> 'e) \<Rightarrow> 'e bridge_event \<Rightarrow> bool" where
  "admits admit (Message E topic payload) \<longleftrightarrow> (\<exists>f. be_admit E = admit f)"
| "admits admit _ \<longleftrightarrow> True"

definition opened_epochs :: "uuid \<Rightarrow> 'e bridge \<Rightarrow> u64 list" where
  "opened_epochs h br = map (\<lambda>(_, _, e). e) (filter (\<lambda>(g, _, _). g = h) (br_opened br))"

context epochs_port
begin

lemma marks_grow:
  assumes "inv s" "admit f h e s = (r, s')" "mark s g = Some m"
  obtains m' where "mark s' g = Some m'" "m \<le> m'"
proof (cases r)
  case (Inl err)
  then show ?thesis using failed [OF assms(1), of f h e err s'] assms that
    by (cases "g = h") (auto intro: less_imp_le)
next
  case (Inr b)
  show ?thesis
  proof (cases b)
    case True
    then show ?thesis using admitted [OF assms(1), of f h e s'] assms Inr that
      by (cases "g = h") (auto intro: less_imp_le)
  next
    case False
    then show ?thesis using rejected [OF assms(1), of f h e s'] assms Inr that by auto
  qed
qed

lemma hello_keeps_epochs:
  assumes "handle_client_hello X E tnt payload br = (r, br')" "be_admit E = admit f" "inv (br_epochs br)"
    and below: "\<forall>e \<in> set (opened_epochs h br). \<exists>m. mark (br_epochs br) h = Some m \<and> e \<le> m"
    and sorted: "sorted_wrt (<) (opened_epochs h br)"
  shows "inv (br_epochs br') \<and> (\<forall>e \<in> set (opened_epochs h br'). \<exists>m. mark (br_epochs br') h = Some m \<and> e \<le> m)
    \<and> sorted_wrt (<) (opened_epochs h br')"
  using assms(1)
proof (cases rule: client_hello_cases)
  case (dropped ep)
  have same: "opened_epochs h br' = opened_epochs h br" "br_epochs br' = ep"
    by (simp_all add: opened_epochs_def dropped(2))
  from dropped(3) show ?thesis
  proof
    assume "ep = br_epochs br"
    then show ?thesis using assms same by simp
  next
    assume "\<exists>g e a. be_admit E g e (br_epochs br) = (a, ep)"
    then obtain g e a where a: "admit f g e (br_epochs br) = (a, ep)" using assms(2) by auto
    have "inv ep" using inv_admit [OF assms(3) a] .
    moreover have "\<exists>m. mark ep h = Some m \<and> x \<le> m" if x: "x \<in> set (opened_epochs h br)" for x
    proof -
      obtain m where "mark (br_epochs br) h = Some m" "x \<le> m" using below x by blast
      then show ?thesis using marks_grow [OF assms(3) a] by (metis order_trans)
    qed
    ultimately show ?thesis using same sorted by simp
  qed
next
  case (opened hello verified resp ep sessions)
  let ?g = "vh_host_id verified" and ?e = "ch_epoch hello"
  have a: "admit f ?g ?e (br_epochs br) = (Inr True, ep)" using opened(1) assms(2) by (simp add: hello_accepted_def)
  note adm = admitted [OF assms(3) a]
  have ep: "br_epochs br' = ep" by (subst opened(4)) simp
  have "br_opened br' = br_opened br @ [(?g, ch_sid hello, ?e)]" by (subst opened(4)) simp
  then have new: "opened_epochs h br' = opened_epochs h br @ (if ?g = h then [?e] else [])"
    by (simp add: opened_epochs_def)
  have lt: "x < ?e" if "x \<in> set (opened_epochs h br)" "?g = h" for x
    using below that adm by (auto dest!: bspec)
  show ?thesis
    using inv_admit [OF assms(3) a] adm below sorted lt
    by (auto simp: ep new sorted_wrt_append less_imp_le split: if_splits)
qed

lemma bridge_epochs:
  assumes "inv (br_epochs br)" "list_all (admits admit) evs"
    and "\<forall>e \<in> set (opened_epochs h br). \<exists>m. mark (br_epochs br) h = Some m \<and> e \<le> m"
    and "sorted_wrt (<) (opened_epochs h br)"
  shows "sorted_wrt (<) (opened_epochs h (run_bridge X evs br))"
  using assms
proof (induction evs arbitrary: br)
  case Nil
  then show ?case by (simp add: run_bridge_def)
next
  case (Cons ev evs)
  have run: "run_bridge X (ev # evs) br = run_bridge X evs (bridge_step X ev br)" by (simp add: run_bridge_def)
  show ?case
  proof (cases "\<exists>E topic payload tnt. ev = Message E topic payload \<and> tenant_from_heartbeat topic = None
      \<and> tenant_from_hs_up topic = Some tnt")
    case True
    then obtain E topic payload tnt where ev: "ev = Message E topic payload" "tenant_from_heartbeat topic = None"
        "tenant_from_hs_up topic = Some tnt" by blast
    obtain f where f: "be_admit E = admit f" using Cons.prems(2) ev by auto
    obtain r br' where hello: "handle_client_hello X E tnt payload br = (r, br')" by fastforce
    have eq: "br_epochs (bridge_step X ev br) = br_epochs br'" "opened_epochs h (bridge_step X ev br) = opened_epochs h br'"
      by (auto simp: ev handle_message_def hello opened_epochs_def purge_host_jobs_def Let_def split: option.splits)
    show ?thesis
      unfolding run
      using Cons.IH [of "bridge_step X ev br"] hello_keeps_epochs [OF hello f Cons.prems(1,3,4)] Cons.prems(2)
      by (simp add: eq)
  next
    case False
    have "br_epochs (bridge_step X ev br) = br_epochs br \<and> br_opened (bridge_step X ev br) = br_opened br"
    proof (cases ev)
      case (Message E topic payload)
      then show ?thesis using False by (cases "tenant_from_hs_up topic") (auto intro!: handle_message_frame)
    qed (simp_all add: reap_stale_jobs_def)
    then show ?thesis unfolding run using Cons by (simp add: opened_epochs_def)
  qed
qed

end

text \<open>
  C29.  No session is resurrected: over any run of the bridge, with any messages an untrusted broker
  may inject, replay or reorder, the epochs of the sessions opened for a host strictly increase, with
  the in-memory epoch registry and with the Postgres one under any database failures.  A captured
  hello never opens a second session, even after the first one ended.
\<close>

theorem bridge_never_resurrects_sessions:
  "(list_all (admits registry_admit) evs \<longrightarrow> sorted_wrt (<) (opened_epochs h (run_bridge X evs (bridge_init results outputs []))))
   \<and> (list_all (admits pg_admit) pg_evs \<longrightarrow> sorted_wrt (<) (opened_epochs h (run_bridge X pg_evs (bridge_init results outputs []))))"
  using registry_epochs.bridge_epochs [where br = "bridge_init results outputs []" and evs = evs and h = h and X = X]
    pg_epochs.bridge_epochs [where br = "bridge_init results outputs []" and evs = pg_evs and h = h and X = X]
  by (simp add: bridge_init_def opened_epochs_def pg_epochs_inv_def)

subsection \<open>A concrete bridge\<close>

definition sample_ca :: embedded_ca where
  "sample_ca = \<lparr>ca_issuer = (''root'', ''key''), ca_cert_der = [2], ca_cert_pem = ''root'', ca_key_pem = ''key'',
     ca_cert_ttl = 3600 * SECOND\<rparr>"

definition sample_hello :: client_hello where
  "sample_hello = \<lparr>ch_sid = ''s'', ch_client_eph = be_bytes 32 (3 :: key), ch_cert_der = [1],
     ch_sig = 7 # client_transcript (as_bytes ''s'') 9 3, ch_epoch = 9\<rparr>"

definition no_codec :: "'m prost" where
  "no_codec = \<lparr>encode_msg = (\<lambda>_. []), decode_msg = (\<lambda>_. None)\<rparr>"

definition bridge_codecs :: codecs where
  "bridge_codecs =
     \<lparr>env_codec = no_codec, ch_codec = no_codec\<lparr>decode_msg := (\<lambda>_. Some sample_hello)\<rparr>, sh_codec = no_codec, dm_codec = no_codec,
      ep_codec = no_codec, sp_codec = no_codec, sf_codec = no_codec, im_codec = no_codec, jr_codec = no_codec, jo_codec = no_codec\<rparr>"

definition sample_ctx :: bridge_ctx where
  "sample_ctx = \<lparr>bc_crypto = toy_crypto, bc_codecs = bridge_codecs, bc_uuid = tally_uuid, bc_pki = sample_pki,
     bc_show_hs = (\<lambda>_. []), bc_ca = sample_ca, bc_has_sink = False\<rparr>"

definition sample_benv :: "(uuid, u64) amap bridge_env" where
  "sample_benv = \<lparr>be_now = 0, be_utc = 60, be_pub1 = True, be_pub2 = True, be_seed = Some 4,
     be_is_revoked = (\<lambda>h. registry_is_revoked DbOk h []), be_admit = registry_admit ()\<rparr>"

definition sample_bridge :: "(uuid, u64) amap bridge" where
  "sample_bridge = bridge_init (\<lambda>_. new_chan 1) (\<lambda>_. new_chan 1) []"

lemma sample_sel:
  "bc_crypto sample_ctx = toy_crypto" "bc_codecs sample_ctx = bridge_codecs" "bc_uuid sample_ctx = tally_uuid"
  "bc_pki sample_ctx = sample_pki" "bc_show_hs sample_ctx = (\<lambda>_. [])" "bc_ca sample_ctx = sample_ca"
  "be_utc sample_benv = 60" "be_seed sample_benv = Some 4" "be_pub1 sample_benv" "ch_sid sample_hello = ''s''"
  "ch_cert_der sample_hello = [1]" "ch_epoch sample_hello = 9" "of_be_bytes (ch_client_eph sample_hello) = (3 :: key)"
  "ch_sig sample_hello = 7 # client_transcript (as_bytes ''s'') 9 3" "length (ch_client_eph sample_hello) = 32"
  "decode_msg (ch_codec bridge_codecs) [] = Some sample_hello" "br_sessions sample_bridge = store_new" "br_epochs sample_bridge = []"
  by (simp_all add: sample_ctx_def sample_benv_def sample_hello_def bridge_codecs_def sample_bridge_def bridge_init_def no_codec_def of_be_bytes_inverse)

lemma sample_respond:
  obtains resp where "respond_handshake toy_crypto (\<lambda>_. []) (Some 4) sample_ca (as_bytes ''s'') 9 3
    (7 # client_transcript (as_bytes ''s'') 9 3) [7] [1] = Inr resp"
proof -
  have "\<exists>resp. respond toy_crypto (Some 4) (as_bytes ''s'') 9 3 (7 # client_transcript (as_bytes ''s'') 9 3) [7] [1] ''key'' = Inr resp"
    by (simp add: respond_def hs_verify_def hs_sign_def handshake_new_def handshake_derive_def lift_derive_def toy_crypto_def)
  then show ?thesis using that by (auto simp: respond_handshake_def sample_ca_def)
qed

lemma sample_hello_opens: "\<exists>br. handle_client_hello sample_ctx sample_benv (tenant (hyphenated tally_uuid 5)) [] sample_bridge = (Some 5, br)"
proof -
  obtain resp where r: "respond_handshake toy_crypto (\<lambda>_. []) (Some 4) sample_ca (as_bytes ''s'') 9 3
    (7 # client_transcript (as_bytes ''s'') 9 3) [7] [1] = Inr resp" by (rule sample_respond)
  have v: "verify_host_cert sample_pki tally_uuid 60 sample_ca [1] = Inr \<lparr>vh_host_id = 5, vh_public_key_sec1 = [7]\<rparr>"
    by (simp add: verify_host_cert_def sample_pki_def ca_root_der_def sample_ca_def CLOCK_SKEW_def SECOND_def
        host_id_from_san [OF tally_uuid_laws])
  have "hello_accepted sample_ctx sample_benv (tenant (hyphenated tally_uuid 5)) [] sample_bridge sample_hello
      \<lparr>vh_host_id = 5, vh_public_key_sec1 = [7]\<rparr> resp [(5, 9)]"
    unfolding hello_accepted_def sample_sel
    by (intro conjI allI impI v r; (rule refl)?)
      (simp_all add: r sample_benv_def registry_is_revoked_def registry_admit_def store_get_def store_new_def)
  from client_hello_complete [OF this] show ?thesis
    by (simp add: sample_sel store_new_def MAX_SESSIONS_def)
qed


theorem bridge_never_resurrects_sessions_witness:
  "let hello = Message sample_benv (hs_up (hyphenated tally_uuid 5)) []
   in list_all (admits registry_admit) [hello, hello]
      \<and> sorted_wrt (<) (opened_epochs 5 (run_bridge sample_ctx [hello, hello] (bridge_init (\<lambda>_. new_chan 1) (\<lambda>_. new_chan 1) [])))"
proof -
  define hello where "hello = Message sample_benv (hs_up (hyphenated tally_uuid 5)) []"
  have a: "list_all (admits registry_admit) [hello, hello]" by (auto simp: hello_def sample_benv_def)
  then show ?thesis
    using bridge_never_resurrects_sessions [of "[hello, hello]" 5 sample_ctx "\<lambda>_. new_chan 1" "\<lambda>_. new_chan 1"]
    unfolding Let_def hello_def by blast
qed

subsection \<open>The bridge stays bounded\<close>

definition bridge_inv :: "'e bridge \<Rightarrow> bool" where
  "bridge_inv br \<longleftrightarrow>
     store_inv (br_sessions br) \<and> store_cap (br_sessions br) = MAX_SESSIONS
     \<and> amap_ok (br_pending br) \<and> length (br_pending br) \<le> MAX_PENDING_JOBS
     \<and> amap_ok (br_shells br) \<and> dom (map_of (br_shells br)) \<subseteq> set (store_host_ids (br_sessions br))
     \<and> amap_ok (br_last_seen br) \<and> length (br_last_seen br) \<le> MAX_TRACKED_HOSTS
     \<and> br_slots br + length (br_upserts br) = MAX_INFLIGHT_INVENTORY_UPSERTS
     \<and> (\<forall>c. chan_ok (br_results br c)) \<and> (\<forall>c. chan_ok (br_outputs br c))"

lemma store_cap_put [simp]: "store_cap (store_put st h s) = store_cap st"
  by (simp add: store_put_def)

lemma host_ids_put [simp]:
  "store_get st h \<noteq> None \<Longrightarrow> set (store_host_ids (store_put st h s)) = set (store_host_ids st)"
  by (auto simp: store_host_ids_iff split: if_splits)

lemma chans_ok_try_send: "\<forall>c. chan_ok (chs c) \<Longrightarrow> chan_ok (snd (chans_try_send c v chs) d)"
  by (auto simp: chans_try_send_def case_prod_unfold chan_ok_ops)

lemma chans_ok_fold:
  "\<forall>c. chan_ok (chs c) \<Longrightarrow> chan_ok (fold (\<lambda>x chs. snd (chans_try_send (c' x) (v x) chs)) xs chs d)"
  by (induction xs arbitrary: chs) (auto simp: chans_ok_try_send)

lemma record_heartbeat_bounded:
  assumes "amap_ok seen" "length seen \<le> cap"
  shows "amap_ok (snd (record_heartbeat h now cap seen)) \<and> length (snd (record_heartbeat h now cap seen)) \<le> cap"
proof -
  have "length (filter (\<lambda>(_, t). max 0 (now - t) \<le> ONLINE_AFTER_GAP) seen) \<le> cap"
    using assms(2) by (rule le_trans [OF length_filter_le])
  then show ?thesis using assms(1) by (auto simp: record_heartbeat_def Let_def length_update_amap)
qed

lemma bridge_inv_ctrl_ack: "bridge_inv br \<Longrightarrow> bridge_inv (handle_ctrl_ack X payload br)"
  by (auto simp: bridge_inv_def handle_ctrl_ack_def case_prod_unfold store_inv_put split: option.split)

lemma bridge_inv_inventory: "bridge_inv br \<Longrightarrow> bridge_inv (snd (decode_inventory X tnt payload br))"
  by (auto simp: bridge_inv_def decode_inventory_def case_prod_unfold store_inv_put split: option.split)

lemma bridge_inv_drop: "bridge_inv br \<Longrightarrow> bridge_inv (drop_jobs gone msg br)"
  by (auto simp: bridge_inv_def drop_jobs_def Let_def case_prod_unfold intro!: chans_ok_fold le_trans [OF length_filter_le])

lemma bridge_inv_dispatch: "bridge_inv br \<Longrightarrow> bridge_inv (dispatch_job X E host dispatch events br)"
  by (auto simp: bridge_inv_def dispatch_job_def Let_def case_prod_unfold link_publish_def store_inv_put length_update_amap
      chans_ok_try_send split: option.split)

lemma bridge_inv_result: "bridge_inv br \<Longrightarrow> bridge_inv (handle_result X tnt payload br)"
  by (auto simp: bridge_inv_def handle_result_def Let_def case_prod_unfold store_inv_put chans_ok_try_send
      intro: le_trans [OF AList.length_delete_le] split: option.split send_result.split)

lemma bridge_inv_stream_up: "bridge_inv br \<Longrightarrow> bridge_inv (handle_stream_up X E tnt payload br)"
  by (auto simp: bridge_inv_def handle_stream_up_def close_shell_route_def Let_def case_prod_unfold chans_ok_try_send
      split: option.split send_result.split)

lemma bridge_inv_shells:
  "bridge_inv br \<Longrightarrow> bridge_inv (shell_input X E host stream_id data br)"
  "bridge_inv br \<Longrightarrow> bridge_inv (shell_close X E host stream_id br)"
  "bridge_inv br \<Longrightarrow> bridge_inv (open_shell X E host stream_id user rows cols out br)"
  by (auto simp: bridge_inv_def shell_input_def shell_close_def close_shell_route_def open_shell_def Let_def
      case_prod_unfold link_publish_def store_inv_put chans_ok_try_send store_host_ids_iff split: option.split)

lemma bridge_inv_hello:
  assumes "bridge_inv br" "handle_client_hello X E tnt payload br = (r, br')"
  shows "bridge_inv br'"
  using assms(2)
proof (cases rule: client_hello_cases)
  case (dropped ep)
  then show ?thesis using assms(1) by (simp add: bridge_inv_def)
next
  case (opened hello verified resp ep sessions)
  note get = store_get_insert [OF opened(2)]
  have "store_inv sessions \<and> store_cap sessions = MAX_SESSIONS"
    using store_inv_insert [OF _ opened(2)] assms(1) by (auto simp: bridge_inv_def)
  moreover have "set (store_host_ids (br_sessions br)) \<subseteq> set (store_host_ids sessions)"
    by (auto simp: store_host_ids_iff get)
  ultimately show ?thesis
    using assms(1) by (subst opened(4)) (auto simp: bridge_inv_def store_inv_put get)
qed

lemma bridge_inv_message: "bridge_inv br \<Longrightarrow> bridge_inv (handle_message X E topic payload br)"
proof -
  assume inv: "bridge_inv br"
  have heart: "bridge_inv (br\<lparr>br_last_seen := snd (record_heartbeat t n MAX_TRACKED_HOSTS (br_last_seen br))\<rparr>)" for t n
    using inv record_heartbeat_bounded [of "br_last_seen br" MAX_TRACKED_HOSTS t n] by (auto simp: bridge_inv_def)
  have forget: "bridge_inv b \<Longrightarrow> bridge_inv (b\<lparr>br_shells := AList.delete h (br_shells b)\<rparr>)" for b :: "'a bridge" and h
    by (auto simp: bridge_inv_def)
  have hello: "bridge_inv (case handle_client_hello X E t payload br of
      (Some host, br1) \<Rightarrow> let br2 = purge_host_jobs host br1 in br2\<lparr>br_shells := AList.delete host (br_shells br2)\<rparr>
    | (None, br1) \<Rightarrow> br1)" for t
    using bridge_inv_hello [OF inv]
    by (auto simp: Let_def purge_host_jobs_def simp del: drop_jobs_frame intro!: forget bridge_inv_drop split: prod.split option.split)
  have inven: "bridge_inv (case decode_inventory X t payload br of
      (None, br1) \<Rightarrow> br1
    | (Some hi, br1) \<Rightarrow> if br_slots br1 = 0 then br1
        else br1\<lparr>br_slots := br_slots br1 - 1, br_upserts := br_upserts br1 @ [hi]\<rparr>)" for t
  proof (cases "decode_inventory X t payload br")
    case (Pair r br1)
    then have "bridge_inv br1" using bridge_inv_inventory [OF inv, of X t payload] by simp
    then show ?thesis unfolding Pair by (auto simp: bridge_inv_def split: option.split)
  qed
  show ?thesis
    unfolding handle_message_def
    by (simp add: inv heart hello inven bridge_inv_ctrl_ack bridge_inv_result bridge_inv_stream_up split: option.split)
qed

lemma bridge_inv_step: "bridge_inv br \<Longrightarrow> bridge_inv (bridge_step X ev br)"
proof (cases ev)
  case (Command E cmd)
  assume inv: "bridge_inv br"
  then have "bridge_inv (br\<lparr>br_replies := rs\<rparr>)" for rs by (simp add: bridge_inv_def)
  with inv show ?thesis using Command by (cases cmd) (simp_all add: bridge_inv_dispatch bridge_inv_shells)
qed (auto simp: bridge_inv_message reap_stale_jobs_def bridge_inv_drop, auto simp: bridge_inv_def chan_ok_ops)

lemma bridge_inv_run: "bridge_inv br \<Longrightarrow> bridge_inv (run_bridge X evs br)"
  unfolding run_bridge_def by (induction evs arbitrary: br) (simp_all add: bridge_inv_step)

lemma bridge_inv_init:
  "(\<And>c. chan_ok (results c)) \<Longrightarrow> (\<And>c. chan_ok (outputs c)) \<Longrightarrow> bridge_inv (bridge_init results outputs epochs)"
  by (simp add: bridge_inv_def bridge_init_def store_inv_def store_new_def)


subsection \<open>Where results go\<close>

lemma handle_result_cases:
  obtains (kept) "br_results (handle_result X tnt payload br) = br_results br"
      "br_pending (handle_result X tnt payload br) = br_pending br"
  | (routed) host env s m result job where "parse_uuid (bc_uuid X) tnt = Some host"
      "decode_msg (env_codec (bc_codecs X)) payload = Some env" "store_get (br_sessions br) host = Some s"
      "open_envelope (bc_crypto X) (ses_keys s) AgentToCoord env = Some m" "above (ses_recv_high s) (env_seq env)"
      "decode_msg (jr_codec (bc_codecs X)) m = Some result" "map_of (br_pending br) (host, jr_job_id result) = Some job"
      "br_results (handle_result X tnt payload br) = snd (chans_try_send (pj_events job) (host, result) (br_results br))"
      "br_pending (handle_result X tnt payload br) =
         (if fst (chans_try_send (pj_events job) (host, result) (br_results br)) = Sent \<and> \<not> (\<exists>out. jr_body result = Some (Outcome out))
          then br_pending br else AList.delete (host, jr_job_id result) (br_pending br))"
proof -
  consider (quiet) "br_results (handle_result X tnt payload br) = br_results br \<and> br_pending (handle_result X tnt payload br) = br_pending br"
    | (deep) host env s where "parse_uuid (bc_uuid X) tnt = Some host"
      "decode_msg (env_codec (bc_codecs X)) payload = Some env" "store_get (br_sessions br) host = Some s"
    by (cases "parse_uuid (bc_uuid X) tnt"; cases "decode_msg (env_codec (bc_codecs X)) payload";
        cases "store_get (br_sessions br) (the (parse_uuid (bc_uuid X) tnt))") (auto simp: handle_result_def)
  then show ?thesis
  proof cases
    case quiet
    then show ?thesis using kept by blast
  next
    case deep
    show ?thesis
    proof (cases rule: coord_rx.open_cases [of "bc_crypto X" s env])
      case refused
      then show ?thesis using deep by (intro kept) (simp_all add: handle_result_def Let_def)
    next
      case (accepted m s')
      show ?thesis
      proof (cases "decode_msg (jr_codec (bc_codecs X)) m")
        case None
        then show ?thesis using deep accepted by (intro kept) (simp_all add: handle_result_def Let_def)
      next
        case (Some result)
        show ?thesis
        proof (cases "map_of (br_pending br) (host, jr_job_id result)")
          case None
          then show ?thesis using deep accepted Some by (intro kept) (simp_all add: handle_result_def Let_def)
        next
          case job: (Some job)
          show ?thesis
            by (rule routed [OF deep accepted(2,3) Some job])
              (use deep accepted Some job in \<open>auto simp: handle_result_def Let_def case_prod_unfold
                split: send_result.split option.split result_body.split\<close>)
        qed
      qed
    qed
  qed
qed

lemma drop_jobs_results:
  assumes "amap_ok (br_pending br)"
  obtains vs where "br_results (drop_jobs gone msg br) c = (br_results br c)\<lparr>ch_sent := ch_sent (br_results br c) @ vs\<rparr>"
    "set vs \<subseteq> {(h, error_result j msg) | h j job. map_of (br_pending br) (h, j) = Some job \<and> gone (h, j) job \<and> pj_events job = c}"
    "ch_closed (br_results br c) \<or> ch_cap (br_results br c) \<le> length (ch_sent (br_results br c) @ vs) - ch_taken (br_results br c)
     \<or> set vs = {(h, error_result j msg) | h j job. map_of (br_pending br) (h, j) = Some job \<and> gone (h, j) job \<and> pj_events job = c}"
proof -
  define dead where "dead = filter (\<lambda>(k, job). gone k job) (br_pending br)"
  define c' where "c' x = pj_events (snd x)" for x :: "(uuid \<times> string) \<times> pending_job"
  define v where "v x = (fst (fst x), error_result (snd (fst x)) msg)" for x :: "(uuid \<times> string) \<times> pending_job"
  have eq: "br_results (drop_jobs gone msg br) = fold (\<lambda>x chs. snd (chans_try_send (c' x) (v x) chs)) dead (br_results br)"
    by (simp add: drop_jobs_def Let_def dead_def c'_def v_def case_prod_unfold)
  let ?S = "{(h, error_result j msg) | h j job. map_of (br_pending br) (h, j) = Some job \<and> gone (h, j) job \<and> pj_events job = c}"
  have mem: "((h, j), job) \<in> set dead \<longleftrightarrow> map_of (br_pending br) (h, j) = Some job \<and> gone (h, j) job" for h j job
    using assms by (simp add: dead_def amap_ok_def)
  have S: "v ` {x \<in> set dead. c' x = c} = ?S"
  proof (intro equalityI subsetI)
    fix y assume "y \<in> v ` {x \<in> set dead. c' x = c}"
    then obtain h j job where "((h, j), job) \<in> set dead" "pj_events job = c" "y = (h, error_result j msg)"
      by (auto simp: c'_def v_def)
    then show "y \<in> ?S" unfolding mem by blast
  next
    fix y assume "y \<in> ?S"
    then obtain h j job where "((h, j), job) \<in> set dead" "pj_events job = c" "y = (h, error_result j msg)"
      unfolding mem by blast
    then show "y \<in> v ` {x \<in> set dead. c' x = c}" by (intro image_eqI [of _ v "((h, j), job)"]) (simp_all add: c'_def v_def)
  qed
  obtain vs where "fold (\<lambda>x chs. snd (chans_try_send (c' x) (v x) chs)) dead (br_results br) c = (br_results br c)\<lparr>ch_sent := ch_sent (br_results br c) @ vs\<rparr>"
      "set vs \<subseteq> v ` {x \<in> set dead. c' x = c}"
      "ch_closed (br_results br c) \<or> ch_cap (br_results br c) \<le> length (ch_sent (br_results br c) @ vs) - ch_taken (br_results br c)
        \<or> set vs = v ` {x \<in> set dead. c' x = c}"
    using chans_fold_sends [of c' v dead "br_results br" c] by blast
  then show ?thesis unfolding S eq [symmetric] by (rule that)
qed

lemma client_hello_frame [simp]:
  "br_pending (snd (handle_client_hello X E tnt payload br)) = br_pending br"
  "br_results (snd (handle_client_hello X E tnt payload br)) = br_results br"
  "br_outputs (snd (handle_client_hello X E tnt payload br)) = br_outputs br"
  "br_shells (snd (handle_client_hello X E tnt payload br)) = br_shells br"
  "br_commands_open (snd (handle_client_hello X E tnt payload br)) = br_commands_open br"
proof -
  obtain r br' where h: "handle_client_hello X E tnt payload br = (r, br')" by fastforce
  from h have "br_pending br' = br_pending br \<and> br_results br' = br_results br \<and> br_outputs br' = br_outputs br \<and> br_shells br' = br_shells br
      \<and> br_commands_open br' = br_commands_open br"
  proof (cases rule: client_hello_cases)
    case (dropped ep)
    then show ?thesis by simp
  next
    case (opened hello verified resp ep sessions)
    show ?thesis by (subst opened(4), simp)+
  qed
  then show "br_pending (snd (handle_client_hello X E tnt payload br)) = br_pending br"
    "br_results (snd (handle_client_hello X E tnt payload br)) = br_results br"
    "br_outputs (snd (handle_client_hello X E tnt payload br)) = br_outputs br"
    "br_shells (snd (handle_client_hello X E tnt payload br)) = br_shells br"
    "br_commands_open (snd (handle_client_hello X E tnt payload br)) = br_commands_open br"
    by (simp_all add: h)
qed

text \<open>What a message can do to the jobs and their channels: a reconnect, a result, or nothing.\<close>

lemma handle_message_results:
  obtains (reconnect) tnt host where "tenant_from_hs_up topic = Some tnt" "fst (handle_client_hello X E tnt payload br) = Some host"
      "br_results (handle_message X E topic payload br) =
         br_results (drop_jobs (\<lambda>(h, _) _. h = host) ''host reconnected; job interrupted'' (snd (handle_client_hello X E tnt payload br)))"
      "br_pending (handle_message X E topic payload br) = filter (\<lambda>((h, _), _). h \<noteq> host) (br_pending br)"
  | (result) tnt where "tenant_from_result_up topic = Some tnt"
      "br_results (handle_message X E topic payload br) = br_results (handle_result X tnt payload br)"
      "br_pending (handle_message X E topic payload br) = br_pending (handle_result X tnt payload br)"
  | (quiet) "br_results (handle_message X E topic payload br) = br_results br"
      "br_pending (handle_message X E topic payload br) = br_pending br"
proof (cases "tenant_from_heartbeat topic")
  case (Some t)
  then show ?thesis by (intro quiet) (simp_all add: handle_message_def)
next
  case beat: None
  show ?thesis
  proof (cases "tenant_from_hs_up topic")
    case (Some t)
    show ?thesis
    proof (cases "fst (handle_client_hello X E t payload br)")
      case None
      then show ?thesis using beat Some by (intro quiet) (simp_all add: handle_message_def case_prod_unfold)
    next
      case host: (Some host)
      show ?thesis
        by (rule reconnect [OF Some host])
          (use beat Some host in \<open>simp_all add: handle_message_def case_prod_unfold purge_host_jobs_def Let_def drop_jobs_def\<close>)
    qed
  next
    case hs: None
    show ?thesis
    proof (cases "tenant_from_ctrl_up topic = None \<and> tenant_from_result_up topic \<noteq> None")
      case True
      then show ?thesis using beat hs by (auto intro!: result simp: handle_message_def)
    next
      case False
      then show ?thesis using beat hs
        by (intro quiet) (auto simp: handle_message_def case_prod_unfold split: option.split)
    qed
  qed
qed

text \<open>
  Why a result may be put on an operator's channel: it answers the dispatch command just refused; or
  it reports the end of a job that is pending on this channel; or it is the decoded, authentic and
  fresh result of such a job, from the host the job was dispatched to.
\<close>

definition result_justified :: "bridge_ctx \<Rightarrow> 'e bridge_event \<Rightarrow> 'e bridge \<Rightarrow> nat \<Rightarrow> host_result \<Rightarrow> bool" where
  "result_justified X ev br c = (\<lambda>(h, res).
     (\<exists>E d msg. ev = Command E (CmdDispatch h d c) \<and> res = error_result (dm_job_id d) msg)
     \<or> (\<exists>job. map_of (br_pending br) (h, jr_job_id res) = Some job \<and> pj_events job = c
          \<and> ((\<exists>msg. res = error_result (jr_job_id res) msg)
             \<or> (\<exists>E topic payload tnt env s m. ev = Message E topic payload \<and> tenant_from_result_up topic = Some tnt
                  \<and> parse_uuid (bc_uuid X) tnt = Some h \<and> decode_msg (env_codec (bc_codecs X)) payload = Some env
                  \<and> store_get (br_sessions br) h = Some s
                  \<and> open_envelope (bc_crypto X) (ses_keys s) AgentToCoord env = Some m
                  \<and> above (ses_recv_high s) (env_seq env) \<and> decode_msg (jr_codec (bc_codecs X)) m = Some res))))"

lemma jr_job_id_error [simp]: "jr_job_id (error_result j msg) = j"
  by (simp add: error_result_def)

lemma dispatch_job_results:
  obtains (kept) "br_results (dispatch_job X E host d events br) = br_results br"
      "br_pending (dispatch_job X E host d events br) =
         AList.update (host, dm_job_id d) \<lparr>pj_events = events, pj_deadline = be_now E + PENDING_TTL\<rparr> (br_pending br)"
      "map_of (br_pending br) (host, dm_job_id d) = None" "length (br_pending br) < MAX_PENDING_JOBS" "be_pub1 E"
      "\<exists>s. store_get (br_sessions br) host = Some s \<and> br_published (dispatch_job X E host d events br) = br_published br
        @ [(dispatch_down (hyphenated (bc_uuid X) host),
            fst (seal_downlink (bc_crypto X) (bc_codecs X) (hyphenated (bc_uuid X) host) (encode_msg (dm_codec (bc_codecs X)) d) s))]"
  | (refused) msg where "br_pending (dispatch_job X E host d events br) = br_pending br"
      "br_results (dispatch_job X E host d events br) =
         snd (chans_try_send events (host, error_result (dm_job_id d) msg) (br_results br))"
proof -
  let ?r = "dispatch_job X E host d events br"
  have "(\<exists>msg. br_pending ?r = br_pending br \<and> br_results ?r = snd (chans_try_send events (host, error_result (dm_job_id d) msg) (br_results br)))
    \<or> (\<exists>s. store_get (br_sessions br) host = Some s) \<and> be_pub1 E \<and> map_of (br_pending br) (host, dm_job_id d) = None
      \<and> length (br_pending br) < MAX_PENDING_JOBS"
    by (cases "map_of (br_pending br) (host, dm_job_id d)"; cases "length (br_pending br) \<ge> MAX_PENDING_JOBS";
        cases "store_get (br_sessions br) host"; cases "be_pub1 E")
      (auto simp: dispatch_job_def Let_def case_prod_unfold link_publish_def)
  then show ?thesis
  proof (elim disjE exE conjE)
    fix msg
    assume "br_pending ?r = br_pending br" "br_results ?r = snd (chans_try_send events (host, error_result (dm_job_id d) msg) (br_results br))"
    then show ?thesis by (rule refused)
  next
    fix s
    assume a: "be_pub1 E" "map_of (br_pending br) (host, dm_job_id d) = None"
      "length (br_pending br) < MAX_PENDING_JOBS" "store_get (br_sessions br) host = Some s"
    then show ?thesis
      by (intro kept) (simp_all add: dispatch_job_def Let_def case_prod_unfold link_publish_def not_le)
  qed
qed

text \<open>What one event adds to an operator's channel: nothing, one justified value, or the reports of dropped jobs.\<close>

lemma results_kept:
  assumes "ch_sent ch' = ch_sent ch"
  shows "\<exists>vs. ch_sent ch' = ch_sent ch @ vs \<and> list_all (result_justified X ev br c) vs"
  using assms by (intro exI [of _ "[]"]) simp

lemma results_sent:
  assumes "result_justified X ev br c' v"
  shows "\<exists>vs. ch_sent (snd (chans_try_send c' v (br_results br)) c) = ch_sent (br_results br c) @ vs
    \<and> list_all (result_justified X ev br c) vs"
  using chans_try_send_sent [of c' v "br_results br" c] assms
  by (elim disjE) (rule exI [of _ "[]"], simp, rule exI [of _ "[v]"], auto)

lemma results_dropped:
  assumes "bridge_inv br" "br_pending b = br_pending br" "br_results b = br_results br"
  shows "\<exists>vs. ch_sent (br_results (drop_jobs gone msg b) c) = ch_sent (br_results br c) @ vs
    \<and> list_all (result_justified X ev br c) vs"
proof -
  have ok: "amap_ok (br_pending b)" using assms by (simp add: bridge_inv_def)
  obtain vs where vs: "br_results (drop_jobs gone msg b) c = (br_results b c)\<lparr>ch_sent := ch_sent (br_results b c) @ vs\<rparr>"
      "set vs \<subseteq> {(h, error_result j msg) | h j job. map_of (br_pending b) (h, j) = Some job \<and> gone (h, j) job \<and> pj_events job = c}"
    by (rule drop_jobs_results [OF ok])
  have "result_justified X ev br c v" if mem: "v \<in> set vs" for v
  proof -
    obtain h j job where "v = (h, error_result j msg)" "map_of (br_pending br) (h, j) = Some job" "pj_events job = c"
      using vs(2) mem assms(2) by auto
    then show ?thesis by (auto simp: result_justified_def)
  qed
  then show ?thesis using vs(1) assms(3) by (intro exI [of _ vs]) (simp add: list_all_iff)
qed

lemma message_results_justified:
  assumes "bridge_inv br"
  shows "\<exists>vs. ch_sent (br_results (bridge_step X (Message E topic payload) br) c) = ch_sent (br_results br c) @ vs
    \<and> list_all (result_justified X (Message E topic payload) br c) vs"
proof (cases rule: handle_message_results [of topic X E payload br])
  case (reconnect tnt host)
  then show ?thesis using results_dropped [OF assms, of "snd (handle_client_hello X E tnt payload br)"] by simp
next
  case (result tnt)
  show ?thesis
  proof (cases rule: handle_result_cases [of X tnt payload br])
    case kept
    then show ?thesis using result by (intro results_kept) simp
  next
    case (routed host env s m res job)
    have "result_justified X (Message E topic payload) br (pj_events job) (host, res)"
      unfolding result_justified_def using result(1) routed(1-7) by auto
    from results_sent [OF this] show ?thesis using result(2) routed(8) by simp
  qed
next
  case quiet
  then show ?thesis by (intro results_kept) simp
qed

lemma command_results_justified:
  "\<exists>vs. ch_sent (br_results (bridge_step X (Command E cmd) br) c) = ch_sent (br_results br c) @ vs
    \<and> list_all (result_justified X (Command E cmd) br c) vs"
proof (cases "\<exists>host d events. cmd = CmdDispatch host d events \<and> br_commands_open br")
  case False
  then show ?thesis by (intro results_kept) (cases cmd; simp)
next
  case True
  then obtain host d events where cmd: "cmd = CmdDispatch host d events" "br_commands_open br" by blast
  show ?thesis
  proof (cases rule: dispatch_job_results [of X E host d events br])
    case kept
    then show ?thesis using cmd by (intro results_kept) simp
  next
    case (refused msg)
    have "result_justified X (Command E cmd) br events (host, error_result (dm_job_id d) msg)"
      by (auto simp: result_justified_def cmd)
    from results_sent [OF this] show ?thesis using cmd refused by simp
  qed
qed

lemma step_results_justified:
  assumes "bridge_inv br"
  shows "\<exists>vs. ch_sent (br_results (bridge_step X ev br) c) = ch_sent (br_results br c) @ vs
    \<and> list_all (result_justified X ev br c) vs"
proof (cases ev)
  case (Message E topic payload)
  then show ?thesis using message_results_justified [OF assms] by (simp only:)
next
  case (Command E cmd)
  then show ?thesis using command_results_justified by (simp only:)
next
  case (Sweep now)
  then show ?thesis using results_dropped [OF assms refl refl] by (simp add: reap_stale_jobs_def)
qed (rule results_kept, simp add: chan_recv_def chan_close_def)+


subsection \<open>No job is dropped silently\<close>

definition is_terminal :: "job_result \<Rightarrow> bool" where
  "is_terminal res \<longleftrightarrow> (\<exists>out. jr_body res = Some (Outcome out))"

text \<open>How the operator of a job that is no longer pending learns about it: a terminal result of the
  job is on the channel, or the channel was closed by the operator, or it is full, in which case the
  operator reads everything sent and then the end of the stream.\<close>

definition job_answered :: "'e bridge \<Rightarrow> 'e bridge \<Rightarrow> uuid \<Rightarrow> string \<Rightarrow> nat \<Rightarrow> bool" where
  "job_answered br br' h j c \<longleftrightarrow>
     (\<exists>res. (h, res) \<in> set (drop (length (ch_sent (br_results br c))) (ch_sent (br_results br' c))) \<and> jr_job_id res = j \<and> is_terminal res)
     \<or> ch_closed (br_results br c)
     \<or> ch_cap (br_results br c) \<le> length (ch_sent (br_results br' c)) - ch_taken (br_results br c)"

lemma drop_jobs_answers:
  assumes "amap_ok (br_pending br)" "map_of (br_pending br) (h, j) = Some job" "gone (h, j) job"
  shows "job_answered br (drop_jobs gone msg br) h j (pj_events job)"
proof -
  let ?c = "pj_events job"
  obtain vs where vs: "br_results (drop_jobs gone msg br) ?c = (br_results br ?c)\<lparr>ch_sent := ch_sent (br_results br ?c) @ vs\<rparr>"
    "ch_closed (br_results br ?c) \<or> ch_cap (br_results br ?c) \<le> length (ch_sent (br_results br ?c) @ vs) - ch_taken (br_results br ?c)
     \<or> set vs = {(h, error_result j msg) | h j job'. map_of (br_pending br) (h, j) = Some job' \<and> gone (h, j) job' \<and> pj_events job' = ?c}"
    by (rule drop_jobs_results [OF assms(1)])
  have t: "is_terminal (error_result j msg)" by (simp add: is_terminal_def error_result_def)
  have m: "(h, error_result j msg) \<in> {(h, error_result j msg) | h j job'. map_of (br_pending br) (h, j) = Some job' \<and> gone (h, j) job' \<and> pj_events job' = ?c}"
    using assms(2,3) by blast
  have sent: "drop (length (ch_sent (br_results br ?c))) (ch_sent (br_results (drop_jobs gone msg br) ?c)) = vs"
    by (simp add: vs(1))
  from vs(2) show ?thesis
  proof (elim disjE)
    assume "set vs = {(h, error_result j msg) | h j job'. map_of (br_pending br) (h, j) = Some job' \<and> gone (h, j) job' \<and> pj_events job' = ?c}"
    then have "(h, error_result j msg) \<in> set vs" using m by (simp only:)
    then show ?thesis unfolding job_answered_def sent using t by (intro disjI1 exI [of _ "error_result j msg"]) simp
  qed (simp_all add: job_answered_def vs(1))
qed

lemma result_answers:
  assumes "map_of (br_pending br) (h, j) = Some job" "map_of (br_pending (handle_result X tnt payload br)) (h, j) = None"
  shows "job_answered br (handle_result X tnt payload br) h j (pj_events job)"
proof (cases rule: handle_result_cases [of X tnt payload br])
  case kept
  then show ?thesis using assms by simp
next
  case (routed host env s m result job')
  have key: "host = h" "jr_job_id result = j" "job' = job"
    using assms routed(7,9) by (auto split: if_splits)
  show ?thesis
  proof (cases rule: chans_try_send_cases [of "pj_events job" "(h, result)" "br_results br"])
    case sent
    then have "is_terminal result" using routed(9) assms key by (cases "is_terminal result") (auto simp: is_terminal_def)
    then show ?thesis unfolding job_answered_def using routed(8) sent key by auto
  next
    case full
    then show ?thesis unfolding job_answered_def using routed(8) key by simp
  next
    case closed
    then show ?thesis unfolding job_answered_def by simp
  qed
qed

lemma step_answers:
  assumes "amap_ok (br_pending br)" "map_of (br_pending br) (h, j) = Some job"
    and "map_of (br_pending (bridge_step X ev br)) (h, j) = None"
  shows "job_answered br (bridge_step X ev br) h j (pj_events job)"
proof (cases ev)
  case (Message E topic payload)
  show ?thesis
  proof (cases rule: handle_message_results [of topic X E payload br])
    case (reconnect tnt host)
    let ?b = "snd (handle_client_hello X E tnt payload br)"
    have "h = host" using assms Message reconnect(4) by (auto simp: map_of_filter_key case_prod_unfold split: if_splits)
    then have "job_answered ?b (drop_jobs (\<lambda>(h, _) _. h = host) ''host reconnected; job interrupted'' ?b) h j (pj_events job)"
      using assms by (intro drop_jobs_answers) auto
    then show ?thesis using Message reconnect(3) by (simp add: job_answered_def)
  next
    case (result tnt)
    then show ?thesis using result_answers [of br h j job X tnt payload] assms Message by (simp add: job_answered_def)
  next
    case quiet
    then show ?thesis using assms Message by simp
  qed
next
  case (Command E cmd)
  have "map_of (br_pending (handle_command X E cmd br)) (h, j) \<noteq> None"
  proof (cases cmd)
    case (CmdDispatch host d events)
    then show ?thesis using assms(2) by (cases rule: dispatch_job_results [of X E host d events br]) auto
  qed (use assms(2) in simp_all)
  then show ?thesis using assms Command by (simp split: if_splits)
next
  case (Sweep now)
  have "pj_deadline job \<le> now"
    using assms Sweep by (auto simp: reap_stale_jobs_def drop_jobs_def Let_def map_of_filter_key split: if_splits)
  then show ?thesis unfolding Sweep bridge_step.simps reap_stale_jobs_def using assms by (intro drop_jobs_answers)
qed (use assms in \<open>auto split: if_splits\<close>)


definition sample_job :: dispatch_msg where
  "sample_job = \<lparr>dm_job_id = ''j'', dm_kind = ''exec'', dm_run_as = ''deploy'', dm_params = []\<rparr>"

lemma client_hello_session:
  assumes "handle_client_hello X E tnt payload br = (Some h, br')"
  shows "\<exists>s. store_get (br_sessions br') h = Some s"
  using assms
proof (cases rule: client_hello_cases)
  case (opened hello verified resp ep sessions)
  then have "be_pub1 E" "h = vh_host_id verified" by (auto split: if_splits)
  then show ?thesis by (subst opened(4)) simp
qed simp

lemma sample_hs_topic:
  "tenant_from_heartbeat (hs_up (hyphenated tally_uuid 5)) = None"
  "tenant_from_hs_up (hs_up (hyphenated tally_uuid 5)) = Some (tenant (hyphenated tally_uuid 5))"
proof -
  have "CHR ''/'' \<notin> set (hyphenated tally_uuid 5)" "tenant (hyphenated tally_uuid 5) \<noteq> []"
    using tally_uuid_laws unfolding uuid_laws_def tenant_def by metis+
  then show "tenant_from_heartbeat (hs_up (hyphenated tally_uuid 5)) = None"
    "tenant_from_hs_up (hs_up (hyphenated tally_uuid 5)) = Some (tenant (hyphenated tally_uuid 5))"
    unfolding uplink_parser_defs topic_defs by (simp_all add: tenant_for_tail_prefix)
qed

lemma sample_dispatch_pending:
  "map_of (br_pending (run_bridge sample_ctx [Message sample_benv (hs_up (hyphenated tally_uuid 5)) [],
     Command sample_benv (CmdDispatch 5 sample_job 0)] sample_bridge)) (5, ''j'') = Some \<lparr>pj_events = 0, pj_deadline = PENDING_TTL\<rparr>"
proof -
  obtain br1 where h: "handle_client_hello sample_ctx sample_benv (tenant (hyphenated tally_uuid 5)) [] sample_bridge = (Some 5, br1)"
    using sample_hello_opens by blast
  note frame = client_hello_frame [of sample_ctx sample_benv "tenant (hyphenated tally_uuid 5)" "[]" sample_bridge, unfolded h, simplified]
  obtain s where s: "store_get (br_sessions br1) 5 = Some s"
    using client_hello_session [OF h] by blast
  let ?b = "handle_message sample_ctx sample_benv (hs_up (hyphenated tally_uuid 5)) [] sample_bridge"
  have "br_pending sample_bridge = []" "br_commands_open sample_bridge" by (simp_all add: sample_bridge_def bridge_init_def)
  then have b: "br_pending ?b = []" "store_get (br_sessions ?b) 5 = Some s" "br_commands_open ?b"
    using frame s by (simp_all add: handle_message_def sample_hs_topic h purge_host_jobs_def drop_jobs_def Let_def)
  then show ?thesis
    by (simp add: run_bridge_def dispatch_job_def case_prod_unfold Let_def MAX_PENDING_JOBS_def link_publish_def
        sample_benv_def sample_job_def)
qed


end
