(* ===== verification/Jwt_Auth.thy ===== *)
theory Jwt_Auth
  imports Proto Rust_Str
begin

text \<open>
  \<^verbatim>\<open>osa-core/src/auth.rs\<close> and \<^verbatim>\<open>osa-coordinator/src/auth.rs\<close>: operator authentication.  A validator holds
  the issuer's signing keys by key id, each pinned to one algorithm; the gRPC interceptor extracts the
  bearer token and validates it.  The JWT crate is a parameter, the record \<open>jwt_lib\<close>.
\<close>

subsection \<open>Keys\<close>

datatype jwt_alg =
  RS256 | RS384 | RS512 | PS256 | PS384 | PS512 | ES256 | ES384 | EdDSA | HS256 | HS384 | HS512

datatype key_algorithm = Ka jwt_alg | KaOther string

datatype ec_curve = P256 | P384 | OtherCurve
datatype algorithm_parameters = RsaParams | EcParams ec_curve | OtherParams

record jwk =
  jwk_key_id :: "string option"
  jwk_key_algorithm :: "key_algorithm option"
  jwk_algorithm :: algorithm_parameters

definition key_algorithm_to_algorithm :: "key_algorithm \<Rightarrow> jwt_alg option" where
  "key_algorithm_to_algorithm ka =
     (case ka of
        Ka a \<Rightarrow> if a \<in> {RS256, RS384, RS512, PS256, PS384, PS512, ES256, ES384, EdDSA} then Some a else None
      | KaOther _ \<Rightarrow> None)"

definition algorithm_of :: "jwk \<Rightarrow> jwt_alg option" where
  "algorithm_of k =
     (case jwk_key_algorithm k of
        Some ka \<Rightarrow> key_algorithm_to_algorithm ka
      | None \<Rightarrow>
          (case jwk_algorithm k of
             RsaParams \<Rightarrow> Some RS256
           | EcParams P256 \<Rightarrow> Some ES256
           | EcParams P384 \<Rightarrow> Some ES384
           | EcParams OtherCurve \<Rightarrow> None
           | OtherParams \<Rightarrow> None))"

record validation_policy =
  vp_issuer :: string
  vp_audience :: string
  vp_leeway_secs :: u64

record verifying_key =
  vk_decoding :: bytes
  vk_alg :: jwt_alg

record jwt_validator =
  jv_policy :: validation_policy
  jv_keys :: "(string, verifying_key) amap"

datatype auth_error = Missing | Malformed | BadSignature | Expired | NotYetValid | WrongAudience | WrongIssuer | UnknownKey
datatype jwks_error = JwksJson | JwksEmpty | DuplicateKid string

text \<open>What the crate is asked to check of a token.\<close>

record validation =
  va_alg :: jwt_alg
  va_iss :: "string list"
  va_aud :: "string list"
  va_leeway :: u64
  va_exp :: bool
  va_nbf :: bool
  va_required :: "string list"

datatype jwt_error = ExpiredSignature | ImmatureSignature | InvalidAudience | InvalidIssuer | InvalidSignature | OtherJwtError

record jwt_lib =
  parse_jwks :: "bytes \<Rightarrow> jwk list option"
  key_from_jwk :: "jwk \<Rightarrow> bytes option"
  decode_header :: "string \<Rightarrow> string option option"
  decode_token :: "string \<Rightarrow> bytes \<Rightarrow> validation \<Rightarrow> jwt_error + string"

fun load_jwks :: "jwt_lib \<Rightarrow> jwk list \<Rightarrow> (string, verifying_key) amap \<Rightarrow> jwks_error + (string, verifying_key) amap" where
  "load_jwks L [] keys = Inr keys"
| "load_jwks L (k # ks) keys =
     (case jwk_key_id k of
        None \<Rightarrow> load_jwks L ks keys
      | Some kid \<Rightarrow>
          (case algorithm_of k of
             None \<Rightarrow> load_jwks L ks keys
           | Some alg \<Rightarrow>
               (case key_from_jwk L k of
                  None \<Rightarrow> load_jwks L ks keys
                | Some decoding \<Rightarrow>
                    if map_of keys kid \<noteq> None then Inl (DuplicateKid kid)
                    else load_jwks L ks (AList.update kid \<lparr>vk_decoding = decoding, vk_alg = alg\<rparr> keys))))"

definition from_jwks_json :: "jwt_lib \<Rightarrow> validation_policy \<Rightarrow> bytes \<Rightarrow> jwks_error + jwt_validator" where
  "from_jwks_json L policy jwks =
     (case parse_jwks L jwks of
        None \<Rightarrow> Inl JwksJson
      | Some keyset \<Rightarrow>
          (case load_jwks L keyset [] of
             Inl e \<Rightarrow> Inl e
           | Inr keys \<Rightarrow> if keys = [] then Inl JwksEmpty else Inr \<lparr>jv_policy = policy, jv_keys = keys\<rparr>))"

subsection \<open>Tokens\<close>

fun map_jwt_error :: "jwt_error \<Rightarrow> auth_error" where
  "map_jwt_error ExpiredSignature = Expired"
| "map_jwt_error ImmatureSignature = NotYetValid"
| "map_jwt_error InvalidAudience = WrongAudience"
| "map_jwt_error InvalidIssuer = WrongIssuer"
| "map_jwt_error InvalidSignature = BadSignature"
| "map_jwt_error OtherJwtError = Malformed"

definition validation_for :: "validation_policy \<Rightarrow> jwt_alg \<Rightarrow> validation" where
  "validation_for policy alg =
     \<lparr>va_alg = alg, va_iss = [vp_issuer policy], va_aud = [vp_audience policy], va_leeway = vp_leeway_secs policy,
      va_exp = True, va_nbf = True, va_required = [''exp'', ''iss'', ''aud'', ''sub'']\<rparr>"

definition jwt_validate :: "jwt_lib \<Rightarrow> jwt_validator \<Rightarrow> string \<Rightarrow> auth_error + string" where
  "jwt_validate L v token =
     (case decode_header L token of
        None \<Rightarrow> Inl Malformed
      | Some None \<Rightarrow> Inl Malformed
      | Some (Some kid) \<Rightarrow>
          (case map_of (jv_keys v) kid of
             None \<Rightarrow> Inl UnknownKey
           | Some key \<Rightarrow>
               (case decode_token L token (vk_decoding key) (validation_for (jv_policy v) (vk_alg key)) of
                  Inl e \<Rightarrow> Inl (map_jwt_error e)
                | Inr sub \<Rightarrow> Inr sub)))"

definition to_ascii_lowercase :: "char \<Rightarrow> char" where
  "to_ascii_lowercase c = (if 65 \<le> (of_char c :: nat) \<and> (of_char c :: nat) \<le> 90 then char_of ((of_char c :: nat) + 32) else c)"

definition eq_ignore_ascii_case :: "string \<Rightarrow> string \<Rightarrow> bool" where
  "eq_ignore_ascii_case a b \<longleftrightarrow> map to_ascii_lowercase a = map to_ascii_lowercase b"

text \<open>The \<open>authorization\<close> metadata: absent, not readable as text, or a string.\<close>

definition bearer_token :: "string option option \<Rightarrow> status + string" where
  "bearer_token metadata =
     (case metadata of
        None \<Rightarrow> Inl Unauthenticated
      | Some None \<Rightarrow> Inl Unauthenticated
      | Some (Some raw) \<Rightarrow>
          (case split_once CHR '' '' raw of
             None \<Rightarrow> Inl Unauthenticated
           | Some (scheme, token) \<Rightarrow>
               if \<not> eq_ignore_ascii_case scheme ''bearer'' \<or> token = [] then Inl Unauthenticated else Inr token))"

text \<open>The interceptor: the subject it binds into the request, or the status it answers with.\<close>

definition jwt_call :: "jwt_lib \<Rightarrow> jwt_validator \<Rightarrow> string option option \<Rightarrow> status + string" where
  "jwt_call L v metadata =
     (case bearer_token metadata of
        Inl st \<Rightarrow> Inl st
      | Inr token \<Rightarrow> (case jwt_validate L v token of Inl _ \<Rightarrow> Inl Unauthenticated | Inr sub \<Rightarrow> Inr sub))"

subsection \<open>Algorithm pinning\<close>

definition usable :: "jwt_lib \<Rightarrow> string \<Rightarrow> jwk \<Rightarrow> bool" where
  "usable L kid k \<longleftrightarrow> jwk_key_id k = Some kid \<and> algorithm_of k \<noteq> None \<and> key_from_jwk L k \<noteq> None"

lemma load_jwks_sound:
  assumes "load_jwks L ks keys = Inr keys'" "map_of keys' kid = Some key"
  shows "map_of keys kid = Some key
    \<or> (\<exists>k \<in> set ks. jwk_key_id k = Some kid \<and> algorithm_of k = Some (vk_alg key) \<and> key_from_jwk L k = Some (vk_decoding key))"
  using assms
proof (induction ks arbitrary: keys)
  case (Cons k ks)
  show ?case
  proof (cases "\<exists>kid' alg decoding. jwk_key_id k = Some kid' \<and> algorithm_of k = Some alg \<and> key_from_jwk L k = Some decoding")
    case True
    then obtain kid' alg decoding where u: "jwk_key_id k = Some kid'" "algorithm_of k = Some alg" "key_from_jwk L k = Some decoding" by blast
    then have "load_jwks L ks (AList.update kid' \<lparr>vk_decoding = decoding, vk_alg = alg\<rparr> keys) = Inr keys'"
      using Cons.prems(1) by (auto split: if_splits)
    from Cons.IH [OF this Cons.prems(2)] show ?thesis using u by (auto split: if_splits)
  next
    case False
    then have "load_jwks L ks keys = Inr keys'" using Cons.prems(1) by (auto split: option.splits)
    from Cons.IH [OF this Cons.prems(2)] show ?thesis by auto
  qed
qed simp

lemma load_jwks_known:
  assumes "load_jwks L ks keys = Inr keys'" "map_of keys kid \<noteq> None"
  shows "filter (usable L kid) ks = []"
  using assms
proof (induction L ks keys rule: load_jwks.induct)
  case (2 L k ks keys)
  then show ?case by (auto simp: usable_def split: option.splits if_splits)
qed simp

lemma load_jwks_unique:
  "load_jwks L ks keys = Inr keys' \<Longrightarrow> length (filter (usable L kid) ks) \<le> 1"
proof (induction L ks keys rule: load_jwks.induct)
  case (2 L k ks keys)
  show ?case
  proof (cases "usable L kid k")
    case False
    then show ?thesis using 2 by (auto split: option.splits if_splits)
  next
    case True
    then obtain alg decoding where u: "jwk_key_id k = Some kid" "algorithm_of k = Some alg" "key_from_jwk L k = Some decoding"
      by (auto simp: usable_def)
    then have "load_jwks L ks (AList.update kid \<lparr>vk_decoding = decoding, vk_alg = alg\<rparr> keys) = Inr keys'"
      using "2.prems" by (auto split: if_splits)
    then show ?thesis using load_jwks_known [of L ks _ keys' kid] True by simp
  qed
qed simp

lemma algorithm_of_asymmetric: "algorithm_of k = Some a \<Longrightarrow> a \<notin> {HS256, HS384, HS512}"
  by (auto simp: algorithm_of_def key_algorithm_to_algorithm_def
      split: option.splits key_algorithm.splits algorithm_parameters.splits ec_curve.splits if_splits)

text \<open>
  Operator identity is pinned to the issuer's keys: the interceptor lets a call through only with
  a bearer token whose key id names exactly one usable key of the issuer's document, and whose
  subject the JWT library returned when asked to verify with that key, under the one asymmetric
  algorithm that key declares, for the configured issuer and audience, with expiry and not-before
  checked and all of exp, iss, aud and sub required.  Everything else is refused as unauthenticated.
\<close>

lemma jwt_call_pinned:
  assumes "from_jwks_json L policy doc = Inr v"
  shows "case jwt_call L v metadata of
      Inl st \<Rightarrow> st = Unauthenticated
    | Inr subject \<Rightarrow>
        \<exists>token kid keyset k decoding alg. bearer_token metadata = Inr token \<and> decode_header L token = Some (Some kid)
          \<and> parse_jwks L doc = Some keyset \<and> filter (usable L kid) keyset = [k]
          \<and> algorithm_of k = Some alg \<and> alg \<notin> {HS256, HS384, HS512} \<and> key_from_jwk L k = Some decoding
          \<and> decode_token L token decoding (validation_for policy alg) = Inr subject"
proof (cases "jwt_call L v metadata")
  case (Inl st)
  then show ?thesis by (auto simp: jwt_call_def bearer_token_def split: sum.splits option.splits if_splits)
next
  case (Inr subject)
  obtain keyset keys where load: "parse_jwks L doc = Some keyset" "load_jwks L keyset [] = Inr keys" "v = \<lparr>jv_policy = policy, jv_keys = keys\<rparr>"
    using assms by (auto simp: from_jwks_json_def split: option.splits sum.splits if_splits)
  obtain token where token: "bearer_token metadata = Inr token" "jwt_validate L v token = Inr subject"
    using Inr by (auto simp: jwt_call_def split: sum.splits)
  then obtain kid key where kid: "decode_header L token = Some (Some kid)" "map_of keys kid = Some key"
      "decode_token L token (vk_decoding key) (validation_for policy (vk_alg key)) = Inr subject"
    by (auto simp: jwt_validate_def load(3) split: option.splits sum.splits)
  obtain k where k: "k \<in> set keyset" "jwk_key_id k = Some kid" "algorithm_of k = Some (vk_alg key)" "key_from_jwk L k = Some (vk_decoding key)"
    using load_jwks_sound [OF load(2) kid(2)] by auto
  have "k \<in> set (filter (usable L kid) keyset)" using k by (simp add: usable_def)
  with load_jwks_unique [OF load(2), of kid] have "filter (usable L kid) keyset = [k]"
    by (cases "filter (usable L kid) keyset") auto
  then show ?thesis using Inr token load(1) kid k algorithm_of_asymmetric [OF k(3)] by auto
qed

definition sample_jwt :: jwt_lib where
  "sample_jwt =
     \<lparr>parse_jwks = (\<lambda>_. Some [\<lparr>jwk_key_id = Some ''k1'', jwk_key_algorithm = Some (Ka HS256), jwk_algorithm = OtherParams\<rparr>,
        \<lparr>jwk_key_id = Some ''k1'', jwk_key_algorithm = None, jwk_algorithm = EcParams P256\<rparr>]),
      key_from_jwk = (\<lambda>_. Some [5]), decode_header = (\<lambda>_. Some (Some ''k1'')),
      decode_token = (\<lambda>_ key v. if key = [5] \<and> va_alg v = ES256 then Inr ''alice'' else Inl InvalidSignature)\<rparr>"

end
