(* ===== verification/Service.thy ===== *)
theory Service
  imports Broker Policy Join_Tokens Jwt_Auth
begin

text \<open>
  \<^verbatim>\<open>osa-coordinator/src/service.rs\<close>: the gRPC services.  The operator calls decide with the policy engine,
  audit the decision and hand commands to the bridge; enrollment and renewal issue certificates.  The
  ports (tokens, revocations, policy, audit log) are operations given with what their store does in
  this call; \<open>bridge.send\<close> waits for room and fails only when the bridge is gone.
\<close>

definition EXEC_EVENT_QUEUE :: nat where "EXEC_EVENT_QUEUE = 256"
definition MAX_FANOUT :: nat where "MAX_FANOUT = 1024"

text \<open>The stores behind the service, the commands handed to the bridge, and the events its own tasks
  put on an operator's stream.\<close>

record ('t, 'r, 'a) service =
  sv_tokens :: 't
  sv_revoked :: 'r
  sv_audit :: 'a
  sv_commands :: "bridge_command list"
  sv_events :: "host_result list"

type_synonym pdp = "string \<Rightarrow> action_descriptor \<Rightarrow> port_error + unit"
type_synonym 'a append_op = "audit_record \<Rightarrow> 'a \<Rightarrow> (port_error + unit) \<times> 'a"

subsection \<open>Deciding and auditing\<close>

definition operator_of :: "string option \<Rightarrow> string" where
  "operator_of ext = (case ext of None \<Rightarrow> ANONYMOUS_SUBJECT | Some s \<Rightarrow> s)"

definition authorize_and_audit ::
  "pdp \<Rightarrow> 'a append_op \<Rightarrow> i64 \<Rightarrow> string \<Rightarrow> action_descriptor \<Rightarrow> 'a \<Rightarrow> (status + decision) \<times> 'a" where
  "authorize_and_audit pdp ap now subj action audit =
     (case (case pdp subj action of Inr _ \<Rightarrow> Some Allow | Inl Denied \<Rightarrow> Some Deny | Inl _ \<Rightarrow> None) of
        None \<Rightarrow> (Inl Internal, audit)
      | Some d \<Rightarrow>
          (case ap \<lparr>ts_unix = now, subject = subj, kind = ad_kind action, target = ad_target action,
                        run_as = ad_run_as action, decision = d\<rparr> audit of
             (Inl _, audit') \<Rightarrow> (Inl Internal, audit')
           | (Inr _, audit') \<Rightarrow> (Inr d, audit')))"

record shell_open_msg =
  so_host_id :: string
  so_run_as :: string
  so_rows :: u32
  so_cols :: u32

definition authorize_shell_open ::
  "uuid_lib \<Rightarrow> pdp \<Rightarrow> 'a append_op \<Rightarrow> i64 \<Rightarrow> string \<Rightarrow> shell_open_msg \<Rightarrow> 'a \<Rightarrow> (status + uuid) \<times> 'a" where
  "authorize_shell_open U pdp ap now subj op audit =
     (case parse_uuid U (so_host_id op) of
        None \<Rightarrow> (Inl InvalidArgument, audit)
      | Some host \<Rightarrow>
          let action = \<lparr>ad_kind = ''shell'', ad_target = so_host_id op, ad_run_as = so_run_as op, ad_params_hash = []\<rparr> in
          (case authorize_and_audit pdp ap now subj action audit of
             (Inl st, audit') \<Rightarrow> (Inl st, audit')
           | (Inr Allow, audit') \<Rightarrow> (Inr host, audit')
           | (Inr Deny, audit') \<Rightarrow> (Inl PermissionDenied, audit')))"

subsection \<open>Selectors\<close>

fun split_on :: "char \<Rightarrow> string \<Rightarrow> string list" where
  "split_on c [] = [[]]"
| "split_on c (x # xs) =
     (if x = c then [] # split_on c xs
      else case split_on c xs of [] \<Rightarrow> [[x]] | w # ws \<Rightarrow> (x # w) # ws)"

text \<open>\<open>retain(|h| seen.insert(*h))\<close>: the first occurrence of each stays.\<close>

fun retain_fresh :: "'a list \<Rightarrow> 'a list \<Rightarrow> 'a list" where
  "retain_fresh seen [] = []"
| "retain_fresh seen (x # xs) = (if x \<in> set seen then retain_fresh seen xs else x # retain_fresh (x # seen) xs)"

definition parse_token :: "uuid_lib \<Rightarrow> string \<Rightarrow> status + uuid" where
  "parse_token U tok = (case parse_uuid U tok of None \<Rightarrow> Inl InvalidArgument | Some h \<Rightarrow> Inr h)"

text \<open>\<open>online\<close>: what the bridge answers to \<open>OnlineHosts\<close>, or \<open>None\<close> when it is gone before or after the
  request was sent (\<open>sent\<close>).\<close>

definition resolve ::
  "uuid_lib \<Rightarrow> bool \<Rightarrow> uuid list option \<Rightarrow> nat \<Rightarrow> string \<Rightarrow> ('t, 'r, 'a) service \<Rightarrow> (status + uuid list) \<times> ('t, 'r, 'a) service" where
  "resolve U sent online reply selector sv =
     (let (hosts, sv') =
        (if selector = ''*'' then
           (if \<not> sent then (Inl Unavailable, sv)
            else (case online of None \<Rightarrow> Inl Unavailable | Some hs \<Rightarrow> Inr hs,
                  sv\<lparr>sv_commands := sv_commands sv @ [CmdOnlineHosts reply]\<rparr>))
         else (collect_results (parse_token U) (filter (\<lambda>t. t \<noteq> []) (map trim (split_on CHR '','' selector))), sv))
      in case hosts of
           Inl st \<Rightarrow> (Inl st, sv')
         | Inr hs \<Rightarrow>
             let hs' = retain_fresh [] hs in
             if length hs' > MAX_FANOUT then (Inl InvalidArgument, sv') else (Inr hs', sv'))"

subsection \<open>Operator calls\<close>

definition outcome_error :: "string \<Rightarrow> job_result" where
  "outcome_error msg =
     \<lparr>jr_job_id = [], jr_body = Some (Outcome \<lparr>jo_terminal = Some (TermError msg), jo_output_truncated = False, jo_timed_out = False\<rparr>)\<rparr>"

definition to_exec_event :: "uuid_lib \<Rightarrow> host_result \<Rightarrow> exec_event" where
  "to_exec_event U = (\<lambda>(host, result). \<lparr>ee_host_id = hyphenated U host, ee_event = jr_body result\<rparr>)"

datatype shell_server_msg = ShellOutput bytes | ShellClosed bool

definition to_shell_server_msg :: "stream_frame \<Rightarrow> shell_server_msg" where
  "to_shell_server_msg frame = (if sf_eof frame then ShellClosed True else ShellOutput (sf_data frame))"

record dispatch_request =
  dr_action :: "action_descriptor option"
  dr_params :: bytes

definition dispatch_call ::
  "pdp \<Rightarrow> 'a append_op \<Rightarrow> i64 \<Rightarrow> string option \<Rightarrow> dispatch_request \<Rightarrow> ('t, 'r, 'a) service \<Rightarrow> (status + unit) \<times> ('t, 'r, 'a) service" where
  "dispatch_call pdp ap now ext req sv =
     (case dr_action req of
        None \<Rightarrow> (Inl InvalidArgument, sv)
      | Some action \<Rightarrow>
          if ad_kind action = [] then (Inl InvalidArgument, sv)
          else (case authorize_and_audit pdp ap now (operator_of ext) action (sv_audit sv) of
                  (Inl st, audit) \<Rightarrow> (Inl st, sv\<lparr>sv_audit := audit\<rparr>)
                | (Inr Allow, audit) \<Rightarrow> (Inr (), sv\<lparr>sv_audit := audit\<rparr>)
                | (Inr Deny, audit) \<Rightarrow> (Inl PermissionDenied, sv\<lparr>sv_audit := audit\<rparr>)))"

text \<open>What the fan-out meets for one host: the clock, the audit store, the new job id, and whether the
  bridge is there.\<close>

record 'a host_env =
  he_now :: i64
  he_append :: "'a append_op"
  he_job_id :: uuid
  he_bridge :: bool

definition exec_host ::
  "uuid_lib \<Rightarrow> pdp \<Rightarrow> string \<Rightarrow> action_descriptor \<Rightarrow> bytes \<Rightarrow> nat \<Rightarrow> 'a host_env \<Rightarrow> uuid \<Rightarrow> ('t, 'r, 'a) service \<Rightarrow> ('t, 'r, 'a) service" where
  "exec_host U pdp subj action params chan e host sv =
     (let per_host = \<lparr>ad_kind = ad_kind action, ad_target = hyphenated U host, ad_run_as = ad_run_as action,
                      ad_params_hash = ad_params_hash action\<rparr>;
          report = (\<lambda>msg sv. sv\<lparr>sv_events := sv_events sv @ [(host, outcome_error msg)]\<rparr>) in
      case authorize_and_audit pdp (he_append e) (he_now e) subj per_host (sv_audit sv) of
        (Inr Allow, audit) \<Rightarrow>
          let sv' = sv\<lparr>sv_audit := audit\<rparr>;
              dispatch = \<lparr>dm_job_id = hyphenated U (he_job_id e), dm_kind = ad_kind action, dm_run_as = ad_run_as action,
                          dm_params = params\<rparr>
          in if he_bridge e then sv'\<lparr>sv_commands := sv_commands sv' @ [CmdDispatch host dispatch chan]\<rparr>
             else report ''dispatch bridge unavailable'' sv'
      | (Inr Deny, audit) \<Rightarrow> report ''not authorized for this host'' (sv\<lparr>sv_audit := audit\<rparr>)
      | (Inl _, audit) \<Rightarrow> report ''authorization unavailable'' (sv\<lparr>sv_audit := audit\<rparr>))"

fun exec_fanout ::
  "uuid_lib \<Rightarrow> pdp \<Rightarrow> string \<Rightarrow> action_descriptor \<Rightarrow> bytes \<Rightarrow> nat \<Rightarrow> (nat \<Rightarrow> 'a host_env) \<Rightarrow> uuid list \<Rightarrow> ('t, 'r, 'a) service
   \<Rightarrow> ('t, 'r, 'a) service" where
  "exec_fanout U pdp subj action params chan envs [] sv = sv"
| "exec_fanout U pdp subj action params chan envs (host # hosts) sv =
     exec_fanout U pdp subj action params chan (\<lambda>i. envs (Suc i)) hosts (exec_host U pdp subj action params chan (envs 0) host sv)"

record 'a exec_env =
  xe_sent :: bool
  xe_online :: "uuid list option"
  xe_reply :: nat
  xe_chan :: nat
  xe_hosts :: "nat \<Rightarrow> 'a host_env"

text \<open>The call returns the operator's stream (its channel); the fan-out runs behind it.\<close>

definition exec_call ::
  "uuid_lib \<Rightarrow> pdp \<Rightarrow> 'a exec_env \<Rightarrow> string option \<Rightarrow> dispatch_request \<Rightarrow> ('t, 'r, 'a) service
   \<Rightarrow> (status + nat) \<times> ('t, 'r, 'a) service" where
  "exec_call U pdp e ext req sv =
     (case dr_action req of
        None \<Rightarrow> (Inl InvalidArgument, sv)
      | Some action \<Rightarrow>
          if ad_kind action = [] then (Inl InvalidArgument, sv)
          else (case resolve U (xe_sent e) (xe_online e) (xe_reply e) (ad_target action) sv of
                  (Inl st, sv') \<Rightarrow> (Inl st, sv')
                | (Inr hosts, sv') \<Rightarrow>
                    if hosts = [] then (Inl StatusNotFound, sv')
                    else (Inr (xe_chan e),
                          exec_fanout U pdp (operator_of ext) action (dr_params req) (xe_chan e) (xe_hosts e) hosts sv')))"

datatype shell_client_msg = MsgOpen shell_open_msg | MsgInput bytes | MsgClose bool | MsgNone

text \<open>The input pump on the messages the client stream yields until it ends, with the number of sends
  the bridge still takes; the commands it hands over.\<close>

fun shell_pump :: "uuid \<Rightarrow> string \<Rightarrow> nat \<Rightarrow> shell_client_msg list \<Rightarrow> bridge_command list" where
  "shell_pump host stream_id takes [] = (if takes = 0 then [] else [CmdShellClose host stream_id])"
| "shell_pump host stream_id takes (MsgInput data # msgs) =
     (if takes = 0 then [] else CmdShellInput host stream_id data # shell_pump host stream_id (takes - 1) msgs)"
| "shell_pump host stream_id takes (MsgClose b # msgs) = (if takes = 0 then [] else [CmdShellClose host stream_id])"
| "shell_pump host stream_id takes (MsgOpen op # msgs) = shell_pump host stream_id takes msgs"
| "shell_pump host stream_id takes (MsgNone # msgs) = shell_pump host stream_id takes msgs"

record 'a shell_env =
  sl_now :: i64
  sl_append :: "'a append_op"
  sl_stream_id :: uuid
  sl_chan :: nat
  sl_takes :: nat

text \<open>\<open>first\<close>: the first message of the client stream, its end, or its error; \<open>rest\<close>: what follows.\<close>

definition shell_call ::
  "uuid_lib \<Rightarrow> pdp \<Rightarrow> 'a shell_env \<Rightarrow> string option \<Rightarrow> status + shell_client_msg option \<Rightarrow> shell_client_msg list \<Rightarrow> ('t, 'r, 'a) service
   \<Rightarrow> (status + nat) \<times> ('t, 'r, 'a) service" where
  "shell_call U pdp e ext first rest sv =
     (case first of
        Inl st \<Rightarrow> (Inl st, sv)
      | Inr None \<Rightarrow> (Inl InvalidArgument, sv)
      | Inr (Some (MsgOpen op)) \<Rightarrow>
          (case authorize_shell_open U pdp (sl_append e) (sl_now e) (operator_of ext) op (sv_audit sv) of
             (Inl st, audit) \<Rightarrow> (Inl st, sv\<lparr>sv_audit := audit\<rparr>)
           | (Inr host, audit) \<Rightarrow>
               let sv' = sv\<lparr>sv_audit := audit\<rparr>; stream_id = hyphenated U (sl_stream_id e) in
               if sl_takes e = 0 then (Inl Unavailable, sv')
               else (Inr (sl_chan e),
                     sv'\<lparr>sv_commands := sv_commands sv'
                       @ CmdOpenShell host stream_id (so_run_as op) (so_rows op) (so_cols op) (sl_chan e)
                       # shell_pump host stream_id (sl_takes e - 1) rest\<rparr>))
      | Inr (Some _) \<Rightarrow> (Inl InvalidArgument, sv))"

definition mint_token_call ::
  "(nat \<Rightarrow> 't \<Rightarrow> (mint_error + string \<times> int) \<times> 't) \<Rightarrow> nat \<Rightarrow> u64 \<Rightarrow> ('t, 'r, 'a) service
   \<Rightarrow> (status + string \<times> int) \<times> ('t, 'r, 'a) service" where
  "mint_token_call mint default_ttl ttl_seconds sv =
     (let ttl = (if ttl_seconds = 0 then default_ttl else unat ttl_seconds * 1000000000) in
      case mint ttl (sv_tokens sv) of
        (Inl MintFull, t) \<Rightarrow> (Inl ResourceExhausted, sv\<lparr>sv_tokens := t\<rparr>)
      | (Inl _, t) \<Rightarrow> (Inl Internal, sv\<lparr>sv_tokens := t\<rparr>)
      | (Inr r, t) \<Rightarrow> (Inr r, sv\<lparr>sv_tokens := t\<rparr>))"

definition revoke_call ::
  "uuid_lib \<Rightarrow> (uuid \<Rightarrow> 'r \<Rightarrow> (port_error + unit) \<times> 'r) \<Rightarrow> string \<Rightarrow> ('t, 'r, 'a) service \<Rightarrow> (status + unit) \<times> ('t, 'r, 'a) service" where
  "revoke_call U revoke host_id sv =
     (case parse_uuid U host_id of
        None \<Rightarrow> (Inl InvalidArgument, sv)
      | Some host \<Rightarrow>
          (case revoke host (sv_revoked sv) of
             (Inl _, r) \<Rightarrow> (Inl Internal, sv\<lparr>sv_revoked := r\<rparr>)
           | (Inr _, r) \<Rightarrow> (Inr (), sv\<lparr>sv_revoked := r\<rparr>)))"

text \<open>The wire form of an audit entry.\<close>

record audit_entry_msg =
  am_seq :: u64
  am_ts_unix :: i64
  am_subject :: string
  am_kind :: string
  am_target :: string
  am_run_as :: string
  am_decision :: string
  am_prev_hash :: bytes
  am_hash :: bytes

definition to_entry_msg :: "audit_entry \<Rightarrow> audit_entry_msg" where
  "to_entry_msg e =
     \<lparr>am_seq = ae_seq e, am_ts_unix = ts_unix (ae_record e), am_subject = subject (ae_record e), am_kind = kind (ae_record e),
      am_target = target (ae_record e), am_run_as = run_as (ae_record e),
      am_decision = decision_as_str (decision (ae_record e)), am_prev_hash = be_bytes 32 (ae_prev_hash e),
      am_hash = be_bytes 32 (ae_hash e)\<rparr>"

definition export_audit_call ::
  "('a \<Rightarrow> port_error + audit_entry list) \<Rightarrow> ('t, 'r, 'a) service \<Rightarrow> status + audit_entry_msg list" where
  "export_audit_call export sv =
     (case export (sv_audit sv) of Inl _ \<Rightarrow> Inl Internal | Inr entries \<Rightarrow> Inr (map to_entry_msg entries))"

subsection \<open>Enrollment\<close>

record enroll_response =
  er_host_id :: string
  er_cert :: bytes
  er_ca_root :: bytes

definition enroll_call ::
  "pki \<Rightarrow> uuid_lib \<Rightarrow> embedded_ca \<Rightarrow> (string \<Rightarrow> 't \<Rightarrow> (redeem_error + unit) \<times> 't) \<Rightarrow> uuid \<Rightarrow> int \<Rightarrow> string \<Rightarrow> bytes
   \<Rightarrow> ('t, 'r, 'a) service \<Rightarrow> (status + enroll_response) \<times> ('t, 'r, 'a) service" where
  "enroll_call K U ca redeem fresh now join_token csr sv =
     (case validate_csr K csr of
        Inl _ \<Rightarrow> (Inl InvalidArgument, sv)
      | Inr _ \<Rightarrow>
          (case redeem join_token (sv_tokens sv) of
             (Inl _, t) \<Rightarrow> (Inl PermissionDenied, sv\<lparr>sv_tokens := t\<rparr>)
           | (Inr _, t) \<Rightarrow>
               let sv' = sv\<lparr>sv_tokens := t\<rparr> in
               (case ca_issue K U now ca fresh csr of
                  Inl (Invalid _) \<Rightarrow> (Inl InvalidArgument, sv')
                | Inl _ \<Rightarrow> (Inl Internal, sv')
                | Inr cert \<Rightarrow>
                    (Inr \<lparr>er_host_id = hyphenated U fresh, er_cert = cert, er_ca_root = ca_root_der ca\<rparr>, sv'))))"

definition renew_call ::
  "pki \<Rightarrow> uuid_lib \<Rightarrow> embedded_ca \<Rightarrow> (uuid \<Rightarrow> 'r \<Rightarrow> port_error + bool) \<Rightarrow> int \<Rightarrow> int \<Rightarrow> bytes \<Rightarrow> bytes \<Rightarrow> ('t, 'r, 'a) service
   \<Rightarrow> status + bytes" where
  "renew_call K U ca is_revoked now1 now2 current_cert csr sv =
     (case validate_renewal K U now1 ca current_cert csr of
        Inl (Invalid _) \<Rightarrow> Inl PermissionDenied
      | Inl _ \<Rightarrow> Inl Internal
      | Inr host_id \<Rightarrow>
          (case is_revoked host_id (sv_revoked sv) of
             Inl _ \<Rightarrow> Inl Internal
           | Inr True \<Rightarrow> Inl PermissionDenied
           | Inr False \<Rightarrow> (case ca_issue K U now2 ca host_id csr of Inl _ \<Rightarrow> Inl Internal | Inr cert \<Rightarrow> Inr cert)))"

end
