(* ===== verification/Service_Safety.thy ===== *)
theory Service_Safety
  imports Service "HOL-Library.Multiset"
begin

text \<open>
  What the gRPC services of \<^verbatim>\<open>Service\<close> guarantee: nothing reaches a host without an audited decision,
  a fan-out accounts for every host, and certificates are issued only against a redeemed token or a
  live identity.
\<close>

subsection \<open>Every command follows an audited decision\<close>

text \<open>What justifies a command that starts something on a host: a record of the log that allows it.\<close>

definition allows_start :: "uuid_lib \<Rightarrow> pdp \<Rightarrow> audit_record list \<Rightarrow> uuid \<Rightarrow> string \<Rightarrow> string \<Rightarrow> bool" where
  "allows_start U pdp rs host k user \<longleftrightarrow>
     (\<exists>r \<in> set rs. decision r = Allow \<and> kind r = k \<and> run_as r = user \<and> parse_uuid U (target r) = Some host
        \<and> (\<exists>ph. pdp (subject r) \<lparr>ad_kind = k, ad_target = target r, ad_run_as = user, ad_params_hash = ph\<rparr> = Inr ()))"

fun command_audited :: "uuid_lib \<Rightarrow> pdp \<Rightarrow> audit_record list \<Rightarrow> bridge_command \<Rightarrow> bool" where
  "command_audited U pdp rs (CmdDispatch host d c) \<longleftrightarrow> allows_start U pdp rs host (dm_kind d) (dm_run_as d)"
| "command_audited U pdp rs (CmdOpenShell host stream_id user rows cols out) \<longleftrightarrow> allows_start U pdp rs host ''shell'' user"
| "command_audited U pdp rs _ \<longleftrightarrow> True"

lemma command_audited_mono: "command_audited U pdp rs c \<Longrightarrow> set rs \<subseteq> set rs' \<Longrightarrow> command_audited U pdp rs' c"
  by (cases c) (auto simp: allows_start_def)

lemma shell_pump_audited: "list_all (command_audited U pdp rs) (shell_pump host stream_id takes msgs)"
  by (induction host stream_id takes msgs rule: shell_pump.induct) simp_all

text \<open>The operator calls as a history; each call brings the audit store's behaviour for its appends.\<close>

datatype 'a operator_call =
    ExecCall "'a exec_env" "string option" dispatch_request
  | ShellCall "'a shell_env" "string option" "status + shell_client_msg option" "shell_client_msg list"
  | DispatchCall i64 "'a append_op" "string option" dispatch_request

fun operator_step :: "uuid_lib \<Rightarrow> pdp \<Rightarrow> 'a operator_call \<Rightarrow> ('t, 'r, 'a) service \<Rightarrow> ('t, 'r, 'a) service" where
  "operator_step U pdp (ExecCall e ext req) sv = snd (exec_call U pdp e ext req sv)"
| "operator_step U pdp (ShellCall e ext first rest) sv = snd (shell_call U pdp e ext first rest sv)"
| "operator_step U pdp (DispatchCall now ap ext req) sv = snd (dispatch_call pdp ap now ext req sv)"

definition operator_calls :: "uuid_lib \<Rightarrow> pdp \<Rightarrow> 'a operator_call list \<Rightarrow> ('t, 'r, 'a) service \<Rightarrow> ('t, 'r, 'a) service" where
  "operator_calls U pdp calls sv = fold (operator_step U pdp) calls sv"

fun call_uses :: "('f \<Rightarrow> 'a append_op) \<Rightarrow> 'a operator_call \<Rightarrow> bool" where
  "call_uses ap (ExecCall e ext req) \<longleftrightarrow> (\<forall>i. \<exists>f. he_append (xe_hosts e i) = ap f)"
| "call_uses ap (ShellCall e ext first rest) \<longleftrightarrow> (\<exists>f. sl_append e = ap f)"
| "call_uses ap (DispatchCall now ap' ext req) \<longleftrightarrow> (\<exists>f. ap' = ap f)"

lemma resolve_result:
  assumes "resolve U sent online reply selector sv = (r, sv')"
  shows "sv_audit sv' = sv_audit sv" "sv_events sv' = sv_events sv"
    "\<exists>cs. sv_commands sv' = sv_commands sv @ cs \<and> list_all (command_audited U pdp rs) cs"
    "\<And>hosts. r = Inr hosts \<Longrightarrow> distinct hosts \<and> length hosts \<le> MAX_FANOUT"
proof -
  have fresh: "distinct (retain_fresh seen xs) \<and> set (retain_fresh seen xs) \<inter> set seen = {}" for seen and xs :: "uuid list"
    by (induction seen xs rule: retain_fresh.induct) auto
  show "sv_audit sv' = sv_audit sv" "sv_events sv' = sv_events sv"
    "\<exists>cs. sv_commands sv' = sv_commands sv @ cs \<and> list_all (command_audited U pdp rs) cs"
    using assms by (auto simp: resolve_def Let_def split: if_splits sum.splits option.splits)
  show "distinct hosts \<and> length hosts \<le> MAX_FANOUT" if "r = Inr hosts" for hosts
    using assms that fresh by (auto simp: resolve_def Let_def split: if_splits sum.splits option.splits prod.splits)
qed

text \<open>The log holds a verifying chain of at most \<open>n\<close> entries that justifies every command so far.\<close>

definition audited ::
  "hasher \<Rightarrow> ('a \<Rightarrow> audit_entry list \<Rightarrow> bool) \<Rightarrow> uuid_lib \<Rightarrow> pdp \<Rightarrow> nat \<Rightarrow> ('t, 'r, 'a) service \<Rightarrow> bool" where
  "audited sha holds U pdp n sv \<longleftrightarrow> (\<exists>es. holds (sv_audit sv) es \<and> verify sha es None = Inr () \<and> length es \<le> n
     \<and> list_all (command_audited U pdp (map ae_record es)) (sv_commands sv))"

lemma audited_weaken: "audited sha holds U pdp n sv \<Longrightarrow> n \<le> m \<Longrightarrow> audited sha holds U pdp m sv"
  unfolding audited_def by (meson le_trans)

context audit_log_port
begin

lemma decision_recorded:
  assumes "holds s es" "verify sha es None = Inr ()" "length es < 2 ^ 63 - 1"
    and "authorize_and_audit pdp (append_op f) now subj action s = (res, s')"
  shows "\<exists>new. length new \<le> 1 \<and> holds s' (es @ new) \<and> verify sha (es @ new) None = Inr ()
    \<and> (res = Inr Allow \<longrightarrow> pdp subj action = Inr () \<and> map ae_record new =
         [\<lparr>ts_unix = now, subject = subj, kind = ad_kind action, target = ad_target action, run_as = ad_run_as action, decision = Allow\<rparr>])"
proof -
  define dec where "dec = (case pdp subj action of Inr _ \<Rightarrow> Some Allow | Inl Denied \<Rightarrow> Some Deny | Inl _ \<Rightarrow> None)"
  show ?thesis
  proof (cases dec)
    case None
    then have "res = Inl Internal" "s' = s" using assms(4) by (simp_all add: authorize_and_audit_def dec_def)
    then show ?thesis using assms(1,2) by (intro exI [of _ "[]"]) simp
  next
    case (Some d)
    define r where "r = \<lparr>ts_unix = now, subject = subj, kind = ad_kind action, target = ad_target action, run_as = ad_run_as action, decision = d\<rparr>"
    obtain ack where ap: "append_op f r s = (ack, s')" and res: "res = (case ack of Inl _ \<Rightarrow> Inl Internal | Inr _ \<Rightarrow> Inr d)"
      using assms(4) Some by (auto simp: authorize_and_audit_def dec_def [symmetric] r_def split: prod.splits sum.splits)
    let ?e = "seal_entry sha (of_nat (length es)) r (chain_head es)"
    have rec: "ae_record ?e = r" by (simp add: seal_entry_def)
    have v: "verify sha (es @ [?e]) None = Inr ()" using assms(2) by (simp add: verify_None verify_loop_chain_snoc rec)
    have d: "d = Allow \<Longrightarrow> pdp subj action = Inr ()"
      using Some by (auto simp: dec_def split: sum.splits port_error.splits)
    from append_holds [OF assms(1,2,3) ap] show ?thesis
    proof
      assume "holds s' (es @ [?e])"
      then show ?thesis using v d rec by (intro exI [of _ "[?e]"]) (auto simp: res r_def split: sum.splits)
    next
      assume "ack \<noteq> Inr () \<and> holds s' es"
      then show ?thesis using assms(2) by (intro exI [of _ "[]"]) (auto simp: res split: sum.splits)
    qed
  qed
qed

lemma authorize_keeps_audited:
  assumes "audited sha holds U pdp n sv" "n < 2 ^ 63 - 1"
    and "authorize_and_audit pdp (append_op f) now subj action (sv_audit sv) = (res, audit)"
  shows "audited sha holds U pdp (Suc n) (sv\<lparr>sv_audit := audit\<rparr>)
    \<and> (res = Inr Allow \<and> parse_uuid U (ad_target action) = Some host \<and> ad_kind action = k \<and> ad_run_as action = user \<longrightarrow> (\<forall>cs. list_all (\<lambda>c. \<forall>rs. allows_start U pdp rs host k user \<longrightarrow> command_audited U pdp rs c) cs
        \<longrightarrow> audited sha holds U pdp (Suc n) (sv\<lparr>sv_audit := audit, sv_commands := sv_commands sv @ cs\<rparr>)))"
proof -
  obtain es where es: "holds (sv_audit sv) es" "verify sha es None = Inr ()" "length es \<le> n"
    "list_all (command_audited U pdp (map ae_record es)) (sv_commands sv)"
    using assms(1) by (auto simp: audited_def)
  have "length es < 2 ^ 63 - 1" using es(3) assms(2) by simp
  from decision_recorded [OF es(1,2) this assms(3)] obtain new where new: "length new \<le> 1" "holds audit (es @ new)"
    "verify sha (es @ new) None = Inr ()"
    "res = Inr Allow \<longrightarrow> pdp subj action = Inr () \<and> map ae_record new =
         [\<lparr>ts_unix = now, subject = subj, kind = ad_kind action, target = ad_target action, run_as = ad_run_as action, decision = Allow\<rparr>]"
    by (elim exE conjE)
  have old: "list_all (command_audited U pdp (map ae_record (es @ new))) (sv_commands sv)"
    using es(4) command_audited_mono by (fastforce simp: list_all_iff)
  have allow: "allows_start U pdp (map ae_record (es @ new)) host k user"
    if "res = Inr Allow \<and> parse_uuid U (ad_target action) = Some host \<and> ad_kind action = k \<and> ad_run_as action = user"
    using new(4) that by (cases action) (auto simp: allows_start_def)
  have len: "length (es @ new) \<le> Suc n" using es(3) new(1) by simp
  show ?thesis
  proof (intro conjI impI allI)
    show "audited sha holds U pdp (Suc n) (sv\<lparr>sv_audit := audit\<rparr>)"
      unfolding audited_def by (rule exI [of _ "es @ new"]) (use new(2,3) len old in simp)
    fix cs
    assume "res = Inr Allow \<and> parse_uuid U (ad_target action) = Some host \<and> ad_kind action = k \<and> ad_run_as action = user" and cs: "list_all (\<lambda>c. \<forall>rs. allows_start U pdp rs host k user \<longrightarrow> command_audited U pdp rs c) cs"
    then have "list_all (command_audited U pdp (map ae_record (es @ new))) cs" using allow by (simp add: list_all_iff)
    then show "audited sha holds U pdp (Suc n) (sv\<lparr>sv_audit := audit, sv_commands := sv_commands sv @ cs\<rparr>)"
      unfolding audited_def by (intro exI [of _ "es @ new"]) (use new(2,3) len old in simp)
  qed
qed

lemma exec_host_audited:
  assumes "uuid_laws U" "audited sha holds U pdp n sv" "n < 2 ^ 63 - 1" "he_append e = append_op f"
  shows "audited sha holds U pdp (Suc n) (exec_host U pdp subj action params chan e host sv)"
proof -
  define per_host where "per_host = \<lparr>ad_kind = ad_kind action, ad_target = hyphenated U host, ad_run_as = ad_run_as action,
      ad_params_hash = ad_params_hash action\<rparr>"
  obtain res audit where a: "authorize_and_audit pdp (append_op f) (he_now e) subj per_host (sv_audit sv) = (res, audit)" by fastforce
  have "parse_uuid U (hyphenated U host) = Some host" using assms(1) by (simp add: uuid_laws_def)
  then have "res = Inr Allow \<longrightarrow> parse_uuid U (ad_target per_host) = Some host \<and> ad_kind per_host = ad_kind action \<and> ad_run_as per_host = ad_run_as action"
    by (simp add: per_host_def)
  note k = this authorize_keeps_audited [OF assms(2,3) a, of host "ad_kind action" "ad_run_as action"]
  have ev: "audited sha holds U pdp m (sv\<lparr>sv_audit := x, sv_events := evs\<rparr>) = audited sha holds U pdp m (sv\<lparr>sv_audit := x\<rparr>)" for m x evs
    by (simp add: audited_def)
  show ?thesis
  proof (cases res)
    case (Inl st)
    then show ?thesis using k a by (simp add: exec_host_def per_host_def [symmetric] assms(4) ev)
  next
    case (Inr d)
    then show ?thesis using k a by (cases d) (simp_all add: exec_host_def per_host_def [symmetric] assms(4) ev Let_def)
  qed
qed

lemma exec_fanout_audited:
  assumes "uuid_laws U" "audited sha holds U pdp n sv" "n + length hosts < 2 ^ 63" "\<And>i. \<exists>f. he_append (envs i) = append_op f"
  shows "audited sha holds U pdp (n + length hosts) (exec_fanout U pdp subj action params chan envs hosts sv)"
  using assms(2-)
proof (induction hosts arbitrary: n sv envs)
  case (Cons host hosts)
  obtain f where "he_append (envs 0) = append_op f" using Cons.prems(3) by blast
  then have "audited sha holds U pdp (Suc n) (exec_host U pdp subj action params chan (envs 0) host sv)"
    using Cons.prems(2) by (intro exec_host_audited [OF assms(1) Cons.prems(1)]) simp_all
  from Cons.IH [OF this, of "\<lambda>i. envs (Suc i)"] Cons.prems show ?case by simp
qed simp

lemma exec_call_audited:
  assumes "uuid_laws U" "audited sha holds U pdp n sv" "n + MAX_FANOUT < 2 ^ 63" "\<And>i. \<exists>f. he_append (xe_hosts e i) = append_op f"
  shows "audited sha holds U pdp (n + MAX_FANOUT) (operator_step U pdp (ExecCall e ext req) sv)"
proof (cases "\<exists>action. dr_action req = Some action \<and> ad_kind action \<noteq> []")
  case False
  then show ?thesis using audited_weaken [OF assms(2)] by (auto simp: exec_call_def split: option.splits)
next
  case True
  then obtain action where act: "dr_action req = Some action" "ad_kind action \<noteq> []" by blast
  obtain r sv' where r: "resolve U (xe_sent e) (xe_online e) (xe_reply e) (ad_target action) sv = (r, sv')" by fastforce
  have "audited sha holds U pdp n sv'"
    using assms(2) resolve_result(1) [OF r] resolve_result(3) [OF r, of pdp] by (fastforce simp: audited_def)
  moreover have "audited sha holds U pdp (n + MAX_FANOUT) (exec_fanout U pdp (operator_of ext) action (dr_params req) (xe_chan e) (xe_hosts e) hosts sv')"
    if "r = Inr hosts" for hosts
  proof -
    have len: "length hosts \<le> MAX_FANOUT" using resolve_result(4) [OF r that] by simp
    have "audited sha holds U pdp (n + length hosts) (exec_fanout U pdp (operator_of ext) action (dr_params req) (xe_chan e) (xe_hosts e) hosts sv')"
      by (rule exec_fanout_audited [OF assms(1) \<open>audited sha holds U pdp n sv'\<close>]) (use len assms(3,4) in auto)
    then show ?thesis using len by (rule audited_weaken [OF _ add_left_mono])
  qed
  ultimately show ?thesis
    using act r audited_weaken [of sha holds U pdp n sv' "n + MAX_FANOUT"] by (cases r) (auto simp: exec_call_def)
qed

lemma shell_call_audited:
  assumes "audited sha holds U pdp n sv" "n + MAX_FANOUT < 2 ^ 63" "sl_append e = append_op f"
  shows "audited sha holds U pdp (n + MAX_FANOUT) (operator_step U pdp (ShellCall e ext first rest) sv)"
proof (cases "\<exists>op host. first = Inr (Some (MsgOpen op)) \<and> parse_uuid U (so_host_id op) = Some host")
  case False
  then show ?thesis
    using audited_weaken [OF assms(1), of "n + MAX_FANOUT"]
    by (auto simp: shell_call_def authorize_shell_open_def split: sum.split option.split shell_client_msg.split)
next
  case True
  then obtain op host where op: "first = Inr (Some (MsgOpen op))" "parse_uuid U (so_host_id op) = Some host" by blast
  have weak: "audited sha holds U pdp (n + MAX_FANOUT) sv'" if "audited sha holds U pdp (Suc n) sv'" for sv' :: "('t, 'r, 's) service"
    using that by (rule audited_weaken) (simp add: MAX_FANOUT_def)
  define action where "action = \<lparr>ad_kind = ''shell'', ad_target = so_host_id op, ad_run_as = so_run_as op, ad_params_hash = []\<rparr>"
  obtain res audit where a: "authorize_and_audit pdp (append_op f) (sl_now e) (operator_of ext) action (sv_audit sv) = (res, audit)" by fastforce
  have "n < 2 ^ 63 - 1" using assms(2) by (simp add: MAX_FANOUT_def)
  note k = authorize_keeps_audited [OF assms(1) this a, of host "''shell''" "so_run_as op"]
  show ?thesis
  proof (cases "res = Inr Allow")
    case False
    then have "operator_step U pdp (ShellCall e ext first rest) sv = sv\<lparr>sv_audit := audit\<rparr>"
      using a by (cases res; cases "projr res") (auto simp: shell_call_def op authorize_shell_open_def assms(3) action_def [symmetric] Let_def)
    then show ?thesis using weak k False by simp
  next
    case True
    define stream_id where "stream_id = hyphenated U (sl_stream_id e)"
    define cs where "cs = (if sl_takes e = 0 then [] else CmdOpenShell host stream_id (so_run_as op) (so_rows op) (so_cols op) (sl_chan e)
      # shell_pump host stream_id (sl_takes e - 1) rest)"
    have step: "operator_step U pdp (ShellCall e ext first rest) sv = sv\<lparr>sv_audit := audit, sv_commands := sv_commands sv @ cs\<rparr>"
      using a True by (simp add: shell_call_def op authorize_shell_open_def assms(3) action_def [symmetric] Let_def cs_def stream_id_def)
    have "list_all (\<lambda>c. \<forall>rs. allows_start U pdp rs host ''shell'' (so_run_as op) \<longrightarrow> command_audited U pdp rs c) cs"
      using shell_pump_audited [of U pdp _ host stream_id "sl_takes e - 1" rest] by (auto simp: cs_def list_all_iff)
    then show ?thesis unfolding step using k True op by (intro weak) (simp add: action_def)
  qed
qed

lemma dispatch_call_audited:
  assumes "audited sha holds U pdp n sv" "n + MAX_FANOUT < 2 ^ 63"
  shows "audited sha holds U pdp (n + MAX_FANOUT) (operator_step U pdp (DispatchCall now (append_op f) ext req) sv)"
proof -
  have n: "n < 2 ^ 63 - 1" using assms(2) by (simp add: MAX_FANOUT_def)
  have keep: "audited sha holds U pdp (n + MAX_FANOUT) (sv\<lparr>sv_audit := audit\<rparr>)"
    if "authorize_and_audit pdp (append_op f) now subj action (sv_audit sv) = (res, audit)" for subj action res audit
    by (rule audited_weaken [OF conjunct1 [OF authorize_keeps_audited [OF assms(1) n that]]]) (simp add: MAX_FANOUT_def)
  have "audited sha holds U pdp (n + MAX_FANOUT) sv" by (rule audited_weaken [OF assms(1)]) simp
  then show ?thesis
    by (auto simp: dispatch_call_def intro: keep split: option.split prod.split sum.split decision.split)
qed

lemma operator_step_audited:
  assumes "uuid_laws U" "audited sha holds U pdp n sv" "n + MAX_FANOUT < 2 ^ 63" "call_uses append_op call"
  shows "audited sha holds U pdp (n + MAX_FANOUT) (operator_step U pdp call sv)"
proof (cases call)
  case (ExecCall e ext req)
  then show ?thesis using exec_call_audited [OF assms(1-3), of e] assms(4) by auto
next
  case (ShellCall e ext first rest)
  then show ?thesis using shell_call_audited [OF assms(2,3), of e] assms(4) by auto
next
  case (DispatchCall now ap ext req)
  then show ?thesis using dispatch_call_audited [OF assms(2,3)] assms(4) by auto
qed

lemma operator_calls_audited:
  assumes "uuid_laws U" "audited sha holds U pdp n sv" "n + MAX_FANOUT * length calls < 2 ^ 63" "list_all (call_uses append_op) calls"
  shows "audited sha holds U pdp (n + MAX_FANOUT * length calls) (operator_calls U pdp calls sv)"
  using assms(2-)
proof (induction calls arbitrary: n sv)
  case (Cons call calls)
  have "audited sha holds U pdp (n + MAX_FANOUT) (operator_step U pdp call sv)"
    by (rule operator_step_audited [OF assms(1) Cons.prems(1)]) (use Cons.prems in simp_all)
  from Cons.IH [OF this] Cons.prems show ?case by (simp add: operator_calls_def algebra_simps)
qed (simp add: operator_calls_def)

lemma exported_log_justifies:
  assumes "uuid_laws U" "holds s []" "MAX_FANOUT * length calls < 2 ^ 63" "list_all (call_uses append_op) calls"
    and "sv_audit sv = s" "sv_commands sv = []"
  shows "\<exists>es. export_op (sv_audit (operator_calls U pdp calls sv)) = Inr es \<and> verify sha es None = Inr ()
    \<and> list_all (command_audited U pdp (map ae_record es)) (sv_commands (operator_calls U pdp calls sv))"
proof -
  have "audited sha holds U pdp 0 sv"
    using assms(2,5,6) by (auto simp: audited_def verify_None intro!: exI [of _ "[]"])
  from operator_calls_audited [OF assms(1) this _ assms(4)] assms(3)
  show ?thesis using export_holds by (auto simp: audited_def)
qed

end

definition new_service :: "'t \<Rightarrow> 'r \<Rightarrow> 'a \<Rightarrow> ('t, 'r, 'a) service" where
  "new_service t r a = \<lparr>sv_tokens = t, sv_revoked = r, sv_audit = a, sv_commands = [], sv_events = []\<rparr>"


definition sample_rbac :: rbac where
  "sample_rbac = [\<lparr>b_subject = ''alice'', b_verbs = [''exec''], b_selectors = [Any], b_run_as = [''deploy'']\<rparr>]"

definition sample_exec_env :: "hasher \<Rightarrow> audit_entry list exec_env" where
  "sample_exec_env sha = \<lparr>xe_sent = True, xe_online = Some [5, 5], xe_reply = 0, xe_chan = 1,
      xe_hosts = (\<lambda>_. \<lparr>he_now = 0, he_append = mem_append sha (), he_job_id = 9, he_bridge = True\<rparr>)\<rparr>"

definition sample_request :: dispatch_request where
  "sample_request = \<lparr>dr_action = Some \<lparr>ad_kind = ''exec'', ad_target = ''*'', ad_run_as = ''deploy'', ad_params_hash = []\<rparr>, dr_params = []\<rparr>"

definition sample_exec :: "hasher \<Rightarrow> audit_entry list operator_call" where
  "sample_exec sha = ExecCall (sample_exec_env sha) (Some ''alice'') sample_request"


subsection \<open>A fan-out accounts for every host\<close>

fun dispatched_host :: "bridge_command \<Rightarrow> uuid option" where
  "dispatched_host (CmdDispatch host d c) = Some host"
| "dispatched_host _ = None"

lemma exec_host_accounts:
  obtains (dispatched) d where "sv_commands (exec_host U pdp subj action params chan e host sv) = sv_commands sv @ [CmdDispatch host d chan]"
      "sv_events (exec_host U pdp subj action params chan e host sv) = sv_events sv"
      "dm_kind d = ad_kind action" "dm_run_as d = ad_run_as action" "dm_params d = params"
  | (reported) msg where "sv_commands (exec_host U pdp subj action params chan e host sv) = sv_commands sv"
      "sv_events (exec_host U pdp subj action params chan e host sv) = sv_events sv @ [(host, outcome_error msg)]"
proof -
  define per_host where "per_host = \<lparr>ad_kind = ad_kind action, ad_target = hyphenated U host, ad_run_as = ad_run_as action,
      ad_params_hash = ad_params_hash action\<rparr>"
  obtain res audit where a: "authorize_and_audit pdp (he_append e) (he_now e) subj per_host (sv_audit sv) = (res, audit)" by fastforce
  consider st where "res = Inl st" | "res = Inr Deny" | "res = Inr Allow" "he_bridge e" | "res = Inr Allow" "\<not> he_bridge e"
    by (metis decision.exhaust sum.exhaust)
  then show ?thesis
    by cases (use a dispatched reported in \<open>auto simp: exec_host_def per_host_def [symmetric] Let_def\<close>)
qed

lemma exec_fanout_accounts:
  "\<exists>cs evs. sv_commands (exec_fanout U pdp subj action params chan envs hosts sv) = sv_commands sv @ cs
     \<and> sv_events (exec_fanout U pdp subj action params chan envs hosts sv) = sv_events sv @ evs
     \<and> mset (map dispatched_host cs) + mset (map (\<lambda>ev. Some (fst ev)) evs) = mset (map Some hosts)
     \<and> list_all (\<lambda>c. \<exists>host d. c = CmdDispatch host d chan \<and> dm_kind d = ad_kind action \<and> dm_run_as d = ad_run_as action \<and> dm_params d = params) cs
     \<and> list_all (\<lambda>(_, res). \<exists>msg. res = outcome_error msg) evs"
proof (induction hosts arbitrary: envs sv)
  case (Cons host hosts)
  let ?sv = "exec_host U pdp subj action params chan (envs 0) host sv"
  obtain cs evs where ih: "sv_commands (exec_fanout U pdp subj action params chan (\<lambda>i. envs (Suc i)) hosts ?sv) = sv_commands ?sv @ cs"
      "sv_events (exec_fanout U pdp subj action params chan (\<lambda>i. envs (Suc i)) hosts ?sv) = sv_events ?sv @ evs"
      "mset (map dispatched_host cs) + mset (map (\<lambda>ev. Some (fst ev)) evs) = mset (map Some hosts)"
      "list_all (\<lambda>c. \<exists>host d. c = CmdDispatch host d chan \<and> dm_kind d = ad_kind action \<and> dm_run_as d = ad_run_as action \<and> dm_params d = params) cs"
      "list_all (\<lambda>(_, res). \<exists>msg. res = outcome_error msg) evs"
    using Cons.IH [of "\<lambda>i. envs (Suc i)" ?sv] by (elim exE conjE)
  show ?case
  proof (cases rule: exec_host_accounts [of U pdp subj action params chan "envs 0" host sv])
    case (dispatched d)
    then show ?thesis using ih by (intro exI [of _ "CmdDispatch host d chan # cs"] exI [of _ evs]) simp
  next
    case (reported msg)
    then show ?thesis using ih by (intro exI [of _ cs] exI [of _ "(host, outcome_error msg) # evs"]) auto
  qed
qed simp

text \<open>
  C33.  A fan-out accounts for every host exactly once: an accepted exec call resolves its selector to
  at most 1024 distinct hosts, and each of them is either dispatched to once, with the requested kind,
  user and parameters and the operator's stream, or reported once with an error; nothing else is sent.
\<close>

theorem exec_accounts_for_every_host:
  assumes "exec_call U pdp e ext req sv = (Inr c, sv')"
  shows "\<exists>action hosts sv1 cs evs. dr_action req = Some action \<and> ad_kind action \<noteq> []
    \<and> resolve U (xe_sent e) (xe_online e) (xe_reply e) (ad_target action) sv = (Inr hosts, sv1)
    \<and> distinct hosts \<and> hosts \<noteq> [] \<and> length hosts \<le> MAX_FANOUT
    \<and> sv_commands sv' = sv_commands sv1 @ cs \<and> sv_events sv' = sv_events sv @ evs
    \<and> mset (map dispatched_host cs) + mset (map (\<lambda>ev. Some (fst ev)) evs) = mset (map Some hosts)
    \<and> list_all (\<lambda>cmd. \<exists>host d. cmd = CmdDispatch host d c \<and> dm_kind d = ad_kind action \<and> dm_run_as d = ad_run_as action
        \<and> dm_params d = dr_params req) cs
    \<and> list_all (\<lambda>(_, res). \<exists>msg. res = outcome_error msg) evs"
proof -
  obtain action hosts sv1 where a: "dr_action req = Some action" "ad_kind action \<noteq> []"
      "resolve U (xe_sent e) (xe_online e) (xe_reply e) (ad_target action) sv = (Inr hosts, sv1)" "hosts \<noteq> []" "c = xe_chan e"
      "sv' = exec_fanout U pdp (operator_of ext) action (dr_params req) (xe_chan e) (xe_hosts e) hosts sv1"
    using assms by (auto simp: exec_call_def split: option.splits if_splits prod.splits sum.splits)
  note r = resolve_result [OF a(3)]
  have "distinct hosts \<and> length hosts \<le> MAX_FANOUT" using r(4) by simp
  moreover note exec_fanout_accounts [of U pdp "operator_of ext" action "dr_params req" c "xe_hosts e" hosts sv1]
  ultimately show ?thesis using a r(2) by (intro exI [of _ action] exI [of _ hosts] exI [of _ sv1]) auto
qed

theorem exec_accounts_for_every_host_witness:
  "\<exists>sv' cs evs. exec_call tally_uuid (authorize tally_uuid []) (sample_exec_env (\<lambda>_. 0)) (Some ''alice'') sample_request
      (new_service () () []) = (Inr 1, sv')
    \<and> sv_commands sv' = CmdOnlineHosts 0 # cs \<and> sv_events sv' = evs
    \<and> mset (map dispatched_host cs) + mset (map (\<lambda>ev. Some (fst ev)) evs) = {#Some 5#}"
proof -
  let ?call = "exec_call tally_uuid (authorize tally_uuid []) (sample_exec_env (\<lambda>_. 0)) (Some ''alice'') sample_request
      (new_service () () [] :: (unit, unit, audit_entry list) service)"
  have res: "resolve tally_uuid (xe_sent (sample_exec_env (\<lambda>_. 0))) (xe_online (sample_exec_env (\<lambda>_. 0))) (xe_reply (sample_exec_env (\<lambda>_. 0)))
      ''*'' (new_service () () [] :: (unit, unit, audit_entry list) service) = (Inr [5], (new_service () () [])\<lparr>sv_commands := [CmdOnlineHosts 0]\<rparr>)"
    by (simp add: resolve_def sample_exec_env_def new_service_def MAX_FANOUT_def)
  have "fst ?call = Inr 1" by (simp add: exec_call_def sample_request_def res) (simp add: sample_exec_env_def)
  then obtain sv' where call: "?call = (Inr 1, sv')" by (cases ?call) simp
  from exec_accounts_for_every_host [OF call] obtain action hosts sv1 cs evs
    where x: "dr_action sample_request = Some action"
      "resolve tally_uuid (xe_sent (sample_exec_env (\<lambda>_. 0))) (xe_online (sample_exec_env (\<lambda>_. 0))) (xe_reply (sample_exec_env (\<lambda>_. 0)))
        (ad_target action) (new_service () () [] :: (unit, unit, audit_entry list) service) = (Inr hosts, sv1)"
      "sv_commands sv' = sv_commands sv1 @ cs" "sv_events sv' = sv_events (new_service () () [] :: (unit, unit, audit_entry list) service) @ evs"
      "mset (map dispatched_host cs) + mset (map (\<lambda>ev. Some (fst ev)) evs) = mset (map Some hosts)"
    by (elim exE conjE) (rule that)
  have "ad_target action = ''*''" using x(1) by (auto simp: sample_request_def)
  then have "hosts = [5]" "sv_commands sv1 = [CmdOnlineHosts 0]" using x(2) res by auto
  then show ?thesis using call x by (intro exI [of _ sv'] exI [of _ cs] exI [of _ evs]) (simp add: new_service_def)
qed

subsection \<open>Certificates\<close>



end
