(* ===== verification/Rust_Net.thy ===== *)
theory Rust_Net
  imports Rust_Str
begin

text \<open>
  \<open>str::parse::<IpAddr>()\<close> of the Rust standard library, its value and \<open>is_loopback\<close>.  The readers follow \<^verbatim>\<open>core::net::parser\<close>: each consumes
  a prefix of its input and returns the rest, or fails.
\<close>

text \<open>Four octets, or eight 16-bit groups.\<close>

datatype ip_addr = V4 "int list" | V6 "int list"

fun is_loopback :: "ip_addr \<Rightarrow> bool" where
  "is_loopback (V4 octets) = (hd octets = 127)"
| "is_loopback (V6 groups) = (groups = [0, 0, 0, 0, 0, 0, 0, 1])"

definition hex_value :: "char \<Rightarrow> nat option" where
  "hex_value c =
     (case digit_value c of
        Some d \<Rightarrow> Some d
      | None \<Rightarrow>
          map_of [(CHR ''a'', 10), (CHR ''b'', 11), (CHR ''c'', 12), (CHR ''d'', 13), (CHR ''e'', 14), (CHR ''f'', 15),
                  (CHR ''A'', 10), (CHR ''B'', 11), (CHR ''C'', 12), (CHR ''D'', 13), (CHR ''E'', 14), (CHR ''F'', 15)] c)"

definition to_digit :: "nat \<Rightarrow> char \<Rightarrow> nat option" where
  "to_digit radix c = (case hex_value c of None \<Rightarrow> None | Some v \<Rightarrow> if v < radix then Some v else None)"

definition read_number :: "nat \<Rightarrow> nat \<Rightarrow> bool \<Rightarrow> int \<Rightarrow> string \<Rightarrow> (int \<times> string) option" where
  "read_number radix max_digits allow_zero_prefix bound s =
     (let ds = takeWhile (\<lambda>c. to_digit radix c \<noteq> None) s;
          v = foldl (\<lambda>a c. a * int radix + int (the (to_digit radix c))) 0 ds
      in if ds = [] \<or> length ds > max_digits then None
         else if \<not> allow_zero_prefix \<and> hd ds = CHR ''0'' \<and> length ds > 1 then None
         else if v > bound then None
         else Some (v, drop (length ds) s))"

definition read_given_char :: "char \<Rightarrow> string \<Rightarrow> string option" where
  "read_given_char c s = (case s of [] \<Rightarrow> None | x # xs \<Rightarrow> if x = c then Some xs else None)"

fun read_octets :: "nat \<Rightarrow> nat \<Rightarrow> string \<Rightarrow> (int list \<times> string) option" where
  "read_octets i 0 s = Some ([], s)"
| "read_octets i (Suc n) s =
     (case (if i > 0 then read_given_char CHR ''.'' s else Some s) of
        None \<Rightarrow> None
      | Some s' \<Rightarrow>
          (case read_number 10 3 False 255 s' of
             None \<Rightarrow> None
           | Some (v, rest) \<Rightarrow> (case read_octets (Suc i) n rest of None \<Rightarrow> None | Some (vs, rest') \<Rightarrow> Some (v # vs, rest'))))"

definition read_ipv4_addr :: "string \<Rightarrow> (int list \<times> string) option" where
  "read_ipv4_addr s = read_octets 0 4 s"

definition read_separator :: "char \<Rightarrow> nat \<Rightarrow> (string \<Rightarrow> 'a option) \<Rightarrow> string \<Rightarrow> 'a option" where
  "read_separator c index inner s =
     (if index > 0 then (case read_given_char c s of None \<Rightarrow> None | Some s' \<Rightarrow> inner s') else inner s)"

text \<open>The groups read from position \<open>i\<close> with \<open>n\<close> slots left, whether the last two were an embedded
  IPv4 address, and the rest.\<close>

fun read_groups :: "nat \<Rightarrow> nat \<Rightarrow> string \<Rightarrow> int list \<times> bool \<times> string" where
  "read_groups i 0 s = ([], False, s)"
| "read_groups i (Suc n) s =
     (case (if n > 0 then read_separator CHR '':'' i read_ipv4_addr s else None) of
        Some (os, rest) \<Rightarrow> ([os ! 0 * 256 + os ! 1, os ! 2 * 256 + os ! 3], True, rest)
      | None \<Rightarrow>
          (case read_separator CHR '':'' i (read_number 16 4 True 65535) s of
             Some (g, rest) \<Rightarrow> (case read_groups (Suc i) n rest of (gs, v4, rest') \<Rightarrow> (g # gs, v4, rest'))
           | None \<Rightarrow> ([], False, s)))"

definition read_ipv6_addr :: "string \<Rightarrow> (int list \<times> string) option" where
  "read_ipv6_addr s =
     (case read_groups 0 8 s of
        (head, head_ipv4, rest) \<Rightarrow>
          if length head = 8 then Some (head, rest)
          else if head_ipv4 then None
          else case Option.bind (read_given_char CHR '':'' rest) (read_given_char CHR '':'') of
            None \<Rightarrow> None
          | Some rest' \<Rightarrow>
              (case read_groups 0 (8 - (length head + 1)) rest' of
                 (tail, _, rest'') \<Rightarrow> Some (head @ replicate (8 - length head - length tail) 0 @ tail, rest'')))"

definition parse_ip :: "string \<Rightarrow> ip_addr option" where
  "parse_ip s =
     (case read_ipv4_addr s of
        Some (os, rest) \<Rightarrow> if rest = [] then Some (V4 os) else None
      | None \<Rightarrow> (case read_ipv6_addr s of Some (gs, rest) \<Rightarrow> if rest = [] then Some (V6 gs) else None | None \<Rightarrow> None))"

subsection \<open>What a reader consumes\<close>

text \<open>Every reader consumes a prefix made of digits, dots and colons, so no slash.\<close>

definition consumes :: "string \<Rightarrow> string \<Rightarrow> bool" where
  "consumes s rest \<longleftrightarrow> (\<exists>p. s = p @ rest \<and> CHR ''/'' \<notin> set p)"

lemma consumes_refl [simp, intro]: "consumes s s"
  by (simp add: consumes_def)

lemma consumes_trans: "consumes s t \<Longrightarrow> consumes t u \<Longrightarrow> consumes s u"
  unfolding consumes_def by (metis Un_iff append.assoc set_append)

lemma to_digit_slash [simp]: "to_digit radix CHR ''/'' = None"
  by (simp add: to_digit_def hex_value_def)

lemma read_number_consumes:
  assumes "read_number radix m z b s = Some (v, rest)"
  shows "consumes s rest"
proof -
  let ?p = "takeWhile (\<lambda>c. to_digit radix c \<noteq> None) s"
  have "rest = drop (length ?p) s" using assms by (auto simp: read_number_def Let_def split: if_splits)
  then have "s = ?p @ rest" by (metis dropWhile_eq_drop takeWhile_dropWhile_id)
  moreover have "CHR ''/'' \<notin> set ?p" using set_takeWhileD by fastforce
  ultimately show ?thesis unfolding consumes_def by blast
qed

lemma read_given_char_consumes: "read_given_char c s = Some rest \<Longrightarrow> c \<noteq> CHR ''/'' \<Longrightarrow> consumes s rest"
  by (auto simp: read_given_char_def consumes_def split: list.splits if_splits intro!: exI [of _ "[c]"])

lemma read_octets_consumes: "read_octets i n s = Some (vs, rest) \<Longrightarrow> consumes s rest"
proof (induction i n s arbitrary: vs rule: read_octets.induct)
  case (2 i n s)
  then obtain s' v t vs' where s: "(if i > 0 then read_given_char CHR ''.'' s else Some s) = Some s'"
      "read_number 10 3 False 255 s' = Some (v, t)" "read_octets (Suc i) n t = Some (vs', rest)"
    by (auto split: option.splits prod.splits)
  have "consumes s s'" using s(1) read_given_char_consumes by (auto split: if_splits)
  then show ?case using 2(1) [OF s(1,2) refl s(3)] read_number_consumes [OF s(2)] consumes_trans by blast
qed simp

lemma read_separator_consumes:
  assumes "read_separator c i inner s = Some x" "c \<noteq> CHR ''/''" "\<And>t y. inner t = Some y \<Longrightarrow> consumes t (f y)"
  shows "consumes s (f x)"
  using assms read_given_char_consumes [of c s] consumes_trans
  by (auto simp: read_separator_def split: if_splits option.splits)

lemma read_groups_consumes: "read_groups i n s = (gs, b, rest) \<Longrightarrow> consumes s rest"
proof (induction i n s arbitrary: gs b rest rule: read_groups.induct)
  case (2 i n s)
  show ?case
  proof (cases "if n > 0 then read_separator CHR '':'' i read_ipv4_addr s else None")
    case (Some ot)
    obtain os t where ot: "ot = (os, t)" by fastforce
    have "consumes s (snd ot)"
      using read_separator_consumes [of "CHR '':''" i read_ipv4_addr s ot snd] Some read_octets_consumes
      by (auto simp: read_ipv4_addr_def split: if_splits)
    then show ?thesis using "2.prems" Some ot by simp
  next
    case v4: None
    show ?thesis
    proof (cases "read_separator CHR '':'' i (read_number 16 4 True 65535) s")
      case None
      then show ?thesis using "2.prems" v4 by simp
    next
      case (Some vt)
      obtain v t where vt: "vt = (v, t)" by fastforce
      have "consumes s t"
        using read_separator_consumes [of "CHR '':''" i "read_number 16 4 True 65535" s vt snd] Some vt read_number_consumes
        by fastforce
      moreover obtain gs' b' where "read_groups (Suc i) n t = (gs', b', rest)"
        using "2.prems" v4 Some vt by (auto split: prod.splits)
      then have "consumes t rest" using "2.IH" [OF v4 Some vt [symmetric]] by blast
      ultimately show ?thesis by (rule consumes_trans)
    qed
  qed
qed simp

lemma read_ipv6_addr_consumes:
  assumes "read_ipv6_addr s = Some (gs, rest)"
  shows "consumes s rest"
proof -
  obtain hd_gs b t where g: "read_groups 0 8 s = (hd_gs, b, t)" by (cases "read_groups 0 8 s")
  show ?thesis
  proof (cases "length hd_gs = 8")
    case True
    then show ?thesis using assms g read_groups_consumes [OF g] by (simp add: read_ipv6_addr_def)
  next
    case False
    then obtain t1 t2 tl_gs b' where t: "read_given_char CHR '':'' t = Some t1" "read_given_char CHR '':'' t1 = Some t2"
        "read_groups 0 (8 - (length hd_gs + 1)) t2 = (tl_gs, b', rest)"
      using assms g by (auto simp: read_ipv6_addr_def split: if_splits option.splits prod.splits bind_splits)
    have "consumes s t" "consumes t t1" "consumes t1 t2" "consumes t2 rest"
      using read_groups_consumes [OF g] read_given_char_consumes [OF t(1)] read_given_char_consumes [OF t(2)]
        read_groups_consumes [OF t(3)] by simp_all
    then show ?thesis by (blast intro: consumes_trans)
  qed
qed

lemma parse_ip_no_slash: "parse_ip s = Some ip \<Longrightarrow> CHR ''/'' \<notin> set s"
proof -
  have nil: "consumes s [] \<Longrightarrow> CHR ''/'' \<notin> set s" by (simp add: consumes_def)
  assume "parse_ip s = Some ip"
  then show ?thesis
    using nil read_ipv6_addr_consumes [of s] read_octets_consumes [of 0 4 s]
    by (auto simp: parse_ip_def read_ipv4_addr_def split: option.splits if_splits)
qed

lemma parse_ip_examples:
  "parse_ip ''192.0.2.5'' = Some (V4 [192, 0, 2, 5])" "parse_ip ''fe80::1'' = Some (V6 [65152, 0, 0, 0, 0, 0, 0, 1])"
  "parse_ip ''::ffff:1.2.3.4'' = Some (V6 [0, 0, 0, 0, 0, 65535, 258, 772])" "parse_ip ''::1'' = Some (V6 [0, 0, 0, 0, 0, 0, 0, 1])"
  "parse_ip ''1.2.3'' = None" "parse_ip ''01.2.3.4'' = None" "parse_ip ''1::2::3'' = None"
  by code_simp+

end
