(* ===== verification/Netbox.thy ===== *)
theory Netbox
  imports Rust_Net Seal Jwt_Auth
begin

text \<open>
  The inventory sink, \<^verbatim>\<open>osa-coordinator/src/netbox.rs\<close>: a host's observed interfaces and addresses are
  reconciled onto the one NetBox device that carries its serial.  The sink is written against the
  trait \<open>NetboxDevices\<close>, here a record of operations on a state \<open>'d\<close>; the live adapter
  \<open>NetboxClient\<close> is the instance whose state is the list of REST calls made.  The NetBox server is a
  parameter: every reply is an arbitrary function of the calls made so far, the current one last, so
  that other writers and failures at any point are covered.

  An upsert holds its host's lock from the deduplication check to the mark, so for one host it is one
  step.
\<close>

subsection \<open>Data\<close>

definition CF_HOST_ID :: string where "CF_HOST_ID = ''osa_host_id''"
definition MAX_TRANSIENT_RETRIES :: nat where "MAX_TRANSIENT_RETRIES = 3"
definition RETRY_BASE_BACKOFF_MS :: nat where "RETRY_BASE_BACKOFF_MS = 100"

fun is_transient :: "port_error \<Rightarrow> bool" where
  "is_transient (Backend _) = True"
| "is_transient (Transport _) = True"
| "is_transient _ = False"

record device_ref =
  dr_id :: i64
  dr_host_id :: "string option"

datatype serial_match = MatchNone | MatchOne device_ref | MatchMany nat

record nb_ip =
  nip_id :: i64
  nip_address :: string

record nb_interface =
  ni_id :: i64
  ni_name :: string
  ni_ips :: "nb_ip list"

datatype upsert_outcome = Updated | Unchanged | Unmatched | SkippedNoSerial | AmbiguousMatch nat | HostCollision

record 'd devices =
  dv_match_by_serial :: "string \<Rightarrow> 'd \<Rightarrow> (port_error + serial_match) \<times> 'd"
  dv_read_interfaces :: "i64 \<Rightarrow> 'd \<Rightarrow> (port_error + nb_interface list) \<times> 'd"
  dv_create_interface :: "i64 \<Rightarrow> string \<Rightarrow> 'd \<Rightarrow> (port_error + i64) \<times> 'd"
  dv_delete_interface :: "i64 \<Rightarrow> 'd \<Rightarrow> (port_error + unit) \<times> 'd"
  dv_create_ip :: "i64 \<Rightarrow> string \<Rightarrow> 'd \<Rightarrow> (port_error + i64) \<times> 'd"
  dv_move_ip :: "i64 \<Rightarrow> i64 \<Rightarrow> 'd \<Rightarrow> (port_error + unit) \<times> 'd"
  dv_delete_ip :: "i64 \<Rightarrow> 'd \<Rightarrow> (port_error + unit) \<times> 'd"
  dv_finalize_device :: "i64 \<Rightarrow> i64 option \<Rightarrow> i64 option \<Rightarrow> string \<Rightarrow> 'd \<Rightarrow> (port_error + unit) \<times> 'd"

text \<open>The dedup cache beside the devices.\<close>

record 'd sink =
  sk_devices :: 'd
  sk_synced :: "(uuid, string) amap"

definition already_synced :: "uuid \<Rightarrow> string \<Rightarrow> 'd sink \<Rightarrow> bool" where
  "already_synced host hash sk \<longleftrightarrow> map_of (sk_synced sk) host = Some hash"

definition mark_synced :: "uuid \<Rightarrow> string \<Rightarrow> 'd sink \<Rightarrow> 'd sink" where
  "mark_synced host hash sk = sk\<lparr>sk_synced := AList.update host hash (sk_synced sk)\<rparr>"

subsection \<open>Addresses\<close>

definition to_cidr :: "string \<Rightarrow> string option" where
  "to_cidr ip = (case parse_ip ip of Some (V4 _) \<Rightarrow> Some (ip @ ''/32'') | Some (V6 _) \<Rightarrow> Some (ip @ ''/128'') | None \<Rightarrow> None)"

definition is_ipv4_cidr :: "string \<Rightarrow> bool" where
  "is_ipv4_cidr cidr \<longleftrightarrow>
     (case parse_ip (takeWhile (\<lambda>c. c \<noteq> CHR ''/'') cidr) of Some (V4 _) \<Rightarrow> True | _ \<Rightarrow> False)"

definition observed_cidrs :: "inventory_interface \<Rightarrow> string list" where
  "observed_cidrs iface = List.map_filter to_cidr (ii_ip_addresses iface)"

subsection \<open>Reconcile\<close>

text \<open>The primaries chosen and the address rows kept while the interfaces are walked.\<close>

record reconciled =
  rc_primary4 :: "i64 option"
  rc_primary6 :: "i64 option"
  rc_kept :: "i64 list"

definition get_or_insert :: "'a \<Rightarrow> 'a option \<Rightarrow> 'a option" where
  "get_or_insert x slot = (case slot of None \<Rightarrow> Some x | Some y \<Rightarrow> Some y)"

definition keep_ip :: "string \<Rightarrow> i64 \<Rightarrow> reconciled \<Rightarrow> reconciled" where
  "keep_ip cidr ip_id acc =
     (let acc' = acc\<lparr>rc_kept := ip_id # rc_kept acc\<rparr> in
      if is_ipv4_cidr cidr then acc'\<lparr>rc_primary4 := get_or_insert ip_id (rc_primary4 acc)\<rparr>
      else acc'\<lparr>rc_primary6 := get_or_insert ip_id (rc_primary6 acc)\<rparr>)"

text \<open>The address rows of the device, the first of each address: its id and its interface.\<close>

definition existing_ips :: "nb_interface list \<Rightarrow> (string \<times> i64 \<times> i64) list" where
  "existing_ips current =
     concat (map (\<lambda>iface. map (\<lambda>ip. (nip_address ip, nip_id ip, ni_id iface)) (ni_ips iface)) current)"

text \<open>The interfaces by name, the last of each name.\<close>

definition current_by_name :: "nb_interface list \<Rightarrow> string \<Rightarrow> nb_interface option" where
  "current_by_name current = map_of (rev (map (\<lambda>i. (ni_name i, i)) current))"

definition ensure_ip ::
  "'d devices \<Rightarrow> (string \<times> i64 \<times> i64) list \<Rightarrow> i64 \<Rightarrow> string \<Rightarrow> 'd \<Rightarrow> (port_error + i64) \<times> 'd" where
  "ensure_ip D ex interface_id cidr d =
     (case map_of ex cidr of
        Some (ip_id, cur_iface) \<Rightarrow>
          if cur_iface \<noteq> interface_id then
            (case dv_move_ip D ip_id interface_id d of (Inl e, d') \<Rightarrow> (Inl e, d') | (Inr _, d') \<Rightarrow> (Inr ip_id, d'))
          else (Inr ip_id, d)
      | None \<Rightarrow> dv_create_ip D interface_id cidr d)"

fun assign_ips ::
  "'d devices \<Rightarrow> (string \<times> i64 \<times> i64) list \<Rightarrow> i64 \<Rightarrow> string list \<Rightarrow> reconciled \<Rightarrow> 'd \<Rightarrow> (port_error + reconciled) \<times> 'd" where
  "assign_ips D ex interface_id [] acc d = (Inr acc, d)"
| "assign_ips D ex interface_id (cidr # cidrs) acc d =
     (case ensure_ip D ex interface_id cidr d of
        (Inl e, d') \<Rightarrow> (Inl e, d')
      | (Inr ip_id, d') \<Rightarrow> assign_ips D ex interface_id cidrs (keep_ip cidr ip_id acc) d')"

definition ensure_interface ::
  "'d devices \<Rightarrow> i64 \<Rightarrow> (string \<Rightarrow> nb_interface option) \<Rightarrow> string \<Rightarrow> 'd \<Rightarrow> (port_error + i64) \<times> 'd" where
  "ensure_interface D device_id by_name name d =
     (case by_name name of Some cur \<Rightarrow> (Inr (ni_id cur), d) | None \<Rightarrow> dv_create_interface D device_id name d)"

fun assign_interfaces ::
  "'d devices \<Rightarrow> i64 \<Rightarrow> nb_interface list \<Rightarrow> inventory_interface list \<Rightarrow> reconciled \<Rightarrow> 'd
     \<Rightarrow> (port_error + reconciled) \<times> 'd" where
  "assign_interfaces D device_id current [] acc d = (Inr acc, d)"
| "assign_interfaces D device_id current (iface # ifaces) acc d =
     (case ensure_interface D device_id (current_by_name current) (ii_name iface) d of
        (Inl e, d') \<Rightarrow> (Inl e, d')
      | (Inr interface_id, d') \<Rightarrow>
          (case assign_ips D (existing_ips current) interface_id (observed_cidrs iface) acc d' of
             (Inl e, d'') \<Rightarrow> (Inl e, d'')
           | (Inr acc', d'') \<Rightarrow> assign_interfaces D device_id current ifaces acc' d''))"

fun each_row :: "('r \<Rightarrow> 'd \<Rightarrow> (port_error + unit) \<times> 'd) \<Rightarrow> 'r list \<Rightarrow> 'd \<Rightarrow> (port_error + unit) \<times> 'd" where
  "each_row f [] d = (Inr (), d)"
| "each_row f (r # rs) d = (case f r d of (Inl e, d') \<Rightarrow> (Inl e, d') | (Inr _, d') \<Rightarrow> each_row f rs d')"

definition stale_ips :: "i64 list \<Rightarrow> nb_interface list \<Rightarrow> i64 list" where
  "stale_ips kept current = filter (\<lambda>i. i \<notin> set kept) (map nip_id (concat (map ni_ips current)))"

definition stale_interfaces :: "inventory_msg \<Rightarrow> nb_interface list \<Rightarrow> i64 list" where
  "stale_interfaces observed current =
     map ni_id (filter (\<lambda>i. ni_name i \<notin> set (map ii_name (im_interfaces observed))) current)"

definition reconcile ::
  "'d devices \<Rightarrow> uuid_lib \<Rightarrow> i64 \<Rightarrow> uuid \<Rightarrow> inventory_msg \<Rightarrow> 'd \<Rightarrow> (port_error + unit) \<times> 'd" where
  "reconcile D U device_id host observed d =
     (case dv_read_interfaces D device_id d of
        (Inl e, d1) \<Rightarrow> (Inl e, d1)
      | (Inr current, d1) \<Rightarrow>
          (case assign_interfaces D device_id current (im_interfaces observed)
                  \<lparr>rc_primary4 = None, rc_primary6 = None, rc_kept = []\<rparr> d1 of
             (Inl e, d2) \<Rightarrow> (Inl e, d2)
           | (Inr acc, d2) \<Rightarrow>
               (case dv_finalize_device D device_id (rc_primary4 acc) (rc_primary6 acc) (hyphenated U host) d2 of
                  (Inl e, d3) \<Rightarrow> (Inl e, d3)
                | (Inr _, d3) \<Rightarrow>
                    (case each_row (dv_delete_ip D) (stale_ips (rc_kept acc) current) d3 of
                       (Inl e, d4) \<Rightarrow> (Inl e, d4)
                     | (Inr _, d4) \<Rightarrow> each_row (dv_delete_interface D) (stale_interfaces observed current) d4))))"

definition claimed_by_other :: "uuid_lib \<Rightarrow> uuid \<Rightarrow> device_ref \<Rightarrow> bool" where
  "claimed_by_other U host device \<longleftrightarrow>
     (case dr_host_id device of None \<Rightarrow> False | Some h \<Rightarrow> h \<noteq> [] \<and> h \<noteq> hyphenated U host)"

definition match_and_reconcile ::
  "'d devices \<Rightarrow> uuid_lib \<Rightarrow> string \<Rightarrow> uuid \<Rightarrow> inventory_msg \<Rightarrow> 'd \<Rightarrow> (port_error + upsert_outcome) \<times> 'd" where
  "match_and_reconcile D U serial host observed d =
     (case dv_match_by_serial D serial d of
        (Inl e, d') \<Rightarrow> (Inl e, d')
      | (Inr MatchNone, d') \<Rightarrow> (Inr Unmatched, d')
      | (Inr (MatchOne device), d') \<Rightarrow>
          if claimed_by_other U host device then (Inr HostCollision, d')
          else (case reconcile D U (dr_id device) host observed d' of
                  (Inl e, d'') \<Rightarrow> (Inl e, d'')
                | (Inr _, d'') \<Rightarrow> (Inr Updated, d''))
      | (Inr (MatchMany count), d') \<Rightarrow> (Inr (AmbiguousMatch count), d'))"

subsection \<open>Upsert\<close>

definition content_bytes :: "string \<Rightarrow> uuid \<Rightarrow> inventory_msg \<Rightarrow> bytes" where
  "content_bytes serial host observed =
     as_bytes serial @ [2] @ be_bytes 16 host
       @ concat (map (\<lambda>iface. 255 # as_bytes (ii_name iface)
                       @ concat (map (\<lambda>ip. 0 # as_bytes ip) (ii_ip_addresses iface))) (im_interfaces observed))"

definition content_hash :: "crypto \<Rightarrow> string \<Rightarrow> uuid \<Rightarrow> inventory_msg \<Rightarrow> string" where
  "content_hash K serial host observed = sha256_hex K (content_bytes serial host observed)"

text \<open>The retry loop from its \<open>attempt\<close> on, with the pauses it makes in milliseconds.\<close>

function retry_loop ::
  "'d devices \<Rightarrow> uuid_lib \<Rightarrow> string \<Rightarrow> uuid \<Rightarrow> inventory_msg \<Rightarrow> nat \<Rightarrow> 'd
     \<Rightarrow> (port_error + upsert_outcome) \<times> 'd \<times> nat list" where
  "retry_loop D U serial host observed attempt d =
     (case match_and_reconcile D U serial host observed d of
        (Inr outcome, d') \<Rightarrow> (Inr outcome, d', [])
      | (Inl e, d') \<Rightarrow>
          if is_transient e \<and> attempt < MAX_TRANSIENT_RETRIES then
            (case retry_loop D U serial host observed (attempt + 1) d' of
               (r, d'', pauses) \<Rightarrow> (r, d'', RETRY_BASE_BACKOFF_MS * 2 ^ (attempt + 1 - 1) # pauses))
          else (Inl e, d', []))"
  by pat_completeness auto
termination by (relation "measure (\<lambda>(D, U, serial, host, observed, attempt, d). MAX_TRANSIENT_RETRIES - attempt)") auto

declare retry_loop.simps [simp del]

definition usable_serial :: "inventory_msg \<Rightarrow> string option" where
  "usable_serial observed =
     (case map_option trim (im_dmi_serial observed) of
        None \<Rightarrow> None | Some s \<Rightarrow> if s \<noteq> [] then Some s else None)"

definition upsert ::
  "'d devices \<Rightarrow> crypto \<Rightarrow> uuid_lib \<Rightarrow> uuid \<Rightarrow> inventory_msg \<Rightarrow> 'd sink
     \<Rightarrow> (port_error + upsert_outcome) \<times> 'd sink \<times> nat list" where
  "upsert D K U host observed sk =
     (case usable_serial observed of
        None \<Rightarrow> (Inr SkippedNoSerial, sk, [])
      | Some serial \<Rightarrow>
          let hash = content_hash K serial host observed in
          if already_synced host hash sk then (Inr Unchanged, sk, [])
          else case retry_loop D U serial host observed 0 (sk_devices sk) of
            (Inl e, d, pauses) \<Rightarrow> (Inl e, sk\<lparr>sk_devices := d\<rparr>, pauses)
          | (Inr outcome, d, pauses) \<Rightarrow>
              let sk' = sk\<lparr>sk_devices := d\<rparr> in
              (Inr outcome, if outcome = Updated then mark_synced host hash sk' else sk', pauses))"

subsection \<open>The live adapter\<close>

text \<open>Rows as the adapter reads them: a field is what \<open>get\<close> and the typed accessor give.\<close>

record device_row =
  dev_id :: "i32 option"
  dev_serial :: "string option"
  dev_custom_fields :: "(string, string option) amap option"

record iface_row =
  ir_id :: "i64 option"
  ir_name :: "string option"

record ip_row =
  ipr_id :: "i64 option"
  ipr_address :: "string option"
  ipr_assigned_type :: "string option"
  ipr_assigned_id :: "i64 option"

datatype rest_call =
    ListDevices string
  | ListInterfaces i64
  | ListIps i64
  | PostInterface i64 string
  | DeleteInterfaceRow u64
  | PostIp i64 string
  | PatchIp u64 i64
  | DeleteIpRow u64
  | PatchDevice u64 "i64 option" "i64 option" string

record netbox_error =
  ne_status :: "nat option"
  ne_text :: string

record netbox_server =
  ns_devices :: "rest_call list \<Rightarrow> netbox_error + nat \<times> device_row list"
  ns_interfaces :: "rest_call list \<Rightarrow> netbox_error + iface_row list"
  ns_ips :: "rest_call list \<Rightarrow> netbox_error + ip_row list"
  ns_create :: "rest_call list \<Rightarrow> netbox_error + i64 option"
  ns_write :: "rest_call list \<Rightarrow> netbox_error + unit"

definition map_netbox_error :: "netbox_error \<Rightarrow> port_error" where
  "map_netbox_error e =
     (case ne_status e of
        Some status \<Rightarrow> if 400 \<le> status \<and> status < 500 \<and> status \<noteq> 429 then Invalid (ne_text e) else Backend (ne_text e)
      | None \<Rightarrow> Backend (ne_text e))"

definition rest_send :: "(rest_call list \<Rightarrow> netbox_error + 'r) \<Rightarrow> rest_call \<Rightarrow> rest_call list \<Rightarrow> (port_error + 'r) \<times> rest_call list" where
  "rest_send f c h = (map_sum map_netbox_error id (f (h @ [c])), h @ [c])"

definition to_u64 :: "i64 \<Rightarrow> port_error + u64" where
  "to_u64 i = (if sint i < 0 then Inl (Backend ''negative NetBox row id'') else Inr i)"

definition new_id :: "i64 option \<Rightarrow> string \<Rightarrow> port_error + i64" where
  "new_id created kind_name =
     (case created of Some i \<Rightarrow> Inr i | None \<Rightarrow> Inl (Backend (''created '' @ kind_name @ '' has no id'')))"

definition device_host_id :: "device_row \<Rightarrow> string option" where
  "device_host_id device =
     (case dev_custom_fields device of
        None \<Rightarrow> None
      | Some cf \<Rightarrow>
          (case map_of cf CF_HOST_ID of
             Some (Some s) \<Rightarrow> if s \<noteq> [] then Some s else None
           | _ \<Rightarrow> None))"

definition client_match_by_serial ::
  "netbox_server \<Rightarrow> string \<Rightarrow> rest_call list \<Rightarrow> (port_error + serial_match) \<times> rest_call list" where
  "client_match_by_serial S serial h =
     (case rest_send (ns_devices S) (ListDevices serial) h of
        (Inl e, h') \<Rightarrow> (Inl e, h')
      | (Inr (count, results), h') \<Rightarrow>
          if count = 0 then (Inr MatchNone, h')
          else if count = 1 then
            (case results of
               [] \<Rightarrow> (Inl (Backend ''NetBox reported count=1 but returned no device''), h')
             | device # _ \<Rightarrow>
                 if map_option (\<lambda>s. eq_ignore_ascii_case s serial) (dev_serial device) \<noteq> Some True
                 then (Inr MatchNone, h')
                 else (case dev_id device of
                         None \<Rightarrow> (Inl (Backend ''NetBox device has no id''), h')
                       | Some i \<Rightarrow> (Inr (MatchOne \<lparr>dr_id = scast i, dr_host_id = device_host_id device\<rparr>), h')))
          else (Inr (MatchMany count), h'))"

fun group_ips :: "ip_row list \<Rightarrow> (i64 \<times> nb_ip) list" where
  "group_ips [] = []"
| "group_ips (ip # ips) =
     (if ipr_assigned_type ip \<noteq> Some ''dcim.interface'' then group_ips ips
      else case (ipr_assigned_id ip, ipr_address ip, ipr_id ip) of
        (Some iface_id, Some addr, Some i) \<Rightarrow> (iface_id, \<lparr>nip_id = i, nip_address = addr\<rparr>) # group_ips ips
      | _ \<Rightarrow> group_ips ips)"

text \<open>The rows of each interface in order; \<open>remove\<close> takes an interface's group the first time its id comes up.\<close>

fun collect_interfaces :: "(i64 \<times> nb_ip) list \<Rightarrow> iface_row list \<Rightarrow> nb_interface list" where
  "collect_interfaces by_iface [] = []"
| "collect_interfaces by_iface (row # rows) =
     (case ir_id row of
        None \<Rightarrow> collect_interfaces by_iface rows
      | Some i \<Rightarrow>
          \<lparr>ni_id = i, ni_name = (case ir_name row of None \<Rightarrow> [] | Some n \<Rightarrow> n),
           ni_ips = map snd (filter (\<lambda>p. fst p = i) by_iface)\<rparr>
          # collect_interfaces (filter (\<lambda>p. fst p \<noteq> i) by_iface) rows)"

definition client_read_interfaces ::
  "netbox_server \<Rightarrow> i64 \<Rightarrow> rest_call list \<Rightarrow> (port_error + nb_interface list) \<times> rest_call list" where
  "client_read_interfaces S device_id h =
     (case rest_send (ns_interfaces S) (ListInterfaces device_id) h of
        (Inl e, h1) \<Rightarrow> (Inl e, h1)
      | (Inr ifaces, h1) \<Rightarrow>
          (case rest_send (ns_ips S) (ListIps device_id) h1 of
             (Inl e, h2) \<Rightarrow> (Inl e, h2)
           | (Inr ips, h2) \<Rightarrow> (Inr (collect_interfaces (group_ips ips) ifaces), h2)))"

definition client_create_interface ::
  "netbox_server \<Rightarrow> i64 \<Rightarrow> string \<Rightarrow> rest_call list \<Rightarrow> (port_error + i64) \<times> rest_call list" where
  "client_create_interface S device_id name h =
     (case rest_send (ns_create S) (PostInterface device_id name) h of
        (Inl e, h') \<Rightarrow> (Inl e, h') | (Inr created, h') \<Rightarrow> (new_id created ''interface'', h'))"

definition client_delete_interface :: "netbox_server \<Rightarrow> i64 \<Rightarrow> rest_call list \<Rightarrow> (port_error + unit) \<times> rest_call list" where
  "client_delete_interface S interface_id h =
     (case to_u64 interface_id of Inl e \<Rightarrow> (Inl e, h) | Inr u \<Rightarrow> rest_send (ns_write S) (DeleteInterfaceRow u) h)"

definition client_create_ip ::
  "netbox_server \<Rightarrow> i64 \<Rightarrow> string \<Rightarrow> rest_call list \<Rightarrow> (port_error + i64) \<times> rest_call list" where
  "client_create_ip S interface_id address h =
     (case rest_send (ns_create S) (PostIp interface_id address) h of
        (Inl e, h') \<Rightarrow> (Inl e, h') | (Inr created, h') \<Rightarrow> (new_id created ''ip-address'', h'))"

definition client_move_ip :: "netbox_server \<Rightarrow> i64 \<Rightarrow> i64 \<Rightarrow> rest_call list \<Rightarrow> (port_error + unit) \<times> rest_call list" where
  "client_move_ip S ip_id interface_id h =
     (case to_u64 ip_id of Inl e \<Rightarrow> (Inl e, h) | Inr u \<Rightarrow> rest_send (ns_write S) (PatchIp u interface_id) h)"

definition client_delete_ip :: "netbox_server \<Rightarrow> i64 \<Rightarrow> rest_call list \<Rightarrow> (port_error + unit) \<times> rest_call list" where
  "client_delete_ip S ip_id h =
     (case to_u64 ip_id of Inl e \<Rightarrow> (Inl e, h) | Inr u \<Rightarrow> rest_send (ns_write S) (DeleteIpRow u) h)"

definition client_finalize_device ::
  "netbox_server \<Rightarrow> i64 \<Rightarrow> i64 option \<Rightarrow> i64 option \<Rightarrow> string \<Rightarrow> rest_call list \<Rightarrow> (port_error + unit) \<times> rest_call list" where
  "client_finalize_device S device_id primary_ip4 primary_ip6 host_id h =
     (case to_u64 device_id of
        Inl e \<Rightarrow> (Inl e, h) | Inr u \<Rightarrow> rest_send (ns_write S) (PatchDevice u primary_ip4 primary_ip6 host_id) h)"

definition client_devices :: "netbox_server \<Rightarrow> rest_call list devices" where
  "client_devices S =
     \<lparr>dv_match_by_serial = client_match_by_serial S, dv_read_interfaces = client_read_interfaces S,
      dv_create_interface = client_create_interface S, dv_delete_interface = client_delete_interface S,
      dv_create_ip = client_create_ip S, dv_move_ip = client_move_ip S, dv_delete_ip = client_delete_ip S,
      dv_finalize_device = client_finalize_device S\<rparr>"

end
