(* ===== verification/Netbox_Safety.thy ===== *)
theory Netbox_Safety
  imports Netbox
begin

text \<open>
  What the inventory sink does to NetBox: the order of its writes and what it never deletes, which
  device it writes, that a device which already shows the snapshot is left alone, how long it retries,
  and that the dedup key identifies what was written.
\<close>

subsection \<open>The writes of a device seam\<close>

datatype nb_write =
    WCreateInterface i64 string
  | WDeleteInterface i64
  | WCreateIp i64 string
  | WMoveIp i64 i64
  | WDeleteIp i64
  | WFinalize i64 "i64 option" "i64 option" string

text \<open>A write that adds or reassigns, on device \<open>dev\<close>.\<close>

fun assigning :: "i64 \<Rightarrow> nb_write \<Rightarrow> bool" where
  "assigning dev (WCreateInterface dv _) = (dv = dev)"
| "assigning dev (WCreateIp _ _) = True"
| "assigning dev (WMoveIp _ _) = True"
| "assigning dev _ = False"

text \<open>
  The contract of the trait as far as writes go: reading writes nothing, a creation is one write, and
  the other operations are one write or fail before it.  Beside the writes the contract counts the
  matches asked for.
\<close>

locale device_log =
  fixes D :: "'d devices" and log :: "'d \<Rightarrow> nb_write list" and matches :: "'d \<Rightarrow> nat"
  assumes match_log: "log (snd (dv_match_by_serial D s d)) = log d"
    and read_log: "log (snd (dv_read_interfaces D i d)) = log d"
    and create_interface_log: "log (snd (dv_create_interface D i n d)) = log d @ [WCreateInterface i n]"
    and create_ip_log: "log (snd (dv_create_ip D i a d)) = log d @ [WCreateIp i a]"
    and delete_interface_log: "log (snd (dv_delete_interface D i d)) = log d @ [WDeleteInterface i]
      \<or> log (snd (dv_delete_interface D i d)) = log d \<and> (\<exists>e. fst (dv_delete_interface D i d) = Inl e)"
    and move_ip_log: "log (snd (dv_move_ip D i j d)) = log d @ [WMoveIp i j]
      \<or> log (snd (dv_move_ip D i j d)) = log d \<and> (\<exists>e. fst (dv_move_ip D i j d) = Inl e)"
    and delete_ip_log: "log (snd (dv_delete_ip D i d)) = log d @ [WDeleteIp i]
      \<or> log (snd (dv_delete_ip D i d)) = log d \<and> (\<exists>e. fst (dv_delete_ip D i d) = Inl e)"
    and finalize_log: "log (snd (dv_finalize_device D i p q s d)) = log d @ [WFinalize i p q s]
      \<or> log (snd (dv_finalize_device D i p q s d)) = log d \<and> (\<exists>e. fst (dv_finalize_device D i p q s d) = Inl e)"
    and match_counts: "matches (snd (dv_match_by_serial D s d)) = Suc (matches d)"
    and other_counts: "matches (snd (dv_read_interfaces D i d)) = matches d"
      "matches (snd (dv_create_interface D i n d)) = matches d" "matches (snd (dv_create_ip D i a d)) = matches d"
      "matches (snd (dv_delete_interface D i d)) = matches d" "matches (snd (dv_move_ip D i j d)) = matches d"
      "matches (snd (dv_delete_ip D i d)) = matches d" "matches (snd (dv_finalize_device D i p q s d)) = matches d"

definition primaries_kept :: "reconciled \<Rightarrow> bool" where
  "primaries_kept acc \<longleftrightarrow> set_option (rc_primary4 acc) \<subseteq> set (rc_kept acc) \<and> set_option (rc_primary6 acc) \<subseteq> set (rc_kept acc)"

text \<open>What a part of the walk leaves behind: it only assigns, what it moved is kept, nothing kept is
  forgotten, and the primaries are among the kept.\<close>

definition walk_ok :: "i64 \<Rightarrow> nb_write list \<Rightarrow> reconciled \<Rightarrow> reconciled \<Rightarrow> bool" where
  "walk_ok dev ws acc acc' \<longleftrightarrow>
     set (rc_kept acc) \<subseteq> set (rc_kept acc') \<and> (\<forall>i j. WMoveIp i j \<in> set ws \<longrightarrow> i \<in> set (rc_kept acc'))
     \<and> (primaries_kept acc \<longrightarrow> primaries_kept acc')"

lemma keep_ip_kept [simp]: "rc_kept (keep_ip c i acc) = i # rc_kept acc"
  by (simp add: keep_ip_def Let_def)

lemma keep_ip_primaries: "primaries_kept acc \<Longrightarrow> primaries_kept (keep_ip c i acc)"
  by (auto simp: primaries_kept_def keep_ip_def Let_def get_or_insert_def split: option.splits)

lemma walk_ok_refl [simp]: "walk_ok dev [] acc acc"
  by (simp add: walk_ok_def)

lemma walk_ok_trans: "walk_ok dev ws acc acc1 \<Longrightarrow> walk_ok dev ws' acc1 acc2 \<Longrightarrow> walk_ok dev (ws @ ws') acc acc2"
  by (auto simp: walk_ok_def)

context device_log
begin

lemma ensure_ip_writes:
  assumes "ensure_ip D ex ifid c d = (r, d')"
  shows "\<exists>ws. log d' = log d @ ws \<and> (\<forall>w\<in>set ws. assigning dev w)
    \<and> (\<forall>i. r = Inr i \<longrightarrow> (\<forall>k j. WMoveIp k j \<in> set ws \<longrightarrow> k = i)
          \<and> (c \<in> fst ` set ex \<or> WCreateIp ifid c \<in> set ws))"
proof (cases "map_of ex c")
  case None
  then show ?thesis using assms create_ip_log [of ifid c d] by (auto simp: ensure_ip_def intro: exI [of _ "[WCreateIp ifid c]"])
next
  case (Some x)
  obtain k cur where x: "x = (k, cur)" by fastforce
  have c: "c \<in> fst ` set ex" using map_of_SomeD [OF Some] by force
  show ?thesis
  proof (cases "cur = ifid")
    case True
    then show ?thesis using assms Some x c by (auto simp: ensure_ip_def)
  next
    case False
    obtain r1 d1 where m: "dv_move_ip D k ifid d = (r1, d1)" by fastforce
    show ?thesis
    proof (cases r1)
      case (Inl e)
      then have "r = Inl e" "d' = d1" using assms Some x False m by (auto simp: ensure_ip_def)
      then show ?thesis using move_ip_log [of k ifid d] m by (auto intro: exI [of _ "[]"] exI [of _ "[WMoveIp k ifid]"])
    next
      case (Inr u)
      then have "r = Inr k" "d' = d1" using assms Some x False m by (auto simp: ensure_ip_def)
      then show ?thesis using move_ip_log [of k ifid d] m c Inr by (auto intro: exI [of _ "[WMoveIp k ifid]"])
    qed
  qed
qed

lemma assign_ips_writes:
  assumes "assign_ips D ex ifid cs acc d = (r, d')"
  shows "\<exists>ws. log d' = log d @ ws \<and> (\<forall>w\<in>set ws. assigning dev w)
    \<and> (\<forall>acc'. r = Inr acc' \<longrightarrow> walk_ok dev ws acc acc'
          \<and> (\<forall>c\<in>set cs. c \<in> fst ` set ex \<or> WCreateIp ifid c \<in> set ws))"
  using assms
proof (induction cs arbitrary: acc d)
  case (Cons c cs)
  obtain r1 d1 where e: "ensure_ip D ex ifid c d = (r1, d1)" by fastforce
  from ensure_ip_writes [OF e, of dev] obtain ws where ws: "log d1 = log d @ ws" "\<forall>w\<in>set ws. assigning dev w"
      "\<forall>i. r1 = Inr i \<longrightarrow> (\<forall>k j. WMoveIp k j \<in> set ws \<longrightarrow> k = i) \<and> (c \<in> fst ` set ex \<or> WCreateIp ifid c \<in> set ws)"
    by blast
  show ?case
  proof (cases r1)
    case (Inl e1)
    then have "r = Inl e1" "d' = d1" using Cons.prems e by auto
    then show ?thesis using ws by auto
  next
    case (Inr i)
    then have "assign_ips D ex ifid cs (keep_ip c i acc) d1 = (r, d')" using Cons.prems e by simp
    from Cons.IH [OF this] obtain vs where vs: "log d' = log d1 @ vs" "\<forall>w\<in>set vs. assigning dev w"
        "\<forall>acc'. r = Inr acc' \<longrightarrow> walk_ok dev vs (keep_ip c i acc) acc'
           \<and> (\<forall>c\<in>set cs. c \<in> fst ` set ex \<or> WCreateIp ifid c \<in> set vs)"
      by blast
    have "walk_ok dev ws acc (keep_ip c i acc)" using ws(3) Inr keep_ip_primaries by (auto simp: walk_ok_def)
    then show ?thesis using ws vs Inr walk_ok_trans by (intro exI [of _ "ws @ vs"]) fastforce
  qed
qed auto

lemma ensure_interface_writes:
  assumes "ensure_interface D dev by_name n d = (r, d')"
  shows "\<exists>ws. log d' = log d @ ws \<and> (\<forall>w\<in>set ws. assigning dev w) \<and> walk_ok dev ws acc acc
    \<and> (by_name n \<noteq> None \<or> WCreateInterface dev n \<in> set ws)"
proof (cases "by_name n")
  case None
  then show ?thesis using assms create_interface_log [of dev n d]
    by (auto simp: ensure_interface_def walk_ok_def intro: exI [of _ "[WCreateInterface dev n]"])
next
  case (Some cur)
  then show ?thesis using assms by (auto simp: ensure_interface_def)
qed

lemma assign_interfaces_writes:
  assumes "assign_interfaces D dev cur ifaces acc d = (r, d')"
  shows "\<exists>ws. log d' = log d @ ws \<and> (\<forall>w\<in>set ws. assigning dev w)
    \<and> (\<forall>acc'. r = Inr acc' \<longrightarrow> walk_ok dev ws acc acc'
          \<and> (\<forall>iface\<in>set ifaces. (current_by_name cur (ii_name iface) \<noteq> None \<or> WCreateInterface dev (ii_name iface) \<in> set ws)
               \<and> (\<forall>c\<in>set (observed_cidrs iface). c \<in> fst ` set (existing_ips cur) \<or> (\<exists>i. WCreateIp i c \<in> set ws))))"
  using assms
proof (induction ifaces arbitrary: acc d)
  case (Cons iface ifaces)
  let ?ip = "\<lambda>ws c. c \<in> fst ` set (existing_ips cur) \<or> (\<exists>i. WCreateIp i c \<in> set ws)"
  let ?there = "\<lambda>ws n. current_by_name cur n \<noteq> None \<or> WCreateInterface dev n \<in> set ws"
  obtain r1 d1 where e: "ensure_interface D dev (current_by_name cur) (ii_name iface) d = (r1, d1)" by fastforce
  from ensure_interface_writes [OF e, of acc] obtain ws where ws: "log d1 = log d @ ws" "\<forall>w\<in>set ws. assigning dev w"
      "walk_ok dev ws acc acc" "?there ws (ii_name iface)" by blast
  show ?case
  proof (cases r1)
    case (Inl e1)
    then show ?thesis using Cons.prems e ws by auto
  next
    case (Inr ifid)
    obtain r2 d2 where a: "assign_ips D (existing_ips cur) ifid (observed_cidrs iface) acc d1 = (r2, d2)" by fastforce
    from assign_ips_writes [OF a, of dev] obtain vs where vs: "log d2 = log d1 @ vs" "\<forall>w\<in>set vs. assigning dev w"
        "\<And>acc'. r2 = Inr acc' \<Longrightarrow> walk_ok dev vs acc acc'" "\<And>acc' c. r2 = Inr acc' \<Longrightarrow> c \<in> set (observed_cidrs iface) \<Longrightarrow> ?ip vs c"
      by metis
    show ?thesis
    proof (cases r2)
      case (Inl e2)
      then show ?thesis using Cons.prems e Inr a ws vs by (intro exI [of _ "ws @ vs"]) auto
    next
      case acc2: (Inr acc2)
      have "assign_interfaces D dev cur ifaces acc2 d2 = (r, d')" using Cons.prems e Inr a acc2 by simp
      from Cons.IH [OF this] obtain us where us: "log d' = log d2 @ us" "\<forall>w\<in>set us. assigning dev w"
          "\<And>acc'. r = Inr acc' \<Longrightarrow> walk_ok dev us acc2 acc'"
          "\<And>acc' i. r = Inr acc' \<Longrightarrow> i \<in> set ifaces \<Longrightarrow> ?there us (ii_name i) \<and> (\<forall>c\<in>set (observed_cidrs i). ?ip us c)"
        by metis
      have walk: "walk_ok dev (ws @ vs @ us) acc acc'" if "r = Inr acc'" for acc'
        using walk_ok_trans [OF ws(3) walk_ok_trans [OF vs(3) [OF acc2] us(3) [OF that]]] .
      have made: "?there (ws @ vs @ us) (ii_name i) \<and> (\<forall>c\<in>set (observed_cidrs i). ?ip (ws @ vs @ us) c)"
        if "r = Inr acc'" "i \<in> set (iface # ifaces)" for acc' i
      proof (cases "i = iface")
        case True
        then show ?thesis using ws(4) vs(4) [OF acc2] by fastforce
      next
        case False
        then show ?thesis using us(4) [OF that(1), of i] that(2) by fastforce
      qed
      show ?thesis using ws(1,2) vs(1,2) us(1,2) walk made by (intro exI [of _ "ws @ vs @ us"]) auto
    qed
  qed
qed auto

lemma each_row_writes:
  assumes "each_row f rows d = (r, d')"
    and "\<And>i d. log (snd (f i d)) = log d @ [W i] \<or> log (snd (f i d)) = log d \<and> (\<exists>e. fst (f i d) = Inl e)"
  shows "\<exists>n. log d' = log d @ map W (take n rows) \<and> (r = Inr () \<longrightarrow> n = length rows)"
  using assms(1)
proof (induction rows arbitrary: d)
  case Nil
  then show ?case by auto
next
  case (Cons i rows)
  obtain r1 d1 where f: "f i d = (r1, d1)" by fastforce
  show ?case
  proof (cases r1)
    case (Inl e)
    then have "r = Inl e" "d' = d1" using Cons.prems f by auto
    then show ?thesis using assms(2) [of i d] f
      by (auto intro: exI [of _ 0] exI [of _ "Suc 0"])
  next
    case (Inr u)
    then have "log d1 = log d @ [W i]" "each_row f rows d1 = (r, d')" using assms(2) [of i d] f Cons.prems by auto
    then show ?thesis using Cons.IH [of d1] by (metis append.assoc append_Cons append_Nil length_Cons list.simps(9) take_Suc_Cons)
  qed
qed

end

text \<open>The family by which a primary is chosen is that of the observed address.\<close>

lemma is_ipv4_cidr_to_cidr:
  assumes "to_cidr ip = Some cidr"
  shows "is_ipv4_cidr cidr \<longleftrightarrow> (\<exists>octets. parse_ip ip = Some (V4 octets))"
proof -
  obtain v m where p: "parse_ip ip = Some v" "cidr = ip @ CHR ''/'' # m"
    using assms by (auto simp: to_cidr_def split: option.splits ip_addr.splits)
  have "takeWhile (\<lambda>c. c \<noteq> CHR ''/'') (ip @ CHR ''/'' # m) = ip" using parse_ip_no_slash [OF p(1)] by (simp add: takeWhile_append)
  then show ?thesis using p by (simp add: is_ipv4_cidr_def split: ip_addr.split)
qed

subsection \<open>The phases of a reconcile\<close>

text \<open>
  What the writes of one reconcile look like, for the interfaces \<open>cur\<close> read at its start: first only
  creations and moves, then the one update of the device, and only after it the deletions, addresses
  before interfaces.  A deleted address row was on the device, is no primary and was not moved; a
  deleted interface was on the device under a name that is not observed.  A successful reconcile went
  through all phases, and every observed interface and address was there or has been created.
\<close>

definition phased :: "i64 \<Rightarrow> string \<Rightarrow> inventory_msg \<Rightarrow> nb_interface list \<Rightarrow> bool \<Rightarrow> nb_write list \<Rightarrow> bool" where
  "phased dev stamp observed cur ok ws \<longleftrightarrow>
     (\<exists>ups fin dips difs p4 p6.
        ws = ups @ fin @ map WDeleteIp dips @ map WDeleteInterface difs
        \<and> (\<forall>w\<in>set ups. assigning dev w)
        \<and> (fin = [] \<and> dips = [] \<and> difs = [] \<and> \<not> ok \<or> fin = [WFinalize dev p4 p6 stamp])
        \<and> (\<forall>i\<in>set dips. Some i \<noteq> p4 \<and> Some i \<noteq> p6 \<and> (\<forall>j. WMoveIp i j \<notin> set ups))
        \<and> set dips \<subseteq> nip_id ` set (concat (map ni_ips cur))
        \<and> set difs \<subseteq> ni_id ` {c \<in> set cur. ni_name c \<notin> ii_name ` set (im_interfaces observed)}
        \<and> (ok \<longrightarrow> difs = stale_interfaces observed cur
              \<and> (\<forall>iface\<in>set (im_interfaces observed).
                   (current_by_name cur (ii_name iface) \<noteq> None \<or> WCreateInterface dev (ii_name iface) \<in> set ups)
                   \<and> (\<forall>c\<in>set (observed_cidrs iface). c \<in> fst ` set (existing_ips cur) \<or> (\<exists>i. WCreateIp i c \<in> set ups)))))"

lemma phased_failed: "\<forall>w\<in>set ws. assigning dev w \<Longrightarrow> phased dev stamp observed cur False ws"
  unfolding phased_def by (intro exI [of _ ws] exI [of _ "[]"]) simp

lemma phased_finalized:
  assumes "\<forall>w\<in>set ups. assigning dev w" "walk_ok dev ups \<lparr>rc_primary4 = None, rc_primary6 = None, rc_kept = []\<rparr> acc"
    and "ok \<Longrightarrow> m = length (stale_interfaces observed cur)"
    and "\<And>iface. iface \<in> set (im_interfaces observed) \<Longrightarrow>
           (current_by_name cur (ii_name iface) \<noteq> None \<or> WCreateInterface dev (ii_name iface) \<in> set ups)
           \<and> (\<forall>c\<in>set (observed_cidrs iface). c \<in> fst ` set (existing_ips cur) \<or> (\<exists>i. WCreateIp i c \<in> set ups))"
  shows "phased dev stamp observed cur ok
    (ups @ [WFinalize dev (rc_primary4 acc) (rc_primary6 acc) stamp]
       @ map WDeleteIp (take n (stale_ips (rc_kept acc) cur)) @ map WDeleteInterface (take m (stale_interfaces observed cur)))"
proof -
  have sub: "set (take n (stale_ips (rc_kept acc) cur)) \<subseteq> nip_id ` set (concat (map ni_ips cur)) - set (rc_kept acc)"
    using set_take_subset [of n "stale_ips (rc_kept acc) cur"] by (auto simp: stale_ips_def)
  have sub': "set (take m (stale_interfaces observed cur)) \<subseteq> ni_id ` {c \<in> set cur. ni_name c \<notin> ii_name ` set (im_interfaces observed)}"
    using set_take_subset [of m "stale_interfaces observed cur"] by (force simp: stale_interfaces_def)
  have keep: "primaries_kept acc" "\<forall>i j. WMoveIp i j \<in> set ups \<longrightarrow> i \<in> set (rc_kept acc)"
    using assms(2) by (auto simp: walk_ok_def primaries_kept_def)
  have safe: "Some i \<noteq> rc_primary4 acc \<and> Some i \<noteq> rc_primary6 acc \<and> (\<forall>j. WMoveIp i j \<notin> set ups)"
    if "i \<in> set (take n (stale_ips (rc_kept acc) cur))" for i
  proof -
    have "i \<notin> set (rc_kept acc)" using sub that by blast
    then show ?thesis
      using keep by (cases "rc_primary4 acc"; cases "rc_primary6 acc") (auto simp: primaries_kept_def)
  qed
  have complete: "take m (stale_interfaces observed cur) = stale_interfaces observed cur" if ok using assms(3) [OF that] by simp
  show ?thesis
    unfolding phased_def
    by (intro exI [of _ ups] exI [of _ "[WFinalize dev (rc_primary4 acc) (rc_primary6 acc) stamp]"]
        exI [of _ "take n (stale_ips (rc_kept acc) cur)"] exI [of _ "take m (stale_interfaces observed cur)"]
        exI [of _ "rc_primary4 acc"] exI [of _ "rc_primary6 acc"] conjI ballI impI)
      (rule refl, use assms(1) in blast, rule disjI2, rule refl, use safe in simp, use safe in simp, use safe in blast,
        use sub in blast, rule sub', erule complete, use assms(4) in simp, use assms(4) in blast)
qed

context device_log
begin

lemma reconcile_writes:
  assumes "reconcile D U dev host observed d = (r, d')"
  shows "\<exists>ws. log d' = log d @ ws
    \<and> (\<forall>cur. fst (dv_read_interfaces D dev d) = Inr cur \<longrightarrow> phased dev (hyphenated U host) observed cur (r = Inr ()) ws)
    \<and> (\<forall>e. fst (dv_read_interfaces D dev d) = Inl e \<longrightarrow> ws = [] \<and> r = Inl e)"
proof -
  obtain r1 d1 where rd: "dv_read_interfaces D dev d = (r1, d1)" by fastforce
  have l1: "log d1 = log d" using read_log [of dev d] rd by simp
  show ?thesis
  proof (cases r1)
    case (Inl e)
    then show ?thesis using assms rd l1 by (simp add: reconcile_def)
  next
    case r1: (Inr cur)
    let ?acc = "\<lparr>rc_primary4 = None, rc_primary6 = None, rc_kept = []\<rparr>"
    let ?dip = "\<lambda>acc. stale_ips (rc_kept acc) cur" and ?dif = "stale_interfaces observed cur"
    obtain r2 d2 where as: "assign_interfaces D dev cur (im_interfaces observed) ?acc d1 = (r2, d2)" by fastforce
    from assign_interfaces_writes [OF as] obtain ups where ups: "log d2 = log d @ ups" "\<forall>w\<in>set ups. assigning dev w"
        "\<And>acc. r2 = Inr acc \<Longrightarrow> walk_ok dev ups ?acc acc"
        "\<And>acc iface. r2 = Inr acc \<Longrightarrow> iface \<in> set (im_interfaces observed) \<Longrightarrow>
           (current_by_name cur (ii_name iface) \<noteq> None \<or> WCreateInterface dev (ii_name iface) \<in> set ups)
           \<and> (\<forall>c\<in>set (observed_cidrs iface). c \<in> fst ` set (existing_ips cur) \<or> (\<exists>i. WCreateIp i c \<in> set ups))"
      using l1 by metis
    show ?thesis
    proof (cases r2)
      case (Inl e)
      then show ?thesis using assms rd r1 as ups(1) phased_failed [OF ups(2)] by (auto simp: reconcile_def)
    next
      case r2: (Inr acc)
      let ?fin = "WFinalize dev (rc_primary4 acc) (rc_primary6 acc) (hyphenated U host)"
      note ph = phased_finalized [OF ups(2) ups(3) [OF r2] _ ups(4) [OF r2], where stamp = "hyphenated U host"]
      obtain r3 d3 where fi: "dv_finalize_device D dev (rc_primary4 acc) (rc_primary6 acc) (hyphenated U host) d2 = (r3, d3)"
        by fastforce
      show ?thesis
      proof (cases r3)
        case (Inl e)
        then have "r = Inl e" "d' = d3" using assms rd r1 as r2 fi by (simp_all add: reconcile_def)
        then show ?thesis
          using finalize_log [of dev "rc_primary4 acc" "rc_primary6 acc" "hyphenated U host" d2] fi rd r1 ups(1)
            phased_failed [OF ups(2)] ph [where ok = False and m = 0 and n = 0] by auto
      next
        case r3: (Inr u)
        then have l3: "log d3 = log d @ ups @ [?fin]"
          using finalize_log [of dev "rc_primary4 acc" "rc_primary6 acc" "hyphenated U host" d2] fi ups(1) by auto
        obtain r4 d4 where de: "each_row (dv_delete_ip D) (?dip acc) d3 = (r4, d4)" by fastforce
        from each_row_writes [OF de delete_ip_log] obtain n where n: "log d4 = log d3 @ map WDeleteIp (take n (?dip acc))"
          by blast
        show ?thesis
        proof (cases r4)
          case (Inl e)
          then have "r = Inl e" "d' = d4" using assms rd r1 as r2 fi r3 de by (simp_all add: reconcile_def)
          then show ?thesis using rd r1 l3 n ph [where ok = False and m = 0 and n = n] by auto
        next
          case (Inr v)
          then have "each_row (dv_delete_interface D) ?dif d4 = (r, d')"
            using assms rd r1 as r2 fi r3 de by (simp add: reconcile_def)
          from each_row_writes [OF this delete_interface_log] obtain m
            where m: "log d' = log d4 @ map WDeleteInterface (take m ?dif)" "r = Inr () \<longrightarrow> m = length ?dif" by blast
          then show ?thesis using rd r1 l3 n ph [where ok = "r = Inr ()" and m = m and n = n] by auto
        qed
      qed
    qed
  qed
qed

end

subsection \<open>Matching and retrying\<close>

context device_log
begin

lemma ensure_ip_counts: "matches (snd (ensure_ip D ex ifid c d)) = matches d"
proof (cases "map_of ex c")
  case (Some x)
  then show ?thesis
    using other_counts(5) [of "fst x" ifid d]
    by (cases x; cases "dv_move_ip D (fst x) ifid d") (auto simp: ensure_ip_def split: sum.split)
qed (simp add: ensure_ip_def other_counts)

lemma assign_ips_counts: "matches (snd (assign_ips D ex ifid cs acc d)) = matches d"
proof (induction cs arbitrary: acc d)
  case (Cons c cs)
  show ?case
    using Cons ensure_ip_counts [of ex ifid c d] by (cases "ensure_ip D ex ifid c d") (auto split: sum.split)
qed simp

lemma ensure_interface_counts: "matches (snd (ensure_interface D dev by_name n d)) = matches d"
  using other_counts(2) [of dev n d] by (simp add: ensure_interface_def split: option.split)

lemma assign_interfaces_counts: "matches (snd (assign_interfaces D dev cur ifaces acc d)) = matches d"
proof (induction ifaces arbitrary: acc d)
  case (Cons iface ifaces)
  obtain r1 d1 where e: "ensure_interface D dev (current_by_name cur) (ii_name iface) d = (r1, d1)" by fastforce
  have m1: "matches d1 = matches d" using ensure_interface_counts [of dev "current_by_name cur" "ii_name iface" d] e by simp
  show ?case
  proof (cases r1)
    case (Inr ifid)
    show ?thesis
      using Cons e Inr m1 assign_ips_counts [of "existing_ips cur" ifid "observed_cidrs iface" acc d1]
      by (cases "assign_ips D (existing_ips cur) ifid (observed_cidrs iface) acc d1") (auto split: sum.split)
  qed (use e m1 in simp)
qed simp

lemma each_row_counts:
  assumes "\<And>i d. matches (snd (f i d)) = matches d"
  shows "matches (snd (each_row f rows d)) = matches d"
proof (induction rows arbitrary: d)
  case (Cons i rows)
  then show ?case using assms [of i d] by (cases "f i d") (auto split: sum.split)
qed simp

lemma reconcile_counts: "matches (snd (reconcile D U dev host observed d)) = matches d"
proof -
  note row = each_row_counts [of "dv_delete_ip D", OF other_counts(6)] each_row_counts [of "dv_delete_interface D", OF other_counts(4)]
  have step: "matches (snd (case x of (Inl e, d') \<Rightarrow> (Inl e, d') | (Inr v, d') \<Rightarrow> g v d')) = matches d"
    if "matches (snd x) = matches d" "\<And>v d'. matches d' = matches d \<Longrightarrow> matches (snd (g v d')) = matches d"
    for x :: "(port_error + 'v) \<times> 'd" and g :: "'v \<Rightarrow> 'd \<Rightarrow> (port_error + unit) \<times> 'd"
    using that by (cases x) (auto split: sum.split)
  show ?thesis
    unfolding reconcile_def
    by (intro step) (simp_all add: other_counts assign_interfaces_counts row)
qed

lemma match_and_reconcile_writes:
  assumes "match_and_reconcile D U serial host observed d = (r, d')"
  shows "\<exists>ws. log d' = log d @ ws \<and> matches d' = Suc (matches d)
    \<and> (ws = [] \<and> r \<noteq> Inr Updated
       \<or> (\<exists>device cur. fst (dv_match_by_serial D serial d) = Inr (MatchOne device) \<and> \<not> claimed_by_other U host device
            \<and> fst (dv_read_interfaces D (dr_id device) (snd (dv_match_by_serial D serial d))) = Inr cur
            \<and> phased (dr_id device) (hyphenated U host) observed cur (r = Inr Updated) ws
            \<and> (r = Inr Updated \<or> (\<exists>e. r = Inl e))))"
proof -
  obtain r1 d1 where m: "dv_match_by_serial D serial d = (r1, d1)" by fastforce
  have l1: "log d1 = log d" "matches d1 = Suc (matches d)" using match_log [of serial d] match_counts [of serial d] m by simp_all
  show ?thesis
  proof (cases "\<exists>device. r1 = Inr (MatchOne device) \<and> \<not> claimed_by_other U host device")
    case False
    then have "log d' = log d1" "matches d' = matches d1" "r \<noteq> Inr Updated"
      using assms m by (auto simp: match_and_reconcile_def split: sum.splits serial_match.splits if_splits)
    then show ?thesis using l1 by simp
  next
    case True
    then obtain device where dv: "r1 = Inr (MatchOne device)" "\<not> claimed_by_other U host device" by blast
    obtain r2 d2 where rc: "reconcile D U (dr_id device) host observed d1 = (r2, d2)" by fastforce
    have r: "d' = d2" "r = (case r2 of Inl e \<Rightarrow> Inl e | Inr _ \<Rightarrow> Inr Updated)"
      using assms m dv rc by (auto simp: match_and_reconcile_def split: sum.splits)
    have ok: "(r = Inr Updated) = (r2 = Inr ())" using r(2) by (cases r2) auto
    from reconcile_writes [OF rc] obtain ws where ws: "log d2 = log d1 @ ws"
        "\<And>cur. fst (dv_read_interfaces D (dr_id device) d1) = Inr cur \<Longrightarrow> phased (dr_id device) (hyphenated U host) observed cur (r2 = Inr ()) ws"
        "\<And>e. fst (dv_read_interfaces D (dr_id device) d1) = Inl e \<Longrightarrow> ws = [] \<and> r2 = Inl e" by metis
    have c: "matches d2 = Suc (matches d)" using reconcile_counts [of U "dr_id device" host observed d1] rc l1 by simp
    have either: "r = Inr Updated \<or> (\<exists>e. r = Inl e)" using r(2) by (cases r2) auto
    show ?thesis
    proof (cases "fst (dv_read_interfaces D (dr_id device) d1)")
      case (Inl e)
      then show ?thesis using ws(1,3) l1 c r ok by simp
    next
      case (Inr cur)
      then show ?thesis using ws(1) ws(2) [OF Inr] l1 c r(1) ok m dv either by (intro exI [of _ ws]) auto
    qed
  qed
qed

text \<open>The retry loop stops: after a result or a permanent error at once, after a transient one at the
  latest when the retries are used up.\<close>

lemma retry_loop_bounded:
  assumes "retry_loop D U serial host observed attempt d = (r, d', pauses)" "attempt \<le> MAX_TRANSIENT_RETRIES"
  shows "attempt + length pauses \<le> MAX_TRANSIENT_RETRIES"
    and "pauses = map (\<lambda>k. RETRY_BASE_BACKOFF_MS * 2 ^ k) [attempt..<attempt + length pauses]"
    and "matches d' = matches d + Suc (length pauses)"
    and "r = Inl e \<Longrightarrow> is_transient e \<Longrightarrow> attempt + length pauses = MAX_TRANSIENT_RETRIES"
proof -
  have "attempt + length pauses \<le> MAX_TRANSIENT_RETRIES
      \<and> pauses = map (\<lambda>k. RETRY_BASE_BACKOFF_MS * 2 ^ k) [attempt..<attempt + length pauses]
      \<and> matches d' = matches d + Suc (length pauses)
      \<and> (\<forall>e. r = Inl e \<longrightarrow> is_transient e \<longrightarrow> attempt + length pauses = MAX_TRANSIENT_RETRIES)"
    using assms
  proof (induction "MAX_TRANSIENT_RETRIES - attempt" arbitrary: attempt d pauses)
    case 0
    obtain r1 d1 where m: "match_and_reconcile D U serial host observed d = (r1, d1)" by fastforce
    have "matches d1 = Suc (matches d)" using match_and_reconcile_writes [OF m] by blast
    then show ?case using 0 m retry_loop.simps [of D U serial host observed attempt d] by (auto split: sum.splits)
  next
    case (Suc n)
    obtain r1 d1 where m: "match_and_reconcile D U serial host observed d = (r1, d1)" by fastforce
    have c: "matches d1 = Suc (matches d)" using match_and_reconcile_writes [OF m] by blast
    show ?case
    proof (cases "\<exists>e. r1 = Inl e \<and> is_transient e")
      case False
      then show ?thesis using Suc.prems m c retry_loop.simps [of D U serial host observed attempt d] Suc.hyps(2) by (auto split: sum.splits)
    next
      case True
      then obtain e where e: "r1 = Inl e" "is_transient e" by blast
      obtain r2 d2 ps where l: "retry_loop D U serial host observed (attempt + 1) d1 = (r2, d2, ps)" by (metis prod_cases3)
      have lt: "attempt < MAX_TRANSIENT_RETRIES" using Suc.hyps(2) by simp
      have eq: "r = r2" "d' = d2" "pauses = RETRY_BASE_BACKOFF_MS * 2 ^ attempt # ps"
        using Suc.prems(1) m e l lt retry_loop.simps [of D U serial host observed attempt d] by simp_all
      have ih: "attempt + 1 + length ps \<le> MAX_TRANSIENT_RETRIES
          \<and> ps = map (\<lambda>k. RETRY_BASE_BACKOFF_MS * 2 ^ k) [attempt + 1..<attempt + 1 + length ps]
          \<and> matches d' = matches d1 + Suc (length ps)
          \<and> (\<forall>e. r = Inl e \<longrightarrow> is_transient e \<longrightarrow> attempt + 1 + length ps = MAX_TRANSIENT_RETRIES)"
        using Suc.hyps(1) [of "attempt + 1" d1 ps] l eq lt Suc.hyps(2) by simp
      moreover have "[attempt..<attempt + length pauses] = attempt # [attempt + 1..<attempt + 1 + length ps]"
        using eq(3) by (simp add: upt_rec [of attempt] del: upt_Suc)
      ultimately show ?thesis using eq(3) c by (simp del: upt_Suc)
    qed
  qed
  then show "attempt + length pauses \<le> MAX_TRANSIENT_RETRIES"
    and "pauses = map (\<lambda>k. RETRY_BASE_BACKOFF_MS * 2 ^ k) [attempt..<attempt + length pauses]"
    and "matches d' = matches d + Suc (length pauses)"
    and "r = Inl e \<Longrightarrow> is_transient e \<Longrightarrow> attempt + length pauses = MAX_TRANSIENT_RETRIES"
    by blast+
qed

end

subsection \<open>The live adapter meets the contract\<close>

fun write_of :: "rest_call \<Rightarrow> nb_write option" where
  "write_of (PostInterface i n) = Some (WCreateInterface i n)"
| "write_of (DeleteInterfaceRow i) = Some (WDeleteInterface i)"
| "write_of (PostIp i a) = Some (WCreateIp i a)"
| "write_of (PatchIp i j) = Some (WMoveIp i j)"
| "write_of (DeleteIpRow i) = Some (WDeleteIp i)"
| "write_of (PatchDevice i p q s) = Some (WFinalize i p q s)"
| "write_of _ = None"

definition writes :: "rest_call list \<Rightarrow> nb_write list" where
  "writes h = List.map_filter write_of h"

fun is_match :: "rest_call \<Rightarrow> bool" where
  "is_match (ListDevices _) = True"
| "is_match _ = False"

definition match_calls :: "rest_call list \<Rightarrow> nat" where
  "match_calls h = length (filter is_match h)"

lemma writes_simps [simp]:
  "writes [] = []" "writes (c # h) = (case write_of c of None \<Rightarrow> [] | Some w \<Rightarrow> [w]) @ writes h" "writes (h @ h') = writes h @ writes h'"
  by (simp_all add: writes_def map_filter_def split: option.split)

lemma match_calls_simps [simp]:
  "match_calls [] = 0" "match_calls (c # h) = (if is_match c then 1 else 0) + match_calls h"
  "match_calls (h @ h') = match_calls h + match_calls h'"
  by (simp_all add: match_calls_def)

lemma snd_rest_send [simp]: "snd (rest_send f c h) = h @ [c]"
  by (simp add: rest_send_def)

lemma client_posts [simp]:
  "snd (client_create_interface S i n h) = h @ [PostInterface i n]"
  "snd (client_create_ip S i a h) = h @ [PostIp i a]"
  by (simp_all add: client_create_interface_def client_create_ip_def rest_send_def split: sum.split)

lemma client_match_history [simp]: "snd (client_match_by_serial S s h) = h @ [ListDevices s]"
  by (simp add: client_match_by_serial_def rest_send_def split: sum.split list.split option.split)

lemma client_read_history:
  "snd (client_read_interfaces S i h) = h @ [ListInterfaces i] \<or> snd (client_read_interfaces S i h) = h @ [ListInterfaces i] @ [ListIps i]"
  by (simp add: client_read_interfaces_def rest_send_def split: sum.split)

lemma client_read_frame [simp]:
  "writes (snd (client_read_interfaces S i h)) = writes h" "match_calls (snd (client_read_interfaces S i h)) = match_calls h"
  using client_read_history [of S i h] by auto

interpretation nb: device_log "client_devices S" writes match_calls for S
  by unfold_locales
    (simp_all add: client_devices_def client_delete_interface_def client_move_ip_def client_delete_ip_def
      client_finalize_device_def to_u64_def)

text \<open>A server with one device, whose interface has an old address.\<close>

definition sample_netbox :: netbox_server where
  "sample_netbox =
     \<lparr>ns_devices = (\<lambda>h. Inr (1, [\<lparr>dev_id = Some 7, dev_serial = Some ''s1'', dev_custom_fields = None\<rparr>])),
      ns_interfaces = (\<lambda>h. Inr [\<lparr>ir_id = Some 3, ir_name = Some ''eth0''\<rparr>]),
      ns_ips = (\<lambda>h. Inr [\<lparr>ipr_id = Some 4, ipr_address = Some ''10.0.0.1/32'', ipr_assigned_type = Some ''dcim.interface'', ipr_assigned_id = Some 3\<rparr>]),
      ns_create = (\<lambda>h. Inr (Some 5)),
      ns_write = (\<lambda>h. Inr ())\<rparr>"

definition sample_inventory :: "string \<Rightarrow> inventory_msg" where
  "sample_inventory ip =
     \<lparr>im_dmi_serial = Some ''s1'', im_system = None,
      im_interfaces = [\<lparr>ii_name = ''eth0'', ii_mac = [], ii_ip_addresses = [ip]\<rparr>], im_gaps = []\<rparr>"

lemma sample_cidr: "parse_ip ''10.0.0.2'' = Some (V4 [10, 0, 0, 2])" "parse_ip ''10.0.0.1'' = Some (V4 [10, 0, 0, 1])"
  by code_simp+

lemmas sample_eval = reconcile_def client_devices_def client_read_interfaces_def rest_send_def sample_netbox_def
  sample_inventory_def observed_cidrs_def map_filter_def to_cidr_def sample_cidr ensure_interface_def current_by_name_def
  ensure_ip_def existing_ips_def client_create_ip_def new_id_def keep_ip_def Let_def is_ipv4_cidr_def get_or_insert_def
  client_finalize_device_def to_u64_def stale_ips_def client_delete_ip_def stale_interfaces_def

lemma sample_reconcile:
  "reconcile (client_devices sample_netbox) tally_uuid 7 0 (sample_inventory ''10.0.0.2'') [] =
     (Inr (), [ListInterfaces 7, ListIps 7, PostIp 3 ''10.0.0.2/32'', PatchDevice 7 (Some 5) None ''1'', DeleteIpRow 4])"
  by (simp add: sample_eval tally_uuid_def)




lemma sample_match:
  "match_and_reconcile (client_devices sample_netbox) tally_uuid ''s1'' 0 (sample_inventory ''10.0.0.2'') [] =
     (Inr Updated, [ListDevices ''s1'', ListInterfaces 7, ListIps 7, PostIp 3 ''10.0.0.2/32'', PatchDevice 7 (Some 5) None ''1'', DeleteIpRow 4])"
  by (simp add: match_and_reconcile_def sample_eval tally_uuid_def client_match_by_serial_def eq_ignore_ascii_case_def
      claimed_by_other_def device_host_id_def)


text \<open>
  An upsert ends after at most three retries, with pauses of 100, 200 and 400 ms.  Without a
  usable serial, or when the host's last synced snapshot has the same content, it calls NetBox not at
  all.  Otherwise it asks for the serial once per attempt, gives up on a transient error only when all
  retries are used, and remembers the snapshot exactly when the update succeeded; what is remembered of
  other hosts stays.
\<close>

theorem upsert_retries_and_remembers:
  assumes "upsert (client_devices S) K U host observed sk = (r, sk', pauses)"
  shows "length pauses \<le> MAX_TRANSIENT_RETRIES \<and> pauses = map (\<lambda>k. RETRY_BASE_BACKOFF_MS * 2 ^ k) [0..<length pauses]
    \<and> (case usable_serial observed of
          None \<Rightarrow> r = Inr SkippedNoSerial \<and> sk' = sk
        | Some serial \<Rightarrow>
            let hash = content_hash K serial host observed in
            if already_synced host hash sk then r = Inr Unchanged \<and> sk' = sk
            else match_calls (sk_devices sk') = match_calls (sk_devices sk) + Suc (length pauses)
              \<and> (\<forall>e. r = Inl e \<longrightarrow> is_transient e \<longrightarrow> length pauses = MAX_TRANSIENT_RETRIES)
              \<and> (already_synced host hash sk' \<longleftrightarrow> r = Inr Updated)
              \<and> (\<forall>other. other \<noteq> host \<longrightarrow> map_of (sk_synced sk') other = map_of (sk_synced sk) other))"
proof (cases "\<exists>serial. usable_serial observed = Some serial \<and> \<not> already_synced host (content_hash K serial host observed) sk")
  case False
  then show ?thesis using assms by (auto simp: upsert_def Let_def split: option.splits)
next
  case True
  then obtain serial where s: "usable_serial observed = Some serial" "\<not> already_synced host (content_hash K serial host observed) sk"
    by blast
  obtain r1 d ps where l: "retry_loop (client_devices S) U serial host observed 0 (sk_devices sk) = (r1, d, ps)" by (metis prod_cases3)
  have eq: "r = r1" "pauses = ps" "sk_devices sk' = d"
      "sk_synced sk' = (if r = Inr Updated then AList.update host (content_hash K serial host observed) (sk_synced sk) else sk_synced sk)"
    using assms s l by (auto simp: upsert_def Let_def mark_synced_def split: sum.splits if_splits)
  show ?thesis
    using nb.retry_loop_bounded [OF l] s eq by (auto simp: already_synced_def update_conv)
qed

theorem upsert_retries_and_remembers_witness:
  "match_calls (sk_devices (fst (snd (upsert (client_devices (sample_netbox\<lparr>ns_devices := \<lambda>_. Inl \<lparr>ne_status = Some 503, ne_text = []\<rparr>\<rparr>))
     toy_crypto tally_uuid 0 (sample_inventory ''10.0.0.2'') \<lparr>sk_devices = [], sk_synced = []\<rparr>)))) = 4"
  (is "match_calls (sk_devices (fst (snd (upsert (client_devices ?S) _ _ _ ?obs ?sk)))) = 4")
proof -
  have trim: "usable_serial (sample_inventory ''10.0.0.2'') = Some ''s1''" by code_simp
  have fail: "match_and_reconcile (client_devices ?S) tally_uuid ''s1'' 0 ?obs h = (Inl (Backend []), h @ [ListDevices ''s1''])" for h
    by (simp add: match_and_reconcile_def client_devices_def client_match_by_serial_def rest_send_def sample_netbox_def map_netbox_error_def)
  obtain r sk' pauses where u: "upsert (client_devices ?S) toy_crypto tally_uuid 0 ?obs ?sk = (r, sk', pauses)" by (metis prod_cases3)
  have "r = Inl (Backend [])"
    using u by (simp add: upsert_def trim already_synced_def Let_def retry_loop.simps fail MAX_TRANSIENT_RETRIES_def)
  then show ?thesis
    using upsert_retries_and_remembers [OF u] u
    by (simp add: trim already_synced_def Let_def MAX_TRANSIENT_RETRIES_def)
qed

subsection \<open>A device that already shows the snapshot\<close>

text \<open>The device shows what is observed: the same interface names, the same addresses on each of them,
  no name and no address twice.\<close>

definition already_shows :: "nb_interface list \<Rightarrow> inventory_msg \<Rightarrow> bool" where
  "already_shows cur observed \<longleftrightarrow>
     distinct (map ni_name cur) \<and> distinct (map fst (existing_ips cur))
     \<and> ni_name ` set cur = ii_name ` set (im_interfaces observed)
     \<and> {(ni_name i, nip_address ip) | i ip. i \<in> set cur \<and> ip \<in> set (ni_ips i)}
         = {(ii_name i, c) | i c. i \<in> set (im_interfaces observed) \<and> c \<in> set (observed_cidrs i)}"

lemma existing_ips_iff:
  "(c, k, j) \<in> set (existing_ips cur) \<longleftrightarrow> (\<exists>i\<in>set cur. \<exists>ip\<in>set (ni_ips i). c = nip_address ip \<and> k = nip_id ip \<and> j = ni_id i)"
  by (auto simp: existing_ips_def)

lemma shown_unique: "already_shows cur observed \<Longrightarrow> distinct (map ni_name cur) \<and> inj_on ni_name (set cur) \<and> distinct (map fst (existing_ips cur))"
  by (simp add: already_shows_def distinct_map)

lemma shown_interface:
  assumes "already_shows cur observed" "iface \<in> set (im_interfaces observed)"
  obtains i where "i \<in> set cur" "ni_name i = ii_name iface" "current_by_name cur (ii_name iface) = Some i"
proof -
  have "ii_name iface \<in> ni_name ` set cur" using assms by (simp add: already_shows_def)
  then obtain i where i: "i \<in> set cur" "ni_name i = ii_name iface" by force
  have "distinct (map fst (rev (map (\<lambda>i. (ni_name i, i)) cur)))" using shown_unique [OF assms(1)] by (simp add: comp_def flip: rev_map)
  then have "current_by_name cur (ii_name iface) = Some i" using i by (force simp: current_by_name_def)
  then show ?thesis using i that by blast
qed

lemma shown_ip:
  assumes "already_shows cur observed" "iface \<in> set (im_interfaces observed)" "c \<in> set (observed_cidrs iface)"
    and "i \<in> set cur" "ni_name i = ii_name iface"
  obtains k where "map_of (existing_ips cur) c = Some (k, ni_id i)"
proof -
  have "(ii_name iface, c) \<in> {(ni_name i, nip_address ip) | i ip. i \<in> set cur \<and> ip \<in> set (ni_ips i)}"
    using assms(1-3) unfolding already_shows_def by blast
  then obtain i' ip where i': "i' \<in> set cur" "ip \<in> set (ni_ips i')" "ni_name i' = ii_name iface" "nip_address ip = c" by auto
  have "i' = i" using shown_unique [OF assms(1)] assms(4,5) i'(1,3) unfolding inj_on_def by auto
  then have "(c, nip_id ip, ni_id i) \<in> set (existing_ips cur)" using i' by (auto simp: existing_ips_iff)
  then show ?thesis using shown_unique [OF assms(1)] that by simp
qed

lemma assign_ips_shown:
  assumes "\<forall>c\<in>set cs. \<exists>k. map_of ex c = Some (k, ifid)"
  shows "\<exists>acc'. assign_ips D ex ifid cs acc d = (Inr acc', d)
    \<and> set (rc_kept acc') = set (rc_kept acc) \<union> {k. \<exists>c\<in>set cs. map_of ex c = Some (k, ifid)}"
  using assms
proof (induction cs arbitrary: acc)
  case (Cons c cs)
  obtain k where k: "map_of ex c = Some (k, ifid)" using Cons.prems by auto
  from Cons.IH [of "keep_ip c k acc"] Cons.prems show ?case using k by (auto simp: ensure_ip_def)
qed simp

lemma assign_interfaces_shown:
  assumes "already_shows cur observed" "set ifaces \<subseteq> set (im_interfaces observed)"
  shows "\<exists>acc'. assign_interfaces D dev cur ifaces acc d = (Inr acc', d) \<and> set (rc_kept acc) \<subseteq> set (rc_kept acc')
    \<and> (\<forall>iface\<in>set ifaces. \<forall>c\<in>set (observed_cidrs iface). \<forall>k j. map_of (existing_ips cur) c = Some (k, j) \<longrightarrow> k \<in> set (rc_kept acc'))"
  using assms(2)
proof (induction ifaces arbitrary: acc)
  case (Cons iface ifaces)
  then have mem: "iface \<in> set (im_interfaces observed)" by simp
  obtain i where i: "i \<in> set cur" "ni_name i = ii_name iface" "current_by_name cur (ii_name iface) = Some i"
    by (rule shown_interface [OF assms(1) mem])
  have ips: "\<forall>c\<in>set (observed_cidrs iface). \<exists>k. map_of (existing_ips cur) c = Some (k, ni_id i)"
    by (rule ballI, erule shown_ip [OF assms(1) mem _ i(1,2)]) (rule exI)
  from assign_ips_shown [of "observed_cidrs iface" "existing_ips cur" "ni_id i" D acc d, OF ips] obtain acc1 where
      a: "assign_ips D (existing_ips cur) (ni_id i) (observed_cidrs iface) acc d = (Inr acc1, d)"
        "set (rc_kept acc1) = set (rc_kept acc) \<union> {k. \<exists>c\<in>set (observed_cidrs iface). map_of (existing_ips cur) c = Some (k, ni_id i)}"
    by (elim exE conjE) (rule that)
  have "set ifaces \<subseteq> set (im_interfaces observed)" using Cons.prems by simp
  from Cons.IH [OF this, of acc1] obtain acc2 where b: "assign_interfaces D dev cur ifaces acc1 d = (Inr acc2, d)"
      "set (rc_kept acc1) \<subseteq> set (rc_kept acc2)"
      "\<forall>iface\<in>set ifaces. \<forall>c\<in>set (observed_cidrs iface). \<forall>k j. map_of (existing_ips cur) c = Some (k, j) \<longrightarrow> k \<in> set (rc_kept acc2)"
    by blast
  have "k \<in> set (rc_kept acc2)" if "c \<in> set (observed_cidrs iface)" "map_of (existing_ips cur) c = Some (k, j)" for c k j
    using that ips a(2) b(2) by fastforce
  then show ?case using i a b by (intro exI [of _ acc2]) (auto simp: ensure_interface_def)
qed simp

text \<open>
  Inventory is idempotent.  When the device already shows the snapshot, with no name and no
  address twice, a reconcile creates, moves and deletes nothing: it is the reading of the device
  followed by the one update of primaries and stamp.
\<close>

theorem reconcile_idempotent:
  assumes "client_read_interfaces S dev h = (Inr cur, h1)" "already_shows cur observed"
  shows "\<exists>p4 p6. reconcile (client_devices S) U dev host observed h = client_finalize_device S dev p4 p6 (hyphenated U host) h1"
proof -
  let ?D = "client_devices S"
  from assign_interfaces_shown [OF assms(2) subset_refl, of ?D dev "\<lparr>rc_primary4 = None, rc_primary6 = None, rc_kept = []\<rparr>" h1]
  obtain acc where acc: "assign_interfaces ?D dev cur (im_interfaces observed)
        \<lparr>rc_primary4 = None, rc_primary6 = None, rc_kept = []\<rparr> h1 = (Inr acc, h1)"
      "\<forall>iface\<in>set (im_interfaces observed). \<forall>c\<in>set (observed_cidrs iface). \<forall>k j. map_of (existing_ips cur) c = Some (k, j) \<longrightarrow> k \<in> set (rc_kept acc)"
    by (elim exE conjE) (rule that)
  have "k \<in> set (rc_kept acc)" if "i \<in> set cur" "ip \<in> set (ni_ips i)" "k = nip_id ip" for k i ip
  proof -
    have "(ni_name i, nip_address ip) \<in> {(ii_name i, c) | i c. i \<in> set (im_interfaces observed) \<and> c \<in> set (observed_cidrs i)}"
      using assms(2) that(1,2) unfolding already_shows_def by blast
    moreover have "map_of (existing_ips cur) (nip_address ip) = Some (nip_id ip, ni_id i)"
      using assms(2) that(1,2) by (intro map_of_is_SomeI) (auto simp: already_shows_def existing_ips_iff)
    ultimately show ?thesis using acc(2) that(3) by blast
  qed
  then have "stale_ips (rc_kept acc) cur = []" by (auto simp: stale_ips_def filter_empty_conv)
  moreover have "stale_interfaces observed cur = []" using assms(2) by (auto simp: stale_interfaces_def already_shows_def filter_empty_conv)
  ultimately have "reconcile ?D U dev host observed h =
      client_finalize_device S dev (rc_primary4 acc) (rc_primary6 acc) (hyphenated U host) h1"
    using assms(1) acc(1) by (simp add: reconcile_def client_devices_def split: prod.split sum.split)
  then show ?thesis by blast
qed

theorem reconcile_idempotent_witness:
  "\<exists>p4 p6. reconcile (client_devices sample_netbox) tally_uuid 7 0 (sample_inventory ''10.0.0.1'') []
     = client_finalize_device sample_netbox 7 p4 p6 ''1'' [ListInterfaces 7, ListIps 7]"
proof -
  let ?cur = "[\<lparr>ni_id = 3, ni_name = ''eth0'', ni_ips = [\<lparr>nip_id = 4, nip_address = ''10.0.0.1/32''\<rparr>]\<rparr>]"
  have "client_read_interfaces sample_netbox 7 [] = (Inr ?cur, [ListInterfaces 7, ListIps 7])"
    by (simp add: client_read_interfaces_def rest_send_def sample_netbox_def)
  moreover have cidrs: "observed_cidrs \<lparr>ii_name = ''eth0'', ii_mac = [], ii_ip_addresses = [''10.0.0.1'']\<rparr> = [''10.0.0.1/32'']"
    by (simp add: observed_cidrs_def map_filter_def to_cidr_def sample_cidr)
  moreover have "already_shows ?cur (sample_inventory ''10.0.0.1'')"
    using cidrs by (auto simp: already_shows_def existing_ips_def sample_inventory_def)
  ultimately show ?thesis using reconcile_idempotent [of sample_netbox 7 "[]" ?cur _ _ tally_uuid 0] by (simp add: tally_uuid_def)
qed

text \<open>
  The condition that no address is on two interfaces is needed.  When two interfaces report the same
  address, as anycast or link-local addresses may, and the device shows it on both, a reconcile moves
  the first row to the second interface and deletes the second row: the device then shows the address
  on one interface only.
\<close>

definition shared_netbox :: netbox_server where
  "shared_netbox = sample_netbox
     \<lparr>ns_interfaces := \<lambda>h. Inr [\<lparr>ir_id = Some 1, ir_name = Some ''a''\<rparr>, \<lparr>ir_id = Some 2, ir_name = Some ''b''\<rparr>],
      ns_ips := \<lambda>h. Inr (map (\<lambda>(k, i). \<lparr>ipr_id = Some k, ipr_address = Some ''10.0.0.1/32'',
                                ipr_assigned_type = Some ''dcim.interface'', ipr_assigned_id = Some i\<rparr>) [(4, 1), (5, 2)])\<rparr>"

definition shared_inventory :: inventory_msg where
  "shared_inventory =
     \<lparr>im_dmi_serial = Some ''s1'', im_system = None,
      im_interfaces = map (\<lambda>n. \<lparr>ii_name = n, ii_mac = [], ii_ip_addresses = [''10.0.0.1'']\<rparr>) [''a'', ''b''], im_gaps = []\<rparr>"

lemma shared_address_not_stable:
  "writes (snd (reconcile (client_devices shared_netbox) tally_uuid 7 0 shared_inventory []))
     = [WMoveIp 4 2, WFinalize 7 (Some 4) None ''1'', WDeleteIp 5]"
  by (simp add: sample_eval shared_netbox_def shared_inventory_def client_move_ip_def tally_uuid_def)

subsection \<open>The dedup key\<close>

lemma concat_separated_inj:
  assumes "concat (map (\<lambda>x. sep # f x) xs) = concat (map (\<lambda>y. sep # g y) ys)"
    and "\<forall>x\<in>set xs. sep \<notin> set (f x)" "\<forall>y\<in>set ys. sep \<notin> set (g y)"
  shows "map f xs = map g ys"
  using assms
proof (induction xs arbitrary: ys)
  case Nil
  then show ?case by (cases ys) auto
next
  case (Cons x xs)
  then obtain y ys' where ys: "ys = y # ys'" by (cases ys) auto
  let ?r = "concat (map (\<lambda>x. sep # f x) xs)" and ?r' = "concat (map (\<lambda>y. sep # g y) ys')"
  have head: "takeWhile (\<lambda>b. b \<noteq> sep) (f x @ ?r) = f x" "takeWhile (\<lambda>b. b \<noteq> sep) (g y @ ?r') = g y"
    using Cons.prems(2,3) ys by (cases xs; cases ys'; auto simp: takeWhile_append)+
  have "f x @ ?r = g y @ ?r'" using Cons.prems(1) ys by simp
  then have "f x = g y" "?r = ?r'" using head by (metis, metis head append_same_eq same_append_eq)
  then show ?case using Cons.IH [of ys'] Cons.prems(2,3) ys by simp
qed

text \<open>Text without the three separator bytes.  The last of them is no byte of UTF-8.\<close>

definition plain :: "string \<Rightarrow> bool" where
  "plain s \<longleftrightarrow> set (as_bytes s) \<inter> {0, 2, 255} = {}"

definition plain_inventory :: "inventory_msg \<Rightarrow> bool" where
  "plain_inventory observed \<longleftrightarrow>
     (\<forall>iface\<in>set (im_interfaces observed). plain (ii_name iface) \<and> (\<forall>ip\<in>set (ii_ip_addresses iface). plain ip))"

definition written :: "inventory_msg \<Rightarrow> (string \<times> string list) list" where
  "written observed = map (\<lambda>iface. (ii_name iface, ii_ip_addresses iface)) (im_interfaces observed)"

lemma split_at_first:
  assumes "xs @ x # ys = xs' @ x # ys'" "x \<notin> set xs" "x \<notin> set xs'"
  shows "xs = xs' \<and> ys = ys'"
  using assms
proof (induction xs arbitrary: xs')
  case Nil
  then show ?case by (cases xs') auto
next
  case (Cons a xs)
  then show ?case by (cases xs') auto
qed

lemma map_eq_transfer:
  assumes "map f xs = map f ys" "\<And>x y. x \<in> set xs \<Longrightarrow> y \<in> set ys \<Longrightarrow> f x = f y \<Longrightarrow> g x = g y"
  shows "map g xs = map g ys"
  using assms
proof (induction xs arbitrary: ys)
  case (Cons x xs)
  then show ?case by (cases ys) auto
qed simp

lemma iface_bytes_inj:
  assumes "as_bytes n @ concat (map (\<lambda>ip. 0 # as_bytes ip) ips) = as_bytes m @ concat (map (\<lambda>ip. 0 # as_bytes ip) jps)"
    and "plain n" "\<forall>ip\<in>set ips. plain ip" "plain m" "\<forall>ip\<in>set jps. plain ip"
  shows "n = m \<and> ips = jps"
proof -
  have "concat (map (\<lambda>s. 0 # as_bytes s) (n # ips)) = concat (map (\<lambda>s. 0 # as_bytes s) (m # jps))" using assms(1) by simp
  from concat_separated_inj [OF this] have "map as_bytes (n # ips) = map as_bytes (m # jps)"
    using assms(2-5) by (auto simp: plain_def)
  then show ?thesis using map_inj_on [of as_bytes ips jps] by (auto simp: inj_on_def)
qed

lemma content_bytes_inj:
  assumes "content_bytes s host observed = content_bytes s' host observed'"
    and "plain s" "plain s'" "plain_inventory observed" "plain_inventory observed'"
  shows "s = s' \<and> written observed = written observed'"
proof -
  let ?f = "\<lambda>iface. as_bytes (ii_name iface) @ concat (map (\<lambda>ip. 0 # as_bytes ip) (ii_ip_addresses iface))"
  let ?tail = "\<lambda>inv. be_bytes 16 host @ concat (map (\<lambda>iface. 255 # ?f iface) (im_interfaces inv))"
  have e: "as_bytes s @ 2 # ?tail observed = as_bytes s' @ 2 # ?tail observed'" using assms(1) by (simp add: content_bytes_def)
  have n: "2 \<notin> set (as_bytes s)" "2 \<notin> set (as_bytes s')" using assms(2,3) by (auto simp: plain_def)
  have eq: "as_bytes s = as_bytes s'" "?tail observed = ?tail observed'"
    using split_at_first [OF e n] by simp_all
  have sep: "255 \<notin> set (?f iface)" if "plain_inventory inv" "iface \<in> set (im_interfaces inv)" for inv iface
    using that by (auto simp: plain_inventory_def plain_def)
  have "map ?f (im_interfaces observed) = map ?f (im_interfaces observed')"
    using eq(2) sep assms(4,5) by (intro concat_separated_inj [of 255]) simp_all
  then have "written observed = written observed'"
    unfolding written_def
  proof (rule map_eq_transfer)
    fix x y
    assume "x \<in> set (im_interfaces observed)" "y \<in> set (im_interfaces observed')" "?f x = ?f y"
    then show "(ii_name x, ii_ip_addresses x) = (ii_name y, ii_ip_addresses y)"
      using iface_bytes_inj [of "ii_name x" "ii_ip_addresses x" "ii_name y" "ii_ip_addresses y"] assms(4,5)
      by (simp add: plain_inventory_def)
  qed
  then show ?thesis using eq(1) by simp
qed

text \<open>
  The dedup key stands for exactly what is written.  Two snapshots of a host have the same
  content hash if and only if they agree on the serial and on the names and addresses of the
  interfaces, as long as SHA-256 does not collide on the two encodings and the texts avoid the three
  separator bytes.  So skipping a snapshot with a known hash skips nothing that would have been written.
\<close>

theorem content_hash_identifies_written:
  assumes "sha256 K (content_bytes s host observed) = sha256 K (content_bytes s' host observed')
      \<Longrightarrow> content_bytes s host observed = content_bytes s' host observed'"
    and "plain s" "plain s'" "plain_inventory observed" "plain_inventory observed'"
  shows "content_hash K s host observed = content_hash K s' host observed' \<longleftrightarrow> s = s' \<and> written observed = written observed'"
proof
  assume "content_hash K s host observed = content_hash K s' host observed'"
  then have "content_bytes s host observed = content_bytes s' host observed'"
    using assms(1) by (simp add: content_hash_def sha256_hex_inj)
  then show "s = s' \<and> written observed = written observed'" using content_bytes_inj assms(2-5) by blast
next
  have enc: "content_bytes s host v = as_bytes s @ [2] @ be_bytes 16 host
      @ concat (map (\<lambda>(n, ips). 255 # as_bytes n @ concat (map (\<lambda>ip. 0 # as_bytes ip) ips)) (written v))" for s v
    by (simp add: content_bytes_def written_def comp_def)
  assume "s = s' \<and> written observed = written observed'"
  then show "content_hash K s host observed = content_hash K s' host observed'" by (simp add: content_hash_def enc)
qed

theorem content_hash_identifies_written_witness:
  "content_hash toy_crypto ''s1'' 0 (sample_inventory ''10.0.0.1'')
     = content_hash toy_crypto ''s1'' 0 ((sample_inventory ''10.0.0.1'')\<lparr>im_gaps := [\<lparr>ig_field = ''dmi'', ig_reason = []\<rparr>]\<rparr>)"
proof -
  have "plain ''s1''" "plain_inventory (sample_inventory ''10.0.0.1'')"
      "plain_inventory ((sample_inventory ''10.0.0.1'')\<lparr>im_gaps := [\<lparr>ig_field = ''dmi'', ig_reason = []\<rparr>]\<rparr>)"
    by (simp_all add: plain_inventory_def plain_def sample_inventory_def as_bytes_def)
  from content_hash_identifies_written [OF _ this(1) this(1) this(2) this(3), of toy_crypto 0]
  show ?thesis by (simp add: written_def sample_inventory_def content_bytes_def)
qed

end
