(* ===== verification/Upsert_Tasks.thy ===== *)
theory Upsert_Tasks
  imports Netbox_Safety
begin

text \<open>
  The inventory sink under concurrency: the bridge spawns one task per snapshot, and \<open>upsert\<close>
  (\<^verbatim>\<open>osa-coordinator/src/netbox.rs\<close>) takes the lock of the host around the dedup check, the attempts and the mark.
  A task is at one of its await points; an attempt against NetBox is one step, and the pauses between
  attempts are points where other tasks run.
\<close>

subsection \<open>Tasks and locks\<close>

datatype upsert_pc = AtLock | AtCheck | AtAttempt nat | AtMark upsert_outcome

record upsert_task =
  ut_host :: uuid
  ut_serial :: string
  ut_observed :: inventory_msg
  ut_pc :: upsert_pc

text \<open>The lock of each host seen so far, with the task that holds it.\<close>

type_synonym host_locks = "(uuid, nat option) amap"

definition host_lock :: "uuid \<Rightarrow> host_locks \<Rightarrow> host_locks" where
  "host_lock host locks = (case map_of locks host of None \<Rightarrow> AList.update host None locks | Some _ \<Rightarrow> locks)"

text \<open>What happened, in order: a snapshot with this content was written for a host; a task was answered.\<close>

datatype upsert_event = Wrote uuid string | Answered uuid string "port_error + upsert_outcome"

record 'd upsert_sys =
  us_sink :: "'d sink"
  us_locks :: host_locks
  us_tasks :: "nat \<Rightarrow> upsert_task option"
  us_events :: "upsert_event list"

definition task_hash :: "crypto \<Rightarrow> upsert_task \<Rightarrow> string" where
  "task_hash K x = content_hash K (ut_serial x) (ut_host x) (ut_observed x)"

lemma task_hash_pc [simp]: "task_hash K (x\<lparr>ut_pc := pc\<rparr>) = task_hash K x"
  by (simp add: task_hash_def)

text \<open>A task returns: it drops its guard.\<close>

definition answer :: "crypto \<Rightarrow> nat \<Rightarrow> upsert_task \<Rightarrow> port_error + upsert_outcome \<Rightarrow> 'd upsert_sys \<Rightarrow> 'd upsert_sys" where
  "answer K t x r s =
     s\<lparr>us_locks := AList.update (ut_host x) None (us_locks s), us_tasks := (us_tasks s)(t := None),
       us_events := us_events s @ [Answered (ut_host x) (task_hash K x) r]\<rparr>"

definition goto :: "nat \<Rightarrow> upsert_task \<Rightarrow> upsert_pc \<Rightarrow> 'd upsert_sys \<Rightarrow> 'd upsert_sys" where
  "goto t x pc s = s\<lparr>us_tasks := (us_tasks s)(t \<mapsto> x\<lparr>ut_pc := pc\<rparr>)\<rparr>"

definition attempt_step :: "'d devices \<Rightarrow> uuid_lib \<Rightarrow> upsert_task \<Rightarrow> 'd upsert_sys \<Rightarrow> (port_error + upsert_outcome) \<times> 'd upsert_sys" where
  "attempt_step D U x s =
     (case match_and_reconcile D U (ut_serial x) (ut_host x) (ut_observed x) (sk_devices (us_sink s)) of
        (r, d) \<Rightarrow> (r, s\<lparr>us_sink := (us_sink s)\<lparr>sk_devices := d\<rparr>\<rparr>))"

inductive upsert_step :: "'d devices \<Rightarrow> crypto \<Rightarrow> uuid_lib \<Rightarrow> 'd upsert_sys \<Rightarrow> 'd upsert_sys \<Rightarrow> bool"
  for D K U where
  spawn_task: "us_tasks s t = None \<Longrightarrow> usable_serial observed = Some serial \<Longrightarrow>
     upsert_step D K U s (s\<lparr>us_tasks := (us_tasks s)(t \<mapsto> \<lparr>ut_host = host, ut_serial = serial, ut_observed = observed, ut_pc = AtLock\<rparr>)\<rparr>)"
| take_lock: "us_tasks s t = Some x \<Longrightarrow> ut_pc x = AtLock \<Longrightarrow> locks = host_lock (ut_host x) (us_locks s) \<Longrightarrow>
     map_of locks (ut_host x) = Some None \<Longrightarrow>
     upsert_step D K U s (goto t x AtCheck (s\<lparr>us_locks := AList.update (ut_host x) (Some t) locks\<rparr>))"
| skip: "us_tasks s t = Some x \<Longrightarrow> ut_pc x = AtCheck \<Longrightarrow> already_synced (ut_host x) (task_hash K x) (us_sink s) \<Longrightarrow>
     upsert_step D K U s (answer K t x (Inr Unchanged) s)"
| begin_attempts: "us_tasks s t = Some x \<Longrightarrow> ut_pc x = AtCheck \<Longrightarrow> \<not> already_synced (ut_host x) (task_hash K x) (us_sink s) \<Longrightarrow>
     upsert_step D K U s (goto t x (AtAttempt 0) s)"
| attempt_ok: "us_tasks s t = Some x \<Longrightarrow> ut_pc x = AtAttempt n \<Longrightarrow> attempt_step D U x s = (Inr outcome, s1) \<Longrightarrow>
     upsert_step D K U s
       (goto t x (AtMark outcome) (s1\<lparr>us_events := us_events s @ (if outcome = Updated then [Wrote (ut_host x) (task_hash K x)] else [])\<rparr>))"
| attempt_retry: "us_tasks s t = Some x \<Longrightarrow> ut_pc x = AtAttempt n \<Longrightarrow> attempt_step D U x s = (Inl e, s1) \<Longrightarrow>
     is_transient e \<Longrightarrow> n < MAX_TRANSIENT_RETRIES \<Longrightarrow> upsert_step D K U s (goto t x (AtAttempt (n + 1)) s1)"
| attempt_failed: "us_tasks s t = Some x \<Longrightarrow> ut_pc x = AtAttempt n \<Longrightarrow> attempt_step D U x s = (Inl e, s1) \<Longrightarrow>
     \<not> (is_transient e \<and> n < MAX_TRANSIENT_RETRIES) \<Longrightarrow> upsert_step D K U s (answer K t x (Inl e) s1)"
| mark: "us_tasks s t = Some x \<Longrightarrow> ut_pc x = AtMark outcome \<Longrightarrow>
     upsert_step D K U s (answer K t x (Inr outcome)
       (if outcome = Updated then s\<lparr>us_sink := mark_synced (ut_host x) (task_hash K x) (us_sink s)\<rparr> else s))"

definition sink_new :: "'d \<Rightarrow> 'd upsert_sys" where
  "sink_new d = \<lparr>us_sink = \<lparr>sk_devices = d, sk_synced = []\<rparr>, us_locks = [], us_tasks = (\<lambda>_. None), us_events = []\<rparr>"

subsection \<open>One task at a time per host\<close>

fun last_write :: "upsert_event list \<Rightarrow> uuid \<Rightarrow> string option" where
  "last_write [] h = None"
| "last_write (e # es) h =
     (case last_write es h of
        Some c \<Rightarrow> Some c
      | None \<Rightarrow> (case e of Wrote h' c \<Rightarrow> if h' = h then Some c else None | _ \<Rightarrow> None))"

lemma last_write_snoc [simp]:
  "last_write (es @ [Answered h' c r]) h = last_write es h"
  "last_write (es @ [Wrote h' c]) h = (if h' = h then Some c else last_write es h)"
  by (induction es) (auto split: option.split)

text \<open>A write of the host was made and is not marked yet.\<close>

definition marking :: "(nat \<Rightarrow> upsert_task option) \<Rightarrow> uuid \<Rightarrow> bool" where
  "marking tasks h \<longleftrightarrow> (\<exists>t x. tasks t = Some x \<and> ut_host x = h \<and> ut_pc x = AtMark Updated)"

text \<open>The holder of a lock is the one task of its host beyond the lock; outside a mark, the mark of a host is its
  last write.\<close>

definition upsert_inv :: "crypto \<Rightarrow> 'd upsert_sys \<Rightarrow> bool" where
  "upsert_inv K s \<longleftrightarrow>
     (\<forall>t x. us_tasks s t = Some x \<and> ut_pc x \<noteq> AtLock \<longrightarrow> map_of (us_locks s) (ut_host x) = Some (Some t))
     \<and> (\<forall>h. \<not> marking (us_tasks s) h \<longrightarrow> map_of (sk_synced (us_sink s)) h = last_write (us_events s) h)
     \<and> (\<forall>t x outcome. us_tasks s t = Some x \<and> ut_pc x = AtMark outcome \<longrightarrow> outcome \<noteq> Unchanged
            \<and> (outcome = Updated \<longrightarrow> last_write (us_events s) (ut_host x) = Some (task_hash K x)))"

definition skips_repeat_last_write :: "upsert_event list \<Rightarrow> bool" where
  "skips_repeat_last_write es \<longleftrightarrow>
     (\<forall>pre h c post. es = pre @ Answered h c (Inr Unchanged) # post \<longrightarrow> last_write pre h = Some c)"

lemma match_and_reconcile_changed: "fst (match_and_reconcile D U serial host observed d) \<noteq> Inr Unchanged"
  by (auto simp: match_and_reconcile_def split: prod.split sum.split serial_match.split)

lemma attempt_step_simps:
  assumes "attempt_step D U x s = (r, s1)"
  shows "us_locks s1 = us_locks s" "us_tasks s1 = us_tasks s" "us_events s1 = us_events s" "sk_synced (us_sink s1) = sk_synced (us_sink s)"
    "r \<noteq> Inr Unchanged"
proof -
  obtain d where d: "match_and_reconcile D U (ut_serial x) (ut_host x) (ut_observed x) (sk_devices (us_sink s)) = (r, d)"
      "s1 = s\<lparr>us_sink := (us_sink s)\<lparr>sk_devices := d\<rparr>\<rparr>"
    using assms by (auto simp: attempt_step_def split: prod.splits)
  show "r \<noteq> Inr Unchanged"
    using match_and_reconcile_changed [of D U "ut_serial x" "ut_host x" "ut_observed x" "sk_devices (us_sink s)"] d(1) by simp
qed (use assms in \<open>auto simp: attempt_step_def split: prod.splits\<close>)

lemma marking_upd:
  "marking (tasks(t \<mapsto> y)) h \<longleftrightarrow> ut_host y = h \<and> ut_pc y = AtMark Updated \<or> marking (tasks(t := None)) h"
  by (auto simp: marking_def split: if_splits)

lemma marking_other:
  assumes "us_tasks s t = Some x" "ut_host x \<noteq> h \<or> ut_pc x \<noteq> AtMark Updated"
  shows "marking ((us_tasks s)(t := None)) h = marking (us_tasks s) h"
  using marking_upd [of "us_tasks s" t x h] assms by (auto simp: fun_upd_idem)

lemma marking_none: "tasks t = None \<Longrightarrow> marking (tasks(t := None)) h = marking tasks h"
  by (simp add: fun_upd_idem)

text \<open>Two tasks of a host are not both beyond the lock.\<close>

lemma upsert_inv_lock:
  assumes "upsert_inv K s" "us_tasks s t = Some x" "ut_pc x \<noteq> AtLock" "us_tasks s u = Some y" "ut_pc y \<noteq> AtLock" "ut_host y = ut_host x"
  shows "u = t"
proof -
  have "map_of (us_locks s) (ut_host x) = Some (Some t)" "map_of (us_locks s) (ut_host y) = Some (Some u)"
    using assms unfolding upsert_inv_def by blast+
  then show ?thesis using assms(6) by simp
qed

lemma upsert_inv_unmarked:
  assumes "upsert_inv K s" "us_tasks s t = Some x" "ut_pc x \<noteq> AtLock"
  shows "\<not> marking ((us_tasks s)(t := None)) (ut_host x)"
  using upsert_inv_lock [OF assms] by (auto simp: marking_def split: if_splits)

text \<open>A task beyond its lock goes on, without touching the marks or the log.\<close>

lemma upsert_inv_goto:
  assumes "upsert_inv K s" "us_tasks s t = Some x" "ut_pc x \<noteq> AtLock" "ut_pc x \<noteq> AtMark Updated" "\<And>outcome. pc \<noteq> AtMark outcome" "pc \<noteq> AtLock"
    and "us_locks s1 = us_locks s" "us_tasks s1 = us_tasks s" "us_events s1 = us_events s" "sk_synced (us_sink s1) = sk_synced (us_sink s)"
  shows "upsert_inv K (goto t x pc s1)"
proof -
  have "map_of (us_locks s) (ut_host x) = Some (Some t)" using assms(1-3) by (simp add: upsert_inv_def)
  moreover have "marking ((us_tasks s)(t \<mapsto> x\<lparr>ut_pc := pc\<rparr>)) h = marking (us_tasks s) h" for h
    using marking_other [OF assms(2)] assms(4,5) by (simp add: marking_upd)
  ultimately show ?thesis using assms(1,5-10) by (auto simp: upsert_inv_def goto_def)
qed

text \<open>A task beyond its lock returns: \<open>s1\<close> has its marks in step with the log.\<close>

lemma upsert_inv_answer:
  assumes "upsert_inv K s" "us_tasks s t = Some x" "ut_pc x \<noteq> AtLock"
    and "us_locks s1 = us_locks s" "us_tasks s1 = us_tasks s" "us_events s1 = us_events s"
    and "map_of (sk_synced (us_sink s1)) (ut_host x) = last_write (us_events s) (ut_host x)"
    and "\<And>h. h \<noteq> ut_host x \<Longrightarrow> map_of (sk_synced (us_sink s1)) h = map_of (sk_synced (us_sink s)) h"
  shows "upsert_inv K (answer K t x r s1)"
proof -
  have "map_of (sk_synced (us_sink s1)) h = last_write (us_events s) h" if "\<not> marking ((us_tasks s)(t := None)) h" for h
    using that marking_other [OF assms(2), of h] assms(1,7,8) by (cases "h = ut_host x") (auto simp: upsert_inv_def)
  moreover have "ut_host y \<noteq> ut_host x" if "us_tasks s u = Some y" "ut_pc y \<noteq> AtLock" "u \<noteq> t" for u y
    using upsert_inv_lock [OF assms(1-3)] that by blast
  ultimately show ?thesis using assms(1,4-6) by (auto simp: upsert_inv_def answer_def update_conv split: if_splits)
qed

lemma upsert_inv_synced:
  assumes "upsert_inv K s" "us_tasks s t = Some x" "ut_pc x \<noteq> AtLock" "ut_pc x \<noteq> AtMark Updated"
  shows "map_of (sk_synced (us_sink s)) (ut_host x) = last_write (us_events s) (ut_host x)"
  using assms upsert_inv_unmarked [OF assms(1-3)] marking_other [OF assms(2), of "ut_host x"] by (simp add: upsert_inv_def)

lemma upsert_inv_step:
  assumes "upsert_step D K U s s'" "upsert_inv K s"
  shows "upsert_inv K s'"
  using assms
proof (induction rule: upsert_step.induct)
  case (spawn_task s t observed serial host)
  then show ?case by (auto simp: upsert_inv_def marking_upd marking_none)
next
  case (take_lock s t x locks)
  have locks: "map_of locks h = (if h = ut_host x then Some None else map_of (us_locks s) h)" for h
    using take_lock(3,4) by (auto simp: host_lock_def update_conv split: option.splits)
  have "map_of (us_locks s) (ut_host x) \<noteq> Some (Some u)" for u
    using take_lock(3,4) by (auto simp: host_lock_def split: option.splits)
  then have "ut_host y \<noteq> ut_host x" if "us_tasks s u = Some y" "ut_pc y \<noteq> AtLock" for u y
    using take_lock.prems that unfolding upsert_inv_def by metis
  then show ?case
    using take_lock.prems locks marking_other [OF take_lock(1)] take_lock(2)
    by (auto simp: upsert_inv_def goto_def update_conv marking_upd split: if_splits)
next
  case (skip s t x)
  then show ?case by (intro upsert_inv_answer [OF skip.prems skip(1)]) (simp_all add: upsert_inv_synced [OF skip.prems skip(1)])
next
  case (begin_attempts s t x)
  then show ?case by (intro upsert_inv_goto [OF begin_attempts.prems]) simp_all
next
  case (attempt_ok s t x n outcome s1)
  note s1 = attempt_step_simps [OF attempt_ok(3)]
  have x: "map_of (us_locks s) (ut_host x) = Some (Some t)" "map_of (sk_synced (us_sink s)) (ut_host x) = last_write (us_events s) (ut_host x)"
    using attempt_ok.prems attempt_ok(1,2) upsert_inv_synced [OF attempt_ok.prems attempt_ok(1)] by (simp_all add: upsert_inv_def)
  have other: "ut_host y \<noteq> ut_host x" if "us_tasks s u = Some y" "ut_pc y \<noteq> AtLock" "u \<noteq> t" for u y
    using upsert_inv_lock [OF attempt_ok.prems attempt_ok(1)] attempt_ok(2) that by auto
  have m: "marking ((us_tasks s)(t := None)) h = marking (us_tasks s) h" for h
    using marking_other [OF attempt_ok(1)] attempt_ok(2) by simp
  show ?case
    using attempt_ok.prems s1 x(1) other m by (auto simp: upsert_inv_def goto_def marking_upd split: if_splits)
next
  case (attempt_retry s t x n e s1)
  then show ?case using attempt_step_simps [OF attempt_retry(3)] by (intro upsert_inv_goto [OF attempt_retry.prems]) simp_all
next
  case (attempt_failed s t x n e s1)
  then show ?case
    using attempt_step_simps [OF attempt_failed(3)]
    by (intro upsert_inv_answer [OF attempt_failed.prems attempt_failed(1)]) (simp_all add: upsert_inv_synced [OF attempt_failed.prems attempt_failed(1)])
next
  case (mark s t x outcome)
  have "outcome = Updated \<Longrightarrow> last_write (us_events s) (ut_host x) = Some (task_hash K x)" using mark by (simp add: upsert_inv_def)
  then show ?case
    using mark upsert_inv_synced [OF mark.prems mark(1)]
    by (intro upsert_inv_answer [OF mark.prems mark(1)]) (simp_all add: mark_synced_def update_conv)
qed

lemma skips_snoc:
  assumes "skips_repeat_last_write es" "\<And>h c. e = Answered h c (Inr Unchanged) \<Longrightarrow> last_write es h = Some c"
  shows "skips_repeat_last_write (es @ [e])"
  unfolding skips_repeat_last_write_def
proof (intro allI impI)
  fix pre h c post
  assume e: "es @ [e] = pre @ Answered h c (Inr Unchanged) # post"
  show "last_write pre h = Some c"
  proof (cases post rule: rev_cases)
    case Nil
    then show ?thesis using e assms(2) by simp
  next
    case (snoc post' e')
    then show ?thesis using e assms(1) unfolding skips_repeat_last_write_def by auto
  qed
qed

lemma skips_step:
  assumes "upsert_step D K U s s'" "upsert_inv K s" "skips_repeat_last_write (us_events s)"
  shows "skips_repeat_last_write (us_events s')"
  using assms
proof (induction rule: upsert_step.induct)
  case (skip s t x)
  have "last_write (us_events s) (ut_host x) = Some (task_hash K x)"
    using upsert_inv_synced [OF skip.prems(1) skip(1)] skip(2,3) by (simp add: already_synced_def)
  then show ?case using skip.prems by (auto simp: answer_def intro!: skips_snoc)
next
  case (attempt_ok s t x n outcome s1)
  then show ?case by (auto simp: goto_def intro!: skips_snoc)
next
  case (attempt_retry s t x n e s1)
  then show ?case using attempt_step_simps [OF attempt_retry(3)] by (simp add: goto_def)
next
  case (attempt_failed s t x n e s1)
  then show ?case using attempt_step_simps [OF attempt_failed(3)] by (auto simp: answer_def intro!: skips_snoc)
next
  case (mark s t x outcome)
  have "outcome \<noteq> Unchanged" using mark by (auto simp: upsert_inv_def)
  then show ?case using mark.prems by (auto simp: answer_def intro!: skips_snoc)
qed (simp_all add: goto_def)

lemma upsert_reachable:
  assumes "(upsert_step D K U)\<^sup>*\<^sup>* (sink_new d) s"
  shows "upsert_inv K s \<and> skips_repeat_last_write (us_events s)"
  using assms
proof (induction rule: rtranclp_induct)
  case base
  show ?case by (simp add: sink_new_def upsert_inv_def skips_repeat_last_write_def)
next
  case (step s s')
  then show ?case using upsert_inv_step skips_step by blast
qed

subsection \<open>A task alone is the sequential upsert\<close>

lemma attempts_solo:
  assumes "us_tasks s t = Some x" "ut_pc x = AtAttempt n"
    and "retry_loop D U (ut_serial x) (ut_host x) (ut_observed x) n (sk_devices (us_sink s)) = (r, d, pauses)"
  shows "\<exists>s'. (upsert_step D K U)\<^sup>*\<^sup>* s s'
    \<and> us_sink s' = (if r = Inr Updated then mark_synced (ut_host x) (task_hash K x) ((us_sink s)\<lparr>sk_devices := d\<rparr>) else (us_sink s)\<lparr>sk_devices := d\<rparr>)
    \<and> us_tasks s' = (us_tasks s)(t := None) \<and> map_of (us_locks s') (ut_host x) = Some None
    \<and> last (us_events s') = Answered (ut_host x) (task_hash K x) r"
  using assms
proof (induction "MAX_TRANSIENT_RETRIES - n" arbitrary: n s x pauses rule: less_induct)
  case less
  obtain r1 d1 where m: "match_and_reconcile D U (ut_serial x) (ut_host x) (ut_observed x) (sk_devices (us_sink s)) = (r1, d1)" by fastforce
  define s1 where "s1 = s\<lparr>us_sink := (us_sink s)\<lparr>sk_devices := d1\<rparr>\<rparr>"
  have a: "attempt_step D U x s = (r1, s1)" by (simp add: attempt_step_def m s1_def)
  consider (done_) outcome where "r1 = Inr outcome" | (retry) e where "r1 = Inl e" "is_transient e" "n < MAX_TRANSIENT_RETRIES"
    | (fail) e where "r1 = Inl e" "\<not> (is_transient e \<and> n < MAX_TRANSIENT_RETRIES)" by (cases r1) auto
  then show ?case
  proof cases
    case done_
    define s2 where "s2 = goto t x (AtMark outcome) (s1\<lparr>us_events := us_events s @ (if outcome = Updated then [Wrote (ut_host x) (task_hash K x)] else [])\<rparr>)"
    have s2: "us_tasks s2 t = Some (x\<lparr>ut_pc := AtMark outcome\<rparr>)" "us_sink s2 = (us_sink s)\<lparr>sk_devices := d1\<rparr>"
      "us_tasks s2 = (us_tasks s)(t \<mapsto> x\<lparr>ut_pc := AtMark outcome\<rparr>)" by (simp_all add: s2_def goto_def s1_def)
    have "upsert_step D K U s s2" unfolding s2_def by (rule upsert_step.attempt_ok [OF less.prems(1,2)]) (simp add: a done_)
    moreover define s3 where "s3 = answer K t (x\<lparr>ut_pc := AtMark outcome\<rparr>) (Inr outcome)
        (if outcome = Updated then s2\<lparr>us_sink := mark_synced (ut_host x) (task_hash K x) (us_sink s2)\<rparr> else s2)"
    moreover have "upsert_step D K U s2 s3" using upsert_step.mark [OF s2(1), of outcome D K U] by (cases "outcome = Updated") (simp_all add: s3_def)
    ultimately have "(upsert_step D K U)\<^sup>*\<^sup>* s s3" by (meson converse_rtranclp_into_rtranclp r_into_rtranclp)
    moreover have "r = Inr outcome" "d = d1" using less.prems(3) m done_ by (auto simp: retry_loop.simps)
    ultimately show ?thesis by (intro exI [of _ s3]) (auto simp: s3_def answer_def s2)
  next
    case retry
    define s2 where "s2 = goto t x (AtAttempt (n + 1)) s1"
    obtain pauses' where l: "retry_loop D U (ut_serial x) (ut_host x) (ut_observed x) (n + 1) d1 = (r, d, pauses')"
      using less.prems(3) m retry by (auto simp: retry_loop.simps [of _ _ _ _ _ n] split: prod.splits)
    have step: "upsert_step D K U s s2" unfolding s2_def by (rule upsert_step.attempt_retry [OF less.prems(1,2) _ retry(2,3)]) (simp add: a retry)
    have "\<exists>s'. (upsert_step D K U)\<^sup>*\<^sup>* s2 s'
        \<and> us_sink s' = (if r = Inr Updated then mark_synced (ut_host x) (task_hash K x) ((us_sink s2)\<lparr>sk_devices := d\<rparr>) else (us_sink s2)\<lparr>sk_devices := d\<rparr>)
        \<and> us_tasks s' = (us_tasks s2)(t := None) \<and> map_of (us_locks s') (ut_host x) = Some None
        \<and> last (us_events s') = Answered (ut_host x) (task_hash K x) r"
    proof -
      have "MAX_TRANSIENT_RETRIES - (n + 1) < MAX_TRANSIENT_RETRIES - n" using retry(3) by simp
      moreover have "us_tasks s2 t = Some (x\<lparr>ut_pc := AtAttempt (n + 1)\<rparr>)" "sk_devices (us_sink s2) = d1" by (simp_all add: s2_def goto_def s1_def)
      ultimately show ?thesis using less.hyps [of "n + 1" s2 "x\<lparr>ut_pc := AtAttempt (n + 1)\<rparr>" pauses'] l by (cases "r = Inr Updated") simp_all
    qed
    then show ?thesis using step by (auto simp: s2_def goto_def s1_def intro: converse_rtranclp_into_rtranclp)
  next
    case fail
    have "upsert_step D K U s (answer K t x (Inl e) s1)" by (rule upsert_step.attempt_failed [OF less.prems(1,2) _ fail(2)]) (simp add: a fail)
    moreover have "r = Inl e" "d = d1" using less.prems(3) m fail by (auto simp: retry_loop.simps)
    ultimately show ?thesis by (intro exI [of _ "answer K t x (Inl e) s1"]) (auto simp: answer_def s1_def)
  qed
qed

lemma upsert_solo:
  assumes "usable_serial observed = Some serial" "us_tasks s t = None" "map_of (us_locks s) host \<in> {None, Some None}"
    and "upsert D K U host observed (us_sink s) = (r, sk', pauses)"
  shows "\<exists>s'. (upsert_step D K U)\<^sup>*\<^sup>* s s' \<and> us_sink s' = sk' \<and> us_tasks s' = us_tasks s \<and> map_of (us_locks s') host = Some None
    \<and> last (us_events s') = Answered host (content_hash K serial host observed) r"
proof -
  define x where "x = \<lparr>ut_host = host, ut_serial = serial, ut_observed = observed, ut_pc = AtLock\<rparr>"
  define s1 where "s1 = s\<lparr>us_tasks := (us_tasks s)(t \<mapsto> x)\<rparr>"
  define locks where "locks = host_lock host (us_locks s)"
  define s2 where "s2 = goto t x AtCheck (s1\<lparr>us_locks := AList.update host (Some t) locks\<rparr>)"
  have hash: "task_hash K x = content_hash K serial host observed" by (simp add: task_hash_def x_def)
  have x: "ut_host x = host" "ut_serial x = serial" "ut_observed x = observed" by (simp_all add: x_def)
  have "upsert_step D K U s s1" unfolding s1_def x_def by (rule upsert_step.spawn_task [OF assms(2,1)])
  moreover have "upsert_step D K U s1 s2"
    unfolding s2_def
    using upsert_step.take_lock [of s1 t x locks D K U] assms(3) by (auto simp: s1_def x_def locks_def host_lock_def)
  ultimately have run2: "(upsert_step D K U)\<^sup>*\<^sup>* s s2" by (meson converse_rtranclp_into_rtranclp r_into_rtranclp)
  have s2: "us_tasks s2 t = Some (x\<lparr>ut_pc := AtCheck\<rparr>)" "us_sink s2 = us_sink s" "(us_tasks s2)(t := None) = us_tasks s"
    using assms(2) by (auto simp: s2_def s1_def goto_def fun_upd_idem)
  show ?thesis
  proof (cases "already_synced host (content_hash K serial host observed) (us_sink s)")
    case True
    define s3 where "s3 = answer K t (x\<lparr>ut_pc := AtCheck\<rparr>) (Inr Unchanged) s2"
    have "upsert_step D K U s2 s3" unfolding s3_def by (rule upsert_step.skip [OF s2(1)]) (use True s2(2) in \<open>simp_all add: task_hash_def x_def\<close>)
    then have "(upsert_step D K U)\<^sup>*\<^sup>* s s3" using run2 by (rule rtranclp.rtrancl_into_rtrancl [rotated])
    moreover have "r = Inr Unchanged" "sk' = us_sink s" using assms(1,4) True by (auto simp: upsert_def Let_def)
    ultimately show ?thesis using s2 by (intro exI [of _ s3]) (simp add: s3_def answer_def task_hash_def x_def)
  next
    case False
    define s3 where "s3 = goto t (x\<lparr>ut_pc := AtCheck\<rparr>) (AtAttempt 0) s2"
    have s3: "us_tasks s3 t = Some (x\<lparr>ut_pc := AtAttempt 0\<rparr>)" "us_sink s3 = us_sink s" "(us_tasks s3)(t := None) = us_tasks s"
      using s2 by (simp_all add: s3_def goto_def)
    have "upsert_step D K U s2 s3" unfolding s3_def by (rule upsert_step.begin_attempts [OF s2(1)]) (use False s2(2) in \<open>simp_all add: task_hash_def x_def\<close>)
    then have run3: "(upsert_step D K U)\<^sup>*\<^sup>* s s3" using run2 by (rule rtranclp.rtrancl_into_rtrancl [rotated])
    obtain r' d ps where l: "retry_loop D U serial host observed 0 (sk_devices (us_sink s)) = (r', d, ps)" by (metis prod_cases3)
    have eq: "r = r'" "sk' = (if r = Inr Updated then mark_synced host (content_hash K serial host observed) ((us_sink s)\<lparr>sk_devices := d\<rparr>)
        else (us_sink s)\<lparr>sk_devices := d\<rparr>)"
      using assms(1,4) False l by (auto simp: upsert_def Let_def split: sum.splits if_splits)
    obtain s4 where "(upsert_step D K U)\<^sup>*\<^sup>* s3 s4" "us_sink s4 = sk'" "us_tasks s4 = us_tasks s" "map_of (us_locks s4) host = Some None"
        "last (us_events s4) = Answered host (content_hash K serial host observed) r"
      using attempts_solo [OF s3(1), of 0 D U r d ps K] l eq s3 hash x by auto
    then show ?thesis using run3 by (intro exI [of _ s4]) (auto intro: rtranclp_trans)
  qed
qed

text \<open>
  C35.  Concurrent snapshots of a host cannot outdate its mark.  However the tasks of the bridge
  interleave, at most one task per host is between its lock and its return, and a snapshot is
  answered as unchanged only when the last snapshot
  written to the end for that host had the same content.  A task that runs with its lock free
  and undisturbed does what the sequential \<open>upsert\<close> does.
\<close>

theorem concurrent_upserts_skip_only_repeats:
  shows "((upsert_step D K U)\<^sup>*\<^sup>* (sink_new d) s \<longrightarrow> skips_repeat_last_write (us_events s)
      \<and> (\<forall>t u x y. us_tasks s t = Some x \<and> us_tasks s u = Some y \<and> ut_host x = ut_host y \<and> ut_pc x \<noteq> AtLock \<and> ut_pc y \<noteq> AtLock
           \<longrightarrow> t = u))
    \<and> (usable_serial observed = Some serial \<and> us_tasks s t = None \<and> map_of (us_locks s) host \<in> {None, Some None}
        \<and> upsert D K U host observed (us_sink s) = (r, sk', pauses)
       \<longrightarrow> (\<exists>s'. (upsert_step D K U)\<^sup>*\<^sup>* s s' \<and> us_sink s' = sk' \<and> us_tasks s' = us_tasks s \<and> map_of (us_locks s') host = Some None
              \<and> last (us_events s') = Answered host (content_hash K serial host observed) r))"
proof (intro conjI impI allI)
  assume reach: "(upsert_step D K U)\<^sup>*\<^sup>* (sink_new d) s"
  show "skips_repeat_last_write (us_events s)" using upsert_reachable [OF reach] by blast
  fix t u x y
  assume "us_tasks s t = Some x \<and> us_tasks s u = Some y \<and> ut_host x = ut_host y \<and> ut_pc x \<noteq> AtLock \<and> ut_pc y \<noteq> AtLock"
  then show "t = u" using upsert_inv_lock upsert_reachable [OF reach] by metis
qed (use upsert_solo in blast)

text \<open>A device seam that answers everything, for a host whose device has no interfaces yet.\<close>

definition willing_seam :: "unit devices" where
  "willing_seam =
     \<lparr>dv_match_by_serial = (\<lambda>_ d. (Inr (MatchOne \<lparr>dr_id = 7, dr_host_id = None\<rparr>), d)), dv_read_interfaces = (\<lambda>_ d. (Inr [], d)),
      dv_create_interface = (\<lambda>_ _ d. (Inr 1, d)), dv_delete_interface = (\<lambda>_ d. (Inr (), d)), dv_create_ip = (\<lambda>_ _ d. (Inr 2, d)),
      dv_move_ip = (\<lambda>_ _ d. (Inr (), d)), dv_delete_ip = (\<lambda>_ d. (Inr (), d)), dv_finalize_device = (\<lambda>_ _ _ _ d. (Inr (), d))\<rparr>"

definition bare_inventory :: inventory_msg where
  "bare_inventory = (sample_inventory ''10.0.0.2'')\<lparr>im_interfaces := []\<rparr>"

lemma bare_serial: "usable_serial bare_inventory = Some ''s1''"
  unfolding bare_inventory_def by code_simp

lemma bare_upserts:
  "upsert willing_seam toy_crypto tally_uuid 0 bare_inventory (us_sink (sink_new ()))
     = (Inr Updated, mark_synced 0 (content_hash toy_crypto ''s1'' 0 bare_inventory) (us_sink (sink_new ())), [])"
  "upsert willing_seam toy_crypto tally_uuid 0 bare_inventory
     (mark_synced 0 (content_hash toy_crypto ''s1'' 0 bare_inventory) (us_sink (sink_new ())))
     = (Inr Unchanged, mark_synced 0 (content_hash toy_crypto ''s1'' 0 bare_inventory) (us_sink (sink_new ())), [])"
proof -
  have "match_and_reconcile willing_seam tally_uuid ''s1'' 0 bare_inventory () = (Inr Updated, ())"
    by (simp add: match_and_reconcile_def willing_seam_def claimed_by_other_def reconcile_def stale_ips_def stale_interfaces_def bare_inventory_def Let_def)
  then have "retry_loop willing_seam tally_uuid ''s1'' 0 bare_inventory 0 () = (Inr Updated, (), [])" by (simp add: retry_loop.simps)
  then show "upsert willing_seam toy_crypto tally_uuid 0 bare_inventory (us_sink (sink_new ()))
     = (Inr Updated, mark_synced 0 (content_hash toy_crypto ''s1'' 0 bare_inventory) (us_sink (sink_new ())), [])"
    by (simp add: upsert_def bare_serial sink_new_def already_synced_def Let_def)
  show "upsert willing_seam toy_crypto tally_uuid 0 bare_inventory
     (mark_synced 0 (content_hash toy_crypto ''s1'' 0 bare_inventory) (us_sink (sink_new ())))
     = (Inr Unchanged, mark_synced 0 (content_hash toy_crypto ''s1'' 0 bare_inventory) (us_sink (sink_new ())), [])"
    by (simp add: upsert_def bare_serial already_synced_def mark_synced_def Let_def)
qed

theorem concurrent_upserts_skip_only_repeats_witness:
  "\<exists>s1 s2. (upsert_step willing_seam toy_crypto tally_uuid)\<^sup>*\<^sup>* (sink_new ()) s1
     \<and> (upsert_step willing_seam toy_crypto tally_uuid)\<^sup>*\<^sup>* s1 s2
     \<and> last (us_events s1) = Answered 0 (content_hash toy_crypto ''s1'' 0 bare_inventory) (Inr Updated)
     \<and> last (us_events s2) = Answered 0 (content_hash toy_crypto ''s1'' 0 bare_inventory) (Inr Unchanged)
     \<and> skips_repeat_last_write (us_events s2)"
proof -
  let ?run = "(upsert_step willing_seam toy_crypto tally_uuid)\<^sup>*\<^sup>*"
  let ?h = "content_hash toy_crypto ''s1'' 0 bare_inventory"
  let ?marked = "mark_synced 0 ?h (us_sink (sink_new ()))"
  note tasks = concurrent_upserts_skip_only_repeats [where D = willing_seam and K = toy_crypto and U = tally_uuid and d = "()"
      and observed = bare_inventory and serial = "''s1''" and host = "0" and t = "0"]
  have new: "us_tasks (sink_new ()) 0 = None" "map_of (us_locks (sink_new ())) 0 = None" by (simp_all add: sink_new_def)
  obtain s1 where s1: "?run (sink_new ()) s1" "us_sink s1 = ?marked" "us_tasks s1 = us_tasks (sink_new ())"
      "map_of (us_locks s1) 0 = Some None" "last (us_events s1) = Answered 0 ?h (Inr Updated)"
    using conjunct2 [OF tasks [where s = "sink_new ()" and r = "Inr Updated" and sk' = "?marked" and pauses = "[]"]] bare_serial bare_upserts(1) new
    by auto
  obtain s2 where s2: "?run s1 s2" "last (us_events s2) = Answered 0 ?h (Inr Unchanged)"
    using conjunct2 [OF tasks [where s = s1 and r = "Inr Unchanged" and sk' = "?marked" and pauses = "[]"]] bare_serial bare_upserts(2) new s1
    by auto
  have "?run (sink_new ()) s2" using s1(1) s2(1) by (rule rtranclp_trans)
  then have "skips_repeat_last_write (us_events s2)" using conjunct1 [OF tasks [where s = s2]] by blast
  then show ?thesis using s1 s2 by blast
qed

text \<open>
  The mark is replaced after a reconcile that succeeds and left alone after one that fails.  So a
  snapshot that was written, then followed by another whose reconcile failed after some of its
  writes, is answered as unchanged when the host sends it again: the device keeps what the failed
  reconcile left until the content of the snapshot changes.
\<close>

lemma failed_upsert_leaves_stale_mark:
  assumes first: "upsert D K U host a sk = (Inr Updated, sk1, p1)"
    and failed: "upsert D K U host b sk1 = (Inl e, sk2, p2)"
  shows "upsert D K U host a sk2 = (Inr Unchanged, sk2, [])"
proof -
  obtain serial where serial: "usable_serial a = Some serial" using first by (auto simp: upsert_def split: option.splits)
  obtain d where "sk1 = mark_synced host (content_hash K serial host a) d"
    using first serial by (auto simp: upsert_def Let_def split: if_splits prod.splits sum.splits)
  moreover have "sk_synced sk2 = sk_synced sk1"
    using failed by (auto simp: upsert_def Let_def split: if_splits prod.splits sum.splits option.splits)
  ultimately have "already_synced host (content_hash K serial host a) sk2" by (simp add: already_synced_def mark_synced_def)
  then show ?thesis using serial by (simp add: upsert_def Let_def)
qed

end
