(* ===== verification/Enroll.thy ===== *)
theory Enroll
  imports Service
begin

text \<open>
  \<^verbatim>\<open>osa-agent/src/enroll.rs\<close>: how a host obtains, stores and renews its identity.  The state directory
  has a visible and a durable content; a file carries whether it was created owner-only.  The
  outcome of every system call and RPC of a run is a parameter, so a run that is killed is the run
  whose next call fails.  Reading a file gives the text it holds.
\<close>

subsection \<open>Model\<close>

definition RENEW_BEFORE :: int where "RENEW_BEFORE = 8 * 3600"

definition KEY_FILE :: string where "KEY_FILE = ''host.key''"
definition CERT_FILE :: string where "CERT_FILE = ''host.crt''"
definition CA_FILE :: string where "CA_FILE = ''ca.crt''"
definition HOST_ID_FILE :: string where "HOST_ID_FILE = ''host_id''"

record identity =
  idn_host_id :: string
  idn_key_pem :: string
  idn_cert_pem :: string
  idn_ca_root_pem :: string

record id_file =
  idf_content :: string
  idf_owner_only :: bool

record id_fs =
  id_visible :: "string \<rightharpoonup> id_file"
  id_durable :: "string \<rightharpoonup> id_file"

datatype enroll_error = EmptyToken | AlreadyEnrolled | EnrollFailed string

definition ensure_not_enrolled :: "bool \<Rightarrow> id_fs \<Rightarrow> enroll_error + unit" where
  "ensure_not_enrolled force fs = (if id_visible fs KEY_FILE \<noteq> None \<and> \<not> force then Inl AlreadyEnrolled else Inr ())"

text \<open>The results of opening, of writing and syncing, and of renaming one file.\<close>

record wa_io =
  wa_open :: bool
  wa_write :: bool
  wa_rename :: bool

text \<open>Opening an existing temporary file truncates it and keeps its mode.\<close>

definition write_atomic :: "wa_io \<Rightarrow> string \<Rightarrow> string \<Rightarrow> bool \<Rightarrow> id_fs \<Rightarrow> bool \<times> id_fs" where
  "write_atomic io name content owner_only fs =
     (let tmp = name @ ''.tmp'';
          mode = (case id_visible fs tmp of None \<Rightarrow> owner_only | Some f \<Rightarrow> idf_owner_only f)
      in if \<not> wa_open io then (False, fs)
         else if \<not> wa_write io
         then (False, fs\<lparr>id_visible := (id_visible fs)(tmp \<mapsto> \<lparr>idf_content = [], idf_owner_only = mode\<rparr>)\<rparr>)
         else if \<not> wa_rename io
         then (False, fs\<lparr>id_visible := (id_visible fs)(tmp \<mapsto> \<lparr>idf_content = content, idf_owner_only = mode\<rparr>)\<rparr>)
         else (True, fs\<lparr>id_visible := (id_visible fs)(tmp := None, name \<mapsto> \<lparr>idf_content = content, idf_owner_only = mode\<rparr>)\<rparr>))"

record persist_io =
  pe_dir :: bool
  pe_cert :: wa_io
  pe_ca :: wa_io
  pe_host_id :: wa_io
  pe_key :: wa_io

definition persist :: "persist_io \<Rightarrow> identity \<Rightarrow> bool \<Rightarrow> id_fs \<Rightarrow> (enroll_error + unit) \<times> id_fs" where
  "persist io idn force fs =
     (case ensure_not_enrolled force fs of
        Inl e \<Rightarrow> (Inl e, fs)
      | Inr _ \<Rightarrow>
          if \<not> pe_dir io then (Inl (EnrollFailed ''creating state dir''), fs)
          else case write_atomic (pe_cert io) CERT_FILE (idn_cert_pem idn) False fs of
            (False, fs1) \<Rightarrow> (Inl (EnrollFailed ''writing cert''), fs1)
          | (True, fs1) \<Rightarrow>
              (case write_atomic (pe_ca io) CA_FILE (idn_ca_root_pem idn) False fs1 of
                 (False, fs2) \<Rightarrow> (Inl (EnrollFailed ''writing CA root''), fs2)
               | (True, fs2) \<Rightarrow>
                   (case write_atomic (pe_host_id io) HOST_ID_FILE (idn_host_id idn) False fs2 of
                      (False, fs3) \<Rightarrow> (Inl (EnrollFailed ''writing host_id''), fs3)
                    | (True, fs3) \<Rightarrow>
                        (case write_atomic (pe_key io) KEY_FILE (idn_key_pem idn) True fs3 of
                           (False, fs4) \<Rightarrow> (Inl (EnrollFailed ''writing private key''), fs4)
                         | (True, fs4) \<Rightarrow> (Inr (), fs4)))))"

text \<open>The key pair generated, what the coordinator answers to the request, and the file operations.\<close>

record enroll_io =
  en_keypair :: "string option"
  en_connect :: bool
  en_reply :: "string \<Rightarrow> bytes \<Rightarrow> enroll_response option"
  en_persist :: persist_io

text \<open>\<open>csr_for\<close> is \<^verbatim>\<open>rcgen\<close>'s request for a key pair.  The second result is the request sent.\<close>

definition enroll_run ::
  "pki \<Rightarrow> (string \<Rightarrow> bytes option) \<Rightarrow> enroll_io \<Rightarrow> string \<Rightarrow> bool \<Rightarrow> id_fs
     \<Rightarrow> (enroll_error + string) \<times> (string \<times> bytes) option \<times> id_fs" where
  "enroll_run K csr_for io token force fs =
     (if trim token = [] then (Inl EmptyToken, None, fs)
      else case ensure_not_enrolled force fs of
        Inl e \<Rightarrow> (Inl e, None, fs)
      | Inr _ \<Rightarrow>
          (case en_keypair io of
             None \<Rightarrow> (Inl (EnrollFailed ''generating keypair''), None, fs)
           | Some key \<Rightarrow>
               (case csr_for key of
                  None \<Rightarrow> (Inl (EnrollFailed ''building CSR''), None, fs)
                | Some csr \<Rightarrow>
                    if \<not> en_connect io then (Inl (EnrollFailed ''connecting to coordinator''), None, fs)
                    else case en_reply io token csr of
                      None \<Rightarrow> (Inl (EnrollFailed ''enroll request failed''), Some (token, csr), fs)
                    | Some resp \<Rightarrow>
                        let idn = \<lparr>idn_host_id = er_host_id resp, idn_key_pem = key,
                                   idn_cert_pem = pem_of K (er_cert resp), idn_ca_root_pem = pem_of K (er_ca_root resp)\<rparr>
                        in case persist (en_persist io) idn force fs of
                          (Inl e, fs') \<Rightarrow> (Inl e, Some (token, csr), fs')
                        | (Inr _, fs') \<Rightarrow> (Inr (idn_host_id idn), Some (token, csr), fs'))))"

definition read_file :: "bool \<Rightarrow> string \<Rightarrow> id_fs \<Rightarrow> string option" where
  "read_file ok name fs = (if ok then map_option idf_content (id_visible fs name) else None)"

definition verify_chains_to_pinned_ca :: "pki \<Rightarrow> bool \<Rightarrow> bytes \<Rightarrow> id_fs \<Rightarrow> bool" where
  "verify_chains_to_pinned_ca K read_ok cert_der fs =
     (case read_file read_ok CA_FILE fs of
        None \<Rightarrow> False
      | Some ca_pem \<Rightarrow>
          (case pem_contents K ca_pem of
             Inl _ \<Rightarrow> False
           | Inr ca_der \<Rightarrow>
               (case (x509_from_der K ca_der, x509_from_der K cert_der) of
                  (Inr ca, Inr leaf) \<Rightarrow> verify_signature K leaf (x_public_key ca)
                | _ \<Rightarrow> False)))"

record renew_io =
  rn_read_key :: bool
  rn_read_cert :: bool
  rn_read_ca :: bool
  rn_connect :: bool
  rn_reply :: "bytes \<Rightarrow> bytes \<Rightarrow> bytes option"
  rn_write :: wa_io

text \<open>The request carries the current certificate and a new CSR.\<close>

definition renew_run ::
  "pki \<Rightarrow> (string \<Rightarrow> bytes option) \<Rightarrow> renew_io \<Rightarrow> id_fs \<Rightarrow> (enroll_error + unit) \<times> (bytes \<times> bytes) option \<times> id_fs" where
  "renew_run K csr_for io fs =
     (case (read_file (rn_read_key io) KEY_FILE fs, read_file (rn_read_cert io) CERT_FILE fs) of
        (None, _) \<Rightarrow> (Inl (EnrollFailed ''reading host.key (is the host enrolled?)''), None, fs)
      | (Some _, None) \<Rightarrow> (Inl (EnrollFailed ''reading host.crt''), None, fs)
      | (Some key_pem, Some cert_pem) \<Rightarrow>
          (case pem_contents K cert_pem of
             Inl _ \<Rightarrow> (Inl (EnrollFailed ''parsing current cert''), None, fs)
           | Inr current_cert \<Rightarrow>
               (case key_from_pem K key_pem of
                  Inl _ \<Rightarrow> (Inl (EnrollFailed ''loading private key''), None, fs)
                | Inr _ \<Rightarrow>
                    (case csr_for key_pem of
                       None \<Rightarrow> (Inl (EnrollFailed ''building CSR''), None, fs)
                     | Some csr \<Rightarrow>
                         if \<not> rn_connect io then (Inl (EnrollFailed ''connecting to coordinator''), None, fs)
                         else case rn_reply io current_cert csr of
                           None \<Rightarrow> (Inl (EnrollFailed ''renew request failed''), Some (current_cert, csr), fs)
                         | Some cert \<Rightarrow>
                             if \<not> verify_chains_to_pinned_ca K (rn_read_ca io) cert fs
                             then (Inl (EnrollFailed ''validating renewed cert''), Some (current_cert, csr), fs)
                             else case write_atomic (rn_write io) CERT_FILE (pem_of K cert) False fs of
                               (False, fs') \<Rightarrow> (Inl (EnrollFailed ''writing renewed cert''), Some (current_cert, csr), fs')
                             | (True, fs') \<Rightarrow> (Inr (), Some (current_cert, csr), fs')))))"

text \<open>\<open>not_after\<close> is the expiry of a parsed certificate, in seconds.\<close>

definition cert_expiry_unix :: "pki \<Rightarrow> (x509 \<Rightarrow> int) \<Rightarrow> bool \<Rightarrow> id_fs \<Rightarrow> int option" where
  "cert_expiry_unix K not_after read_ok fs =
     (case read_file read_ok CERT_FILE fs of
        None \<Rightarrow> None
      | Some cert_pem \<Rightarrow>
          (case pem_contents K cert_pem of
             Inl _ \<Rightarrow> None
           | Inr der \<Rightarrow> (case x509_from_der K der of Inl _ \<Rightarrow> None | Inr cert \<Rightarrow> Some (not_after cert))))"

text \<open>One round of the renewal loop at the instant \<open>now\<close>.\<close>

definition renewal_round ::
  "pki \<Rightarrow> (string \<Rightarrow> bytes option) \<Rightarrow> (x509 \<Rightarrow> int) \<Rightarrow> bool \<Rightarrow> int \<Rightarrow> renew_io \<Rightarrow> id_fs \<Rightarrow> id_fs" where
  "renewal_round K csr_for not_after read_ok now io fs =
     (case cert_expiry_unix K not_after read_ok fs of
        None \<Rightarrow> fs
      | Some expiry \<Rightarrow>
          if now \<ge> expiry then fs
          else if expiry - now \<le> RENEW_BEFORE then snd (snd (renew_run K csr_for io fs))
          else fs)"

text \<open>A power loss: a name keeps its visible or its last durable content.  Nothing here syncs the directory.\<close>

definition id_crash :: "(string \<Rightarrow> bool) \<Rightarrow> id_fs \<Rightarrow> id_fs" where
  "id_crash kept fs =
     (let m = (\<lambda>name. if kept name then id_visible fs name else id_durable fs name) in \<lparr>id_visible = m, id_durable = m\<rparr>)"

subsection \<open>Runs\<close>

text \<open>Enrollments without \<open>--force\<close> and renewals, in any order.\<close>

datatype id_event = EnrollEvent enroll_io string | RenewEvent renew_io

fun id_run :: "pki \<Rightarrow> (string \<Rightarrow> bytes option) \<Rightarrow> id_event list \<Rightarrow> id_fs \<Rightarrow> id_fs" where
  "id_run K csr_for [] fs = fs"
| "id_run K csr_for (EnrollEvent io token # evs) fs = id_run K csr_for evs (snd (snd (enroll_run K csr_for io token False fs)))"
| "id_run K csr_for (RenewEvent io # evs) fs = id_run K csr_for evs (snd (snd (renew_run K csr_for io fs)))"

definition identity_for :: "pki \<Rightarrow> string \<Rightarrow> enroll_response \<Rightarrow> identity" where
  "identity_for K key resp =
     \<lparr>idn_host_id = er_host_id resp, idn_key_pem = key, idn_cert_pem = pem_of K (er_cert resp), idn_ca_root_pem = pem_of K (er_ca_root resp)\<rparr>"

text \<open>An identity that one of the enrollments obtained.\<close>

definition obtained :: "pki \<Rightarrow> (string \<Rightarrow> bytes option) \<Rightarrow> id_event list \<Rightarrow> identity \<Rightarrow> bool" where
  "obtained K csr_for evs idn \<longleftrightarrow>
     (\<exists>io token key csr resp. EnrollEvent io token \<in> set evs \<and> en_keypair io = Some key \<and> csr_for key = Some csr
        \<and> en_reply io token csr = Some resp \<and> idn = identity_for K key resp)"

definition chains :: "pki \<Rightarrow> string \<Rightarrow> bytes \<Rightarrow> bool" where
  "chains K ca_pem cert_der \<longleftrightarrow>
     (\<exists>ca_der ca leaf. pem_contents K ca_pem = Inr ca_der \<and> x509_from_der K ca_der = Inr ca
        \<and> x509_from_der K cert_der = Inr leaf \<and> verify_signature K leaf (x_public_key ca))"

text \<open>The files hold one identity; its certificate may have been renewed under the pinned CA.\<close>

definition whole :: "pki \<Rightarrow> identity \<Rightarrow> id_fs \<Rightarrow> bool" where
  "whole K idn fs \<longleftrightarrow>
     map_option idf_content (id_visible fs KEY_FILE) = Some (idn_key_pem idn)
     \<and> map_option idf_content (id_visible fs HOST_ID_FILE) = Some (idn_host_id idn)
     \<and> map_option idf_content (id_visible fs CA_FILE) = Some (idn_ca_root_pem idn)
     \<and> (\<exists>der. map_option idf_content (id_visible fs CERT_FILE) = Some (pem_of K der)
            \<and> (pem_of K der = idn_cert_pem idn \<or> chains K (idn_ca_root_pem idn) der))"

definition owner_only_at :: "string \<Rightarrow> id_fs \<Rightarrow> bool" where
  "owner_only_at name fs \<longleftrightarrow> (\<forall>f. id_visible fs name = Some f \<longrightarrow> idf_owner_only f)"

lemma id_names [simp]:
  "KEY_FILE \<noteq> CERT_FILE" "KEY_FILE \<noteq> CA_FILE" "KEY_FILE \<noteq> HOST_ID_FILE" "CERT_FILE \<noteq> CA_FILE" "CERT_FILE \<noteq> HOST_ID_FILE"
  "CA_FILE \<noteq> HOST_ID_FILE" "CERT_FILE \<noteq> KEY_FILE" "CA_FILE \<noteq> KEY_FILE" "HOST_ID_FILE \<noteq> KEY_FILE" "CA_FILE \<noteq> CERT_FILE"
  "HOST_ID_FILE \<noteq> CERT_FILE" "HOST_ID_FILE \<noteq> CA_FILE"
  by (simp_all add: KEY_FILE_def CERT_FILE_def CA_FILE_def HOST_ID_FILE_def)

lemma tmp_names [simp]:
  "\<lbrakk>n \<in> {KEY_FILE, CERT_FILE, CA_FILE, HOST_ID_FILE}; m \<in> {KEY_FILE, CERT_FILE, CA_FILE, HOST_ID_FILE}\<rbrakk> \<Longrightarrow> n \<noteq> m @ ''.tmp''"
  "\<lbrakk>n \<in> {KEY_FILE, CERT_FILE, CA_FILE, HOST_ID_FILE}; m \<in> {KEY_FILE, CERT_FILE, CA_FILE, HOST_ID_FILE}\<rbrakk> \<Longrightarrow> m @ ''.tmp'' \<noteq> n"
  "(n @ ''.tmp'' = m @ ''.tmp'') = (n = m)"
  by (auto simp: KEY_FILE_def CERT_FILE_def CA_FILE_def HOST_ID_FILE_def)

lemma write_atomic_visible:
  assumes "write_atomic io name content owner_only fs = (ok, fs')" "name \<in> {KEY_FILE, CERT_FILE, CA_FILE, HOST_ID_FILE}"
  shows "n \<noteq> name \<Longrightarrow> n \<noteq> name @ ''.tmp'' \<Longrightarrow> id_visible fs' n = id_visible fs n"
    and "\<not> ok \<Longrightarrow> id_visible fs' name = id_visible fs name"
    and "ok \<Longrightarrow> map_option idf_content (id_visible fs' name) = Some content"
    and "owner_only \<Longrightarrow> owner_only_at (name @ ''.tmp'') fs \<Longrightarrow> owner_only_at (name @ ''.tmp'') fs'"
    and "owner_only \<Longrightarrow> owner_only_at (name @ ''.tmp'') fs \<Longrightarrow> owner_only_at name fs \<Longrightarrow> owner_only_at name fs'"
  using assms tmp_names(1) [of name name]
  by (auto simp: write_atomic_def Let_def owner_only_at_def split: if_splits option.splits)

text \<open>What one persist does to the state directory: it is refused, or it stops before the key, or
  the whole identity is there.\<close>

definition stored :: "identity \<Rightarrow> id_fs \<Rightarrow> bool" where
  "stored idn fs \<longleftrightarrow>
     map_option idf_content (id_visible fs KEY_FILE) = Some (idn_key_pem idn)
     \<and> map_option idf_content (id_visible fs HOST_ID_FILE) = Some (idn_host_id idn)
     \<and> map_option idf_content (id_visible fs CA_FILE) = Some (idn_ca_root_pem idn)
     \<and> map_option idf_content (id_visible fs CERT_FILE) = Some (idn_cert_pem idn)"

lemma persist_effect:
  assumes "persist io idn False fs = (r, fs')" "owner_only_at (KEY_FILE @ ''.tmp'') fs"
  shows "fs' = fs \<or> id_visible fs KEY_FILE = None \<and> owner_only_at (KEY_FILE @ ''.tmp'') fs'
    \<and> (id_visible fs' KEY_FILE = None \<or> owner_only_at KEY_FILE fs' \<and> stored idn fs')"
proof (cases "id_visible fs KEY_FILE = None \<and> pe_dir io")
  case False
  then show ?thesis using assms(1) by (auto simp: persist_def ensure_not_enrolled_def split: sum.splits if_splits)
next
  case True
  obtain ok1 fs1 where w1: "write_atomic (pe_cert io) CERT_FILE (idn_cert_pem idn) False fs = (ok1, fs1)" by fastforce
  obtain ok2 fs2 where w2: "write_atomic (pe_ca io) CA_FILE (idn_ca_root_pem idn) False fs1 = (ok2, fs2)" by fastforce
  obtain ok3 fs3 where w3: "write_atomic (pe_host_id io) HOST_ID_FILE (idn_host_id idn) False fs2 = (ok3, fs3)" by fastforce
  obtain ok4 fs4 where w4: "write_atomic (pe_key io) KEY_FILE (idn_key_pem idn) True fs3 = (ok4, fs4)" by fastforce
  have fs': "fs' = (if \<not> ok1 then fs1 else if \<not> ok2 then fs2 else if \<not> ok3 then fs3 else fs4)"
    using assms(1) True w1 w2 w3 w4
    by (cases ok1; cases ok2; cases ok3; cases ok4) (auto simp: persist_def ensure_not_enrolled_def)
  have names: "CERT_FILE \<in> {KEY_FILE, CERT_FILE, CA_FILE, HOST_ID_FILE}" "CA_FILE \<in> {KEY_FILE, CERT_FILE, CA_FILE, HOST_ID_FILE}"
      "HOST_ID_FILE \<in> {KEY_FILE, CERT_FILE, CA_FILE, HOST_ID_FILE}" "KEY_FILE \<in> {KEY_FILE, CERT_FILE, CA_FILE, HOST_ID_FILE}" by simp_all
  note v1 = write_atomic_visible [OF w1 names(1)] and v2 = write_atomic_visible [OF w2 names(2)]
    and v3 = write_atomic_visible [OF w3 names(3)] and v4 = write_atomic_visible [OF w4 names(4)]
  have key: "id_visible fs1 KEY_FILE = None" "id_visible fs2 KEY_FILE = None" "id_visible fs3 KEY_FILE = None"
    using True v1(1) v2(1) v3(1) by simp_all
  have tmp: "owner_only_at (KEY_FILE @ ''.tmp'') fs1" "owner_only_at (KEY_FILE @ ''.tmp'') fs2" "owner_only_at (KEY_FILE @ ''.tmp'') fs3"
    using assms(2) v1(1) v2(1) v3(1) by (simp_all add: owner_only_at_def)
  have "owner_only_at (KEY_FILE @ ''.tmp'') fs4" "owner_only_at KEY_FILE fs4" "\<not> ok4 \<Longrightarrow> id_visible fs4 KEY_FILE = None"
    using v4(2) v4(4) [OF TrueI tmp(3)] v4(5) [OF TrueI tmp(3)] key(3) by (simp_all add: owner_only_at_def)
  moreover have "stored idn fs4" if "ok1" "ok2" "ok3" "ok4"
    using v1(3) [OF that(1)] v2(1) v2(3) [OF that(2)] v3(1) v3(3) [OF that(3)] v4(1) v4(3) [OF that(4)]
    by (simp add: stored_def)
  ultimately show ?thesis using fs' True key tmp by (cases ok4) auto
qed

lemma enroll_run_effect:
  assumes "owner_only_at (KEY_FILE @ ''.tmp'') fs" and res: "fs' = snd (snd (enroll_run K csr_for io token False fs))"
  shows "fs' = fs \<or> id_visible fs KEY_FILE = None \<and> owner_only_at (KEY_FILE @ ''.tmp'') fs'
    \<and> (id_visible fs' KEY_FILE = None
        \<or> owner_only_at KEY_FILE fs' \<and> (\<exists>idn. obtained K csr_for [EnrollEvent io token] idn \<and> stored idn fs'))"
proof (cases "\<exists>key csr resp. trim token \<noteq> [] \<and> ensure_not_enrolled False fs = Inr () \<and> en_keypair io = Some key \<and> csr_for key = Some csr
    \<and> en_connect io \<and> en_reply io token csr = Some resp")
  case False
  then have "fs' = fs"
    unfolding res by (auto simp: enroll_run_def Let_def split: option.splits sum.splits prod.splits)
  then show ?thesis by simp
next
  case True
  then obtain key csr resp where t: "trim token \<noteq> []" "ensure_not_enrolled False fs = Inr ()" "en_keypair io = Some key" "csr_for key = Some csr"
      "en_connect io" "en_reply io token csr = Some resp" by blast
  obtain r fs1 where p: "persist (en_persist io) (identity_for K key resp) False fs = (r, fs1)" by fastforce
  have "fs' = fs1"
    using t p unfolding res by (auto simp: enroll_run_def Let_def identity_for_def split: sum.splits)
  moreover have "obtained K csr_for [EnrollEvent io token] (identity_for K key resp)" using t unfolding obtained_def by auto
  ultimately show ?thesis using persist_effect [OF p assms(1)] by auto
qed

lemma renew_run_effect:
  assumes res: "fs' = snd (snd (renew_run K csr_for io fs))"
  shows "(\<forall>n. n \<noteq> CERT_FILE \<longrightarrow> n \<noteq> CERT_FILE @ ''.tmp'' \<longrightarrow> id_visible fs' n = id_visible fs n)
    \<and> (id_visible fs' CERT_FILE = id_visible fs CERT_FILE
       \<or> (\<exists>ca der. map_option idf_content (id_visible fs CA_FILE) = Some ca \<and> chains K ca der
             \<and> map_option idf_content (id_visible fs' CERT_FILE) = Some (pem_of K der)))"
proof (cases "\<exists>ok der. verify_chains_to_pinned_ca K (rn_read_ca io) der fs
    \<and> write_atomic (rn_write io) CERT_FILE (pem_of K der) False fs = (ok, fs')")
  case False
  then have "fs' = fs"
    unfolding res by (auto simp: renew_run_def split: option.splits sum.splits if_splits prod.splits bool.splits)
  then show ?thesis by simp
next
  case True
  then obtain ok der where c: "verify_chains_to_pinned_ca K (rn_read_ca io) der fs"
      "write_atomic (rn_write io) CERT_FILE (pem_of K der) False fs = (ok, fs')" by blast
  have "\<exists>ca. map_option idf_content (id_visible fs CA_FILE) = Some ca \<and> chains K ca der"
    using c(1) by (auto simp: verify_chains_to_pinned_ca_def chains_def read_file_def split: option.splits sum.splits if_splits)
  then show ?thesis using write_atomic_visible(1-3) [OF c(2)] by (cases ok) auto
qed

text \<open>The invariant of the state directory.\<close>

definition id_inv :: "pki \<Rightarrow> (string \<Rightarrow> bytes option) \<Rightarrow> id_event list \<Rightarrow> id_fs \<Rightarrow> bool" where
  "id_inv K csr_for evs fs \<longleftrightarrow>
     owner_only_at (KEY_FILE @ ''.tmp'') fs \<and> owner_only_at KEY_FILE fs
     \<and> (id_visible fs KEY_FILE \<noteq> None \<longrightarrow> (\<exists>idn. obtained K csr_for evs idn \<and> whole K idn fs))"

lemma obtained_mono: "obtained K csr_for evs idn \<Longrightarrow> set evs \<subseteq> set evs' \<Longrightarrow> obtained K csr_for evs' idn"
  unfolding obtained_def by blast

lemma stored_whole: "obtained K csr_for evs idn \<Longrightarrow> stored idn fs \<Longrightarrow> whole K idn fs"
  by (auto simp: obtained_def stored_def whole_def identity_for_def)

lemma id_inv_enroll:
  assumes "id_inv K csr_for evs fs" "set evs \<subseteq> set all" "EnrollEvent io token \<in> set all"
  shows "id_inv K csr_for all (snd (snd (enroll_run K csr_for io token False fs)))"
proof -
  define fs' where "fs' = snd (snd (enroll_run K csr_for io token False fs))"
  have inv: "id_inv K csr_for all fs" using assms(1,2) obtained_mono unfolding id_inv_def by blast
  then have "owner_only_at (KEY_FILE @ ''.tmp'') fs" by (simp add: id_inv_def)
  from enroll_run_effect [OF this fs'_def]
  consider "fs' = fs" | "owner_only_at (KEY_FILE @ ''.tmp'') fs'" "id_visible fs' KEY_FILE = None"
    | idn where "owner_only_at (KEY_FILE @ ''.tmp'') fs'" "owner_only_at KEY_FILE fs'"
        "obtained K csr_for [EnrollEvent io token] idn" "stored idn fs'" by auto
  then have "id_inv K csr_for all fs'"
  proof cases
    case (3 idn)
    have "obtained K csr_for all idn" by (rule obtained_mono [OF 3(3)]) (use assms(3) in simp)
    then show ?thesis using 3 stored_whole unfolding id_inv_def by blast
  qed (use inv in \<open>simp_all add: id_inv_def owner_only_at_def\<close>)
  then show ?thesis by (simp add: fs'_def)
qed

lemma renew_run_same:
  "id_visible (snd (snd (renew_run K csr_for io fs))) KEY_FILE = id_visible fs KEY_FILE"
  "id_visible (snd (snd (renew_run K csr_for io fs))) (KEY_FILE @ ''.tmp'') = id_visible fs (KEY_FILE @ ''.tmp'')"
  "id_visible (snd (snd (renew_run K csr_for io fs))) CA_FILE = id_visible fs CA_FILE"
  "id_visible (snd (snd (renew_run K csr_for io fs))) HOST_ID_FILE = id_visible fs HOST_ID_FILE"
  using renew_run_effect [OF refl, of K csr_for io fs] by simp_all

lemma renew_run_whole:
  assumes "whole K idn fs"
  shows "whole K idn (snd (snd (renew_run K csr_for io fs)))" (is "whole _ _ ?fs'")
proof -
  let ?cert = "\<lambda>fs. map_option idf_content (id_visible fs CERT_FILE)"
  have ca: "map_option idf_content (id_visible fs CA_FILE) = Some (idn_ca_root_pem idn)" using assms by (simp add: whole_def)
  have "\<exists>der. ?cert ?fs' = Some (pem_of K der) \<and> (pem_of K der = idn_cert_pem idn \<or> chains K (idn_ca_root_pem idn) der)"
    using renew_run_effect [OF refl, of K csr_for io fs, THEN conjunct2]
  proof
    assume "id_visible ?fs' CERT_FILE = id_visible fs CERT_FILE"
    then show ?thesis using assms by (simp add: whole_def)
  next
    assume "\<exists>ca der. map_option idf_content (id_visible fs CA_FILE) = Some ca \<and> chains K ca der \<and> ?cert ?fs' = Some (pem_of K der)"
    then show ?thesis using ca by auto
  qed
  then show ?thesis using assms renew_run_same by (simp add: whole_def)
qed

lemma renewal_round_whole: "whole K idn fs \<Longrightarrow> whole K idn (renewal_round K csr_for not_after read_ok now io fs)"
  by (simp add: renewal_round_def renew_run_whole split: option.split)

lemma id_inv_renew:
  assumes "id_inv K csr_for evs fs" "set evs \<subseteq> set all"
  shows "id_inv K csr_for all (snd (snd (renew_run K csr_for io fs)))" (is "id_inv _ _ _ ?fs'")
proof -
  have "(\<exists>idn. obtained K csr_for all idn \<and> whole K idn fs) \<longrightarrow> (\<exists>idn. obtained K csr_for all idn \<and> whole K idn ?fs')"
    using renew_run_whole by blast
  moreover have "id_inv K csr_for all fs" using assms obtained_mono unfolding id_inv_def by blast
  ultimately show ?thesis using renew_run_same by (simp add: id_inv_def owner_only_at_def)
qed

lemma id_inv_run: "id_inv K csr_for pre fs \<Longrightarrow> id_inv K csr_for (pre @ evs) (id_run K csr_for evs fs)"
proof (induction K csr_for evs fs arbitrary: pre rule: id_run.induct)
  case (2 K csr_for io token evs fs)
  have "id_inv K csr_for (pre @ [EnrollEvent io token]) (snd (snd (enroll_run K csr_for io token False fs)))"
    by (rule id_inv_enroll [OF "2.prems"]) auto
  from "2.IH" [OF this] show ?case by simp
next
  case (3 K csr_for io evs fs)
  have "id_inv K csr_for (pre @ [RenewEvent io]) (snd (snd (renew_run K csr_for io fs)))"
    by (rule id_inv_renew [OF "3.prems"]) auto
  from "3.IH" [OF this] show ?case by simp
qed simp


definition all_ok :: wa_io where
  "all_ok = \<lparr>wa_open = True, wa_write = True, wa_rename = True\<rparr>"

definition sample_persist_io :: persist_io where
  "sample_persist_io = \<lparr>pe_dir = True, pe_cert = all_ok, pe_ca = all_ok, pe_host_id = all_ok, pe_key = all_ok\<rparr>"

definition sample_enroll_io :: enroll_io where
  "sample_enroll_io =
     \<lparr>en_keypair = Some ''k'', en_connect = True,
      en_reply = (\<lambda>_ _. Some \<lparr>er_host_id = ''h'', er_cert = [1], er_ca_root = [2]\<rparr>), en_persist = sample_persist_io\<rparr>"

lemma persist_all_ok:
  assumes "ensure_not_enrolled force fs = Inr ()"
  shows "fst (persist sample_persist_io idn force fs) = Inr () \<and> stored idn (snd (persist sample_persist_io idn force fs))"
  using assms
  by (simp add: persist_def sample_persist_io_def all_ok_def write_atomic_def Let_def stored_def split: sum.split)


text \<open>
  Two ways in which the key does not stand for the whole identity, outside the claim above.  A forced
  re-enrollment that stops after the certificate leaves the old key beside the new certificate.  And
  since no write syncs the directory, a power loss after a successful enrollment may keep the key and
  lose the certificate.
\<close>

lemma forced_enroll_can_mix_identities:
  "let fs = snd (persist sample_persist_io a True \<lparr>id_visible = Map.empty, id_durable = Map.empty\<rparr>);
       fs' = snd (persist (sample_persist_io\<lparr>pe_ca := all_ok\<lparr>wa_open := False\<rparr>\<rparr>) b True fs)
   in map_option idf_content (id_visible fs' KEY_FILE) = Some (idn_key_pem a)
    \<and> map_option idf_content (id_visible fs' CERT_FILE) = Some (idn_cert_pem b)"
  by (simp add: persist_def ensure_not_enrolled_def sample_persist_io_def all_ok_def write_atomic_def Let_def)

lemma power_loss_can_keep_key_only:
  "let (r, fs) = persist sample_persist_io a False \<lparr>id_visible = Map.empty, id_durable = Map.empty\<rparr>;
       fs' = id_crash (\<lambda>name. name = KEY_FILE) fs
   in r = Inr () \<and> map_option idf_content (id_visible fs' KEY_FILE) = Some (idn_key_pem a) \<and> id_visible fs' CERT_FILE = None"
  by (simp add: persist_def ensure_not_enrolled_def sample_persist_io_def all_ok_def write_atomic_def Let_def id_crash_def)

end
