(* ===== verification/Jwks.thy ===== *)
theory Jwks
  imports Jwt_Auth Rust_Net
begin

text \<open>
  \<^verbatim>\<open>osa-coordinator/src/jwks.rs\<close>: where the operator signing keys come from.  The URL parser and the
  HTTP client are parameters: a URL is what \<open>reqwest::Url\<close> makes of a text, a fetch is the response
  it produces.
\<close>

subsection \<open>Model\<close>

definition MAX_JWKS_BYTES :: nat where "MAX_JWKS_BYTES = 2 ^ 20"

record oidc_config =
  oc_issuer :: string
  oc_audience :: string
  oc_leeway_secs :: u64

definition oidc_policy :: "oidc_config \<Rightarrow> validation_policy" where
  "oidc_policy c = \<lparr>vp_issuer = oc_issuer c, vp_audience = oc_audience c, vp_leeway_secs = oc_leeway_secs c\<rparr>"

record url =
  url_scheme :: string
  url_host :: "string option"
  url_string :: string

datatype url_error = EmptyUrl | InvalidUrl | PlaintextUrl | UnsupportedScheme string

definition trim_start_matches :: "char \<Rightarrow> string \<Rightarrow> string" where
  "trim_start_matches c s = dropWhile (\<lambda>x. x = c) s"

definition trim_end_matches :: "char \<Rightarrow> string \<Rightarrow> string" where
  "trim_end_matches c s = rev (dropWhile (\<lambda>x. x = c) (rev s))"

definition host_is_loopback :: "url \<Rightarrow> bool" where
  "host_is_loopback u =
     (case url_host u of
        None \<Rightarrow> False
      | Some host \<Rightarrow>
          if host = ''localhost'' then True
          else case parse_ip (trim_end_matches CHR '']'' (trim_start_matches CHR ''['' host)) of
            None \<Rightarrow> False
          | Some ip \<Rightarrow> is_loopback ip)"

definition validate_url :: "(string \<Rightarrow> url option) \<Rightarrow> string \<Rightarrow> url_error + string" where
  "validate_url parse raw0 =
     (let raw = trim raw0 in
      if raw = [] then Inl EmptyUrl
      else case parse raw of
        None \<Rightarrow> Inl InvalidUrl
      | Some u \<Rightarrow>
          if url_scheme u = ''https'' then Inr (url_string u)
          else if url_scheme u = ''http'' \<and> host_is_loopback u then Inr (url_string u)
          else if url_scheme u = ''http'' then Inl PlaintextUrl
          else Inl (UnsupportedScheme (url_scheme u)))"

datatype fetch_error = ClientBuild | SendFailed | ErrorStatus | ReadFailed | BodyTooLarge | Unusable jwks_error

text \<open>A response: its status check, and the chunks of its body, each of which may fail.\<close>

record response =
  rs_ok_status :: bool
  rs_chunks :: "bytes option list"

fun read_body :: "bytes option list \<Rightarrow> bytes \<Rightarrow> fetch_error + bytes" where
  "read_body [] body = Inr body"
| "read_body (None # chunks) body = Inl ReadFailed"
| "read_body (Some chunk # chunks) body =
     (if length body + length chunk \<le> MAX_JWKS_BYTES then read_body chunks (body @ chunk) else Inl BodyTooLarge)"

text \<open>One fetch: whether the client is built, and the response if the request went through.\<close>

record fetch_io =
  ft_build :: bool
  ft_response :: "response option"

definition fetch_bytes :: "fetch_io \<Rightarrow> fetch_error + bytes" where
  "fetch_bytes io =
     (if \<not> ft_build io then Inl ClientBuild
      else case ft_response io of
        None \<Rightarrow> Inl SendFailed
      | Some resp \<Rightarrow> if \<not> rs_ok_status resp then Inl ErrorStatus else read_body (rs_chunks resp) [])"

definition fetch_validator :: "jwt_lib \<Rightarrow> oidc_config \<Rightarrow> fetch_io \<Rightarrow> fetch_error + jwt_validator" where
  "fetch_validator J c io =
     (case fetch_bytes io of
        Inl e \<Rightarrow> Inl e
      | Inr bytes \<Rightarrow> (case from_jwks_json J (oidc_policy c) bytes of Inl e \<Rightarrow> Inl (Unusable e) | Inr v \<Rightarrow> Inr v))"

definition refresh :: "jwt_lib \<Rightarrow> oidc_config \<Rightarrow> fetch_io \<Rightarrow> jwt_validator \<Rightarrow> jwt_validator" where
  "refresh J c io cell = (case fetch_validator J c io of Inr v \<Rightarrow> v | Inl _ \<Rightarrow> cell)"

text \<open>The refresher after a number of intervals.\<close>

fun spawn_refresh :: "jwt_lib \<Rightarrow> oidc_config \<Rightarrow> fetch_io list \<Rightarrow> jwt_validator \<Rightarrow> jwt_validator" where
  "spawn_refresh J c [] cell = cell"
| "spawn_refresh J c (io # ios) cell = spawn_refresh J c ios (refresh J c io cell)"

subsection \<open>Properties\<close>

text \<open>Signing keys are fetched over TLS, or in plaintext from this machine only.\<close>

lemma validate_url_trusted:
  "validate_url parse raw = Inr s \<longleftrightarrow>
     (\<exists>u. trim raw \<noteq> [] \<and> parse (trim raw) = Some u \<and> s = url_string u
        \<and> (url_scheme u = ''https'' \<or> url_scheme u = ''http'' \<and> host_is_loopback u))"
  by (auto simp: validate_url_def Let_def split: option.splits)

lemma read_body_bounded: "read_body chunks body = Inr b \<Longrightarrow> length body \<le> MAX_JWKS_BYTES \<Longrightarrow> length b \<le> MAX_JWKS_BYTES"
  by (induction chunks body rule: read_body.induct) (auto split: if_splits)

lemma read_body_content: "read_body chunks body = Inr b \<Longrightarrow> \<exists>cs. chunks = map Some cs \<and> b = body @ concat cs"
proof (induction chunks body rule: read_body.induct)
  case (3 chunk chunks body)
  then obtain cs where "chunks = map Some cs" "b = (body @ chunk) @ concat cs" by (auto split: if_splits)
  then show ?case by (intro exI [of _ "chunk # cs"]) simp
qed auto

lemma fetch_validator_Inr:
  assumes "fetch_validator J c io = Inr v"
  shows "\<exists>resp cs. ft_response io = Some resp \<and> rs_ok_status resp \<and> rs_chunks resp = map Some cs
    \<and> length (concat cs) \<le> MAX_JWKS_BYTES \<and> from_jwks_json J (oidc_policy c) (concat cs) = Inr v"
proof -
  obtain resp body where b: "ft_response io = Some resp" "rs_ok_status resp" "read_body (rs_chunks resp) [] = Inr body"
      "from_jwks_json J (oidc_policy c) body = Inr v"
    using assms by (auto simp: fetch_validator_def fetch_bytes_def split: sum.splits if_splits option.splits)
  obtain cs where "rs_chunks resp = map Some cs" "body = concat cs" using read_body_content [OF b(3)] by auto
  then show ?thesis using b read_body_bounded [OF b(3)] by auto
qed

lemma from_jwks_json_keys: "from_jwks_json J p bs = Inr v \<Longrightarrow> jv_keys v \<noteq> [] \<and> jv_policy v = p"
  by (auto simp: from_jwks_json_def split: option.splits sum.splits if_splits)

text \<open>
  An issuer outage cannot take operator authentication down, and no refresh loosens it.  Started with
  a good fetch, the validator in use after any number of refreshes is the one of the latest good fetch.
\<close>

lemma refreshed_keys_are_latest_good:
  assumes "fetch_validator J c start = Inr v"
  shows "\<exists>pre io post. start # ios = pre @ io # post \<and> fetch_validator J c io = Inr (spawn_refresh J c ios v)
    \<and> (\<forall>x\<in>set post. \<exists>e. fetch_validator J c x = Inl e)"
  using assms
proof (induction ios arbitrary: start v)
  case Nil
  then show ?case by (intro exI [of _ "[]"]) auto
next
  case (Cons io ios)
  show ?case
  proof (cases "fetch_validator J c io")
    case (Inl e)
    from Cons.IH [OF Cons.prems] obtain pre x post where
        x: "start # ios = pre @ x # post" "fetch_validator J c x = Inr (spawn_refresh J c ios v)"
          "\<forall>y\<in>set post. \<exists>e. fetch_validator J c y = Inl e" by blast
    have run: "spawn_refresh J c (io # ios) v = spawn_refresh J c ios v" using Inl by (simp add: refresh_def)
    show ?thesis
    proof (cases pre)
      case Nil
      then show ?thesis using x run Inl by (intro exI [of _ "[]"] exI [of _ start] exI [of _ "io # post"]) auto
    next
      case (Cons p ps)
      then have "start # io # ios = (start # io # ps) @ x # post" using x(1) by simp
      then show ?thesis using x(2,3) run by metis
    qed
  next
    case (Inr w)
    from Cons.IH [OF Inr] obtain pre x post where x: "io # ios = pre @ x # post" "fetch_validator J c x = Inr (spawn_refresh J c ios w)"
        "\<forall>y\<in>set post. \<exists>e. fetch_validator J c y = Inl e" by blast
    have "start # io # ios = (start # pre) @ x # post" using x(1) by simp
    moreover have "spawn_refresh J c (io # ios) v = spawn_refresh J c ios w" using Inr by (simp add: refresh_def)
    ultimately show ?thesis using x(2,3) by metis
  qed
qed

end
