(* ===== verification/Cli.thy ===== *)
theory Cli
  imports Service_Safety Rust_Net
begin

text \<open>
  \<^verbatim>\<open>osa-cli/src/main.rs\<close>: the operator's client.  What it sends, what it does with the events of a
  fan-out and with the frames of a shell, and how it verifies an exported audit chain.  Argument
  parsing, the terminal and the gRPC transport are not modelled: a command's input is its arguments
  and the messages that arrive, its output the things it writes, in order, and its exit status.
\<close>

subsection \<open>Requests\<close>

datatype cli_error = NoCommand | ConnectFailed | CallFailed status | BadToken | StreamError | WriteError | BadHeadLength | BadHeadHex | HeadPanic
  | BadDecision u64 | BadHash u64 string | ChainInvalid audit_error

text \<open>The request of \<open>osa exec\<close>.\<close>

definition cli_exec_request ::
  "crypto \<Rightarrow> codecs \<Rightarrow> string \<Rightarrow> string \<Rightarrow> string list \<Rightarrow> cli_error + dispatch_request" where
  "cli_exec_request C P host run_user argv =
     (if argv = [] then Inl NoCommand
      else let params = encode_msg (ep_codec P) \<lparr>ep_argv = argv\<rparr> in
        Inr \<lparr>dr_action = Some \<lparr>ad_kind = ''exec'', ad_target = host, ad_run_as = run_user, ad_params_hash = params_hash C params\<rparr>,
             dr_params = params\<rparr>)"

subsection \<open>The events of a fan-out\<close>

text \<open>What is written, in order: the header naming a host, bytes to either stream, and the status line.\<close>

datatype cli_output = HostHeader string | Stdout bytes | Stderr bytes | StatusLine string string

record exec_view =
  xv_last_host :: "string option"
  xv_hosts_reported :: nat
  xv_failures :: nat
  xv_output :: "cli_output list"

definition exec_view_init :: exec_view where
  "exec_view_init = \<lparr>xv_last_host = None, xv_hosts_reported = 0, xv_failures = 0, xv_output = []\<rparr>"

definition i32_to_string :: "i32 \<Rightarrow> string" where
  "i32_to_string w = (if sint w < 0 then CHR ''-'' # dec_string (nat (- sint w)) else dec_string (nat (sint w)))"

fun terminal_status :: "terminal option \<Rightarrow> bool \<times> string" where
  "terminal_status (Some (ExitCode code)) = (if code = 0 then (True, ''exit 0'') else (False, ''exit '' @ i32_to_string code))"
| "terminal_status (Some (TermSignal sig)) = (False, ''signal '' @ i32_to_string sig)"
| "terminal_status (Some (TermError msg)) = (False, ''error: '' @ msg)"
| "terminal_status None = (False, ''no status'')"

definition outcome_flags :: "job_outcome \<Rightarrow> string" where
  "outcome_flags outcome =
     (if jo_output_truncated outcome then '' [output truncated]'' else [])
     @ (if jo_timed_out outcome then '' [timed out]'' else [])"

text \<open>One event; an unknown stream number reads as the default and is not standard error.\<close>

fun exec_event_step :: "exec_event \<Rightarrow> exec_view \<Rightarrow> exec_view" where
  "exec_event_step ev v =
     (case ee_event ev of
        Some (Chunk chunk) \<Rightarrow>
          let v' = (if xv_last_host v \<noteq> Some (ee_host_id ev)
                    then v\<lparr>xv_last_host := Some (ee_host_id ev), xv_output := xv_output v @ [HostHeader (ee_host_id ev)]\<rparr>
                    else v)
          in v'\<lparr>xv_output := xv_output v' @ [if oc_stream chunk = STDERR then Stderr (oc_data chunk) else Stdout (oc_data chunk)]\<rparr>
      | Some (Outcome outcome) \<Rightarrow>
          (case terminal_status (jo_terminal outcome) of
             (ok, status) \<Rightarrow>
               v\<lparr>xv_hosts_reported := xv_hosts_reported v + 1,
                 xv_failures := xv_failures v + (if ok then 0 else 1),
                 xv_output := xv_output v @ [StatusLine (ee_host_id ev) (status @ outcome_flags outcome)]\<rparr>)
      | None \<Rightarrow> v)"

text \<open>The loop: the events that arrive, whether each could be written, and whether the stream ended cleanly.\<close>

fun exec_loop :: "(exec_event \<times> bool) list \<Rightarrow> bool \<Rightarrow> exec_view \<Rightarrow> cli_error + exec_view" where
  "exec_loop [] clean v = (if clean then Inr v else Inl StreamError)"
| "exec_loop ((ev, written) # evs) clean v =
     (if (case ee_event ev of Some (Chunk _) \<Rightarrow> \<not> written | _ \<Rightarrow> False) then Inl WriteError
      else exec_loop evs clean (exec_event_step ev v))"

definition cli_exec :: "(exec_event \<times> bool) list \<Rightarrow> bool \<Rightarrow> nat" where
  "cli_exec evs clean =
     (case exec_loop evs clean exec_view_init of
        Inl _ \<Rightarrow> 1
      | Inr v \<Rightarrow> if xv_failures v = 0 \<and> xv_hosts_reported v > 0 then 0 else 1)"

subsection \<open>Credentials\<close>

text \<open>
  The \<open>authorization\<close> metadata of a call, as the interceptor reads it; \<open>header_ok\<close> is the check of
  the metadata library on a header value.
\<close>

definition authed :: "(string \<Rightarrow> bool) \<Rightarrow> string option \<Rightarrow> cli_error + string option option" where
  "authed header_ok token =
     (case token of
        None \<Rightarrow> Inr None
      | Some t \<Rightarrow> if header_ok (''Bearer '' @ t) then Inr (Some (Some (''Bearer '' @ t))) else Inl BadToken)"

lemma bearer_token_authed:
  assumes "authed header_ok token = Inr metadata"
  shows "bearer_token metadata = (case token of Some (c # cs) \<Rightarrow> Inr (c # cs) | _ \<Rightarrow> Inl Unauthenticated)"
proof -
  have "split_once CHR '' '' (''Bearer '' @ t) = Some (''Bearer'', t)" for t by simp
  moreover have "eq_ignore_ascii_case ''Bearer'' ''bearer''" by code_simp
  ultimately show ?thesis
    using assms by (auto simp: authed_def bearer_token_def split: option.splits list.splits if_splits)
qed

subsection \<open>A shell session\<close>

definition DEFAULT_ROWS_cli :: u16 where "DEFAULT_ROWS_cli = 24"
definition DEFAULT_COLS_cli :: u16 where "DEFAULT_COLS_cli = 80"

text \<open>\<open>TIOCGWINSZ\<close>: whether the call succeeded, and the rows and columns it filled in.\<close>

definition terminal_size :: "bool \<times> u16 \<times> u16 \<Rightarrow> (u16 \<times> u16) option" where
  "terminal_size ioctl =
     (case ioctl of (ok, row, col) \<Rightarrow> if ok \<and> row > 0 \<and> col > 0 then Some (row, col) else None)"

text \<open>
  The reader task on the reads of standard input, an error as \<open>None\<close>, with whether the outbound
  stream still takes a message; when the list ends the task is still reading.
\<close>

fun stdin_pump :: "(bytes option \<times> bool) list \<Rightarrow> shell_client_msg list" where
  "stdin_pump [] = []"
| "stdin_pump ((None, taken) # reads) = (if taken then [MsgClose True] else [])"
| "stdin_pump ((Some data, taken) # reads) =
     (if \<not> taken then []
      else if data = [] then [MsgClose True]
      else MsgInput data # stdin_pump reads)"

definition shell_requests ::
  "string \<Rightarrow> string \<Rightarrow> bool \<times> u16 \<times> u16 \<Rightarrow> (bytes option \<times> bool) list \<Rightarrow> shell_client_msg list" where
  "shell_requests host run_user ioctl reads =
     (case (case terminal_size ioctl of None \<Rightarrow> (DEFAULT_ROWS_cli, DEFAULT_COLS_cli) | Some rc \<Rightarrow> rc) of
        (rows, cols) \<Rightarrow>
          MsgOpen \<lparr>so_host_id = host, so_run_as = run_user, so_rows = ucast rows, so_cols = ucast cols\<rparr> # stdin_pump reads)"

text \<open>The frames that arrive, with whether each could be written; what is shown, and how it ends.\<close>

fun shell_loop :: "(shell_server_msg option \<times> bool) list \<Rightarrow> bool \<Rightarrow> bytes \<Rightarrow> (cli_error + unit) \<times> bytes" where
  "shell_loop [] clean shown = (if clean then Inr () else Inl StreamError, shown)"
| "shell_loop ((Some (ShellOutput data), written) # msgs) clean shown =
     (if written then shell_loop msgs clean (shown @ data) else (Inl WriteError, shown))"
| "shell_loop ((Some (ShellClosed b), written) # msgs) clean shown = (Inr (), shown)"
| "shell_loop ((None, written) # msgs) clean shown = shell_loop msgs clean shown"

text \<open>
  \<open>RawMode\<close>: the settings of standard input, \<open>None\<close> when it is no terminal; \<open>cfmakeraw\<close> is the
  library's change of the settings, and the flags say whether each \<open>tcsetattr\<close> succeeds.
\<close>

definition raw_mode_enable :: "('s \<Rightarrow> 's) \<Rightarrow> bool \<Rightarrow> 's option \<Rightarrow> 's option \<times> 's option" where
  "raw_mode_enable cfmakeraw set_ok stdin =
     (case stdin of
        None \<Rightarrow> (None, stdin)
      | Some original \<Rightarrow> if set_ok then (Some original, Some (cfmakeraw original)) else (None, stdin))"

definition raw_mode_drop :: "bool \<Rightarrow> 's option \<Rightarrow> 's option \<Rightarrow> 's option" where
  "raw_mode_drop set_ok original stdin =
     (case original of None \<Rightarrow> stdin | Some s \<Rightarrow> if set_ok then Some s else stdin)"

text \<open>The \<open>Shell\<close> command: raw mode around the session; the exit status and the settings left.\<close>

definition cli_shell ::
  "('s \<Rightarrow> 's) \<Rightarrow> bool \<Rightarrow> bool \<Rightarrow> cli_error + (shell_server_msg option \<times> bool) list \<times> bool \<Rightarrow> 's option \<Rightarrow> nat \<times> bytes \<times> 's option" where
  "cli_shell cfmakeraw set_ok restore_ok answer stdin =
     (case raw_mode_enable cfmakeraw set_ok stdin of
        (original, stdin') \<Rightarrow>
          (case (case answer of Inl e \<Rightarrow> (Inl e, []) | Inr (msgs, clean) \<Rightarrow> shell_loop msgs clean []) of
             (result, shown) \<Rightarrow>
               (case result of Inl _ \<Rightarrow> 1 | Inr _ \<Rightarrow> 0, shown, raw_mode_drop restore_ok original stdin')))"

lemma cli_shell_restores: "snd (snd (cli_shell cfmakeraw set_ok True answer stdin)) = stdin"
  by (auto simp: cli_shell_def raw_mode_enable_def raw_mode_drop_def split: option.split prod.split)

subsection \<open>Audit verification\<close>

definition to_hex :: "bytes \<Rightarrow> string" where
  "to_hex bs = fold (\<lambda>b s. s @ hex_byte b) bs []"

text \<open>\<open>u8::from_str_radix(s, 16)\<close>, which takes an optional plus sign.\<close>

definition u8_from_hex :: "string \<Rightarrow> u8 option" where
  "u8_from_hex s =
     (let ds = (case s of c # cs \<Rightarrow> if c = CHR ''+'' then cs else s | [] \<Rightarrow> [])
      in if ds = [] \<or> list_ex (\<lambda>c. to_digit 16 c = None) ds then None
         else let v = foldl (\<lambda>a c. a * 16 + the (to_digit 16 c)) 0 ds in if v < 256 then Some (of_nat v) else None)"

text \<open>Slicing a string inside a character panics: a continuation byte starts no character.\<close>

definition is_continuation :: "char \<Rightarrow> bool" where
  "is_continuation c \<longleftrightarrow> 128 \<le> (of_char c :: nat) \<and> (of_char c :: nat) < 192"

fun parse_head_loop :: "string \<Rightarrow> cli_error + bytes" where
  "parse_head_loop (a # b # rest) =
     (if is_continuation a \<or> (case rest of [] \<Rightarrow> False | c # _ \<Rightarrow> is_continuation c) then Inl HeadPanic
      else case u8_from_hex [a, b] of
        None \<Rightarrow> Inl BadHeadHex
      | Some v \<Rightarrow> (case parse_head_loop rest of Inl e \<Rightarrow> Inl e | Inr bs \<Rightarrow> Inr (v # bs)))"
| "parse_head_loop _ = Inr []"

definition parse_head :: "string \<Rightarrow> cli_error + hash" where
  "parse_head raw =
     (let s = trim raw in
      if length s \<noteq> 64 then Inl BadHeadLength
      else case parse_head_loop s of Inl e \<Rightarrow> Inl e | Inr bs \<Rightarrow> Inr (of_be_bytes bs))"

definition hash32 :: "u64 \<Rightarrow> string \<Rightarrow> bytes \<Rightarrow> cli_error + hash" where
  "hash32 seq field b = (if length b = 32 then Inr (of_be_bytes b) else Inl (BadHash seq field))"

definition to_audit_entry :: "audit_entry_msg \<Rightarrow> cli_error + audit_entry" where
  "to_audit_entry e =
     (case decision_parse (am_decision e) of
        None \<Rightarrow> Inl (BadDecision (am_seq e))
      | Some d \<Rightarrow>
          (case hash32 (am_seq e) ''prev_hash'' (am_prev_hash e) of
             Inl err \<Rightarrow> Inl err
           | Inr prev \<Rightarrow>
               (case hash32 (am_seq e) ''hash'' (am_hash e) of
                  Inl err \<Rightarrow> Inl err
                | Inr h \<Rightarrow>
                    Inr \<lparr>ae_seq = am_seq e,
                         ae_record = \<lparr>ts_unix = am_ts_unix e, subject = am_subject e, kind = am_kind e, target = am_target e,
                                      run_as = am_run_as e, decision = d\<rparr>,
                         ae_prev_hash = prev, ae_hash = h\<rparr>)))"

datatype audit_report = ChainEmpty | ChainOk nat string bool

text \<open>\<open>osa audit verify\<close> on the exported entries.\<close>

definition audit_verify :: "hasher \<Rightarrow> string option \<Rightarrow> audit_entry_msg list \<Rightarrow> cli_error + audit_report" where
  "audit_verify sha expect_head msgs =
     (case (case expect_head of None \<Rightarrow> Inr None | Some s \<Rightarrow> map_sum id Some (parse_head s)) of
        Inl e \<Rightarrow> Inl e
      | Inr anchor \<Rightarrow>
          (case collect_results to_audit_entry msgs of
             Inl e \<Rightarrow> Inl e
           | Inr entries \<Rightarrow>
               (case verify sha entries anchor of
                  Inl e \<Rightarrow> Inl (ChainInvalid e)
                | Inr _ \<Rightarrow>
                    if entries = [] then Inr ChainEmpty
                    else Inr (ChainOk (length entries) (to_hex (be_bytes 32 (ae_hash (last entries)))) (anchor \<noteq> None)))))"

subsection \<open>Exit status of a fan-out\<close>

definition outcomes :: "exec_event list \<Rightarrow> job_outcome list" where
  "outcomes evs = List.map_filter (\<lambda>ev. case ee_event ev of Some (Outcome jo) \<Rightarrow> Some jo | _ \<Rightarrow> None) evs"

lemma outcomes_simps [simp]:
  "outcomes [] = []"
  "outcomes (ev # evs) = (case ee_event ev of Some (Outcome jo) \<Rightarrow> jo # outcomes evs | _ \<Rightarrow> outcomes evs)"
  by (simp_all add: outcomes_def map_filter_def split: option.split result_body.split)

lemma terminal_status_ok: "fst (terminal_status t) \<longleftrightarrow> t = Some (ExitCode 0)"
  by (cases t rule: terminal_status.cases) auto

lemma exec_loop_counts:
  "exec_loop evs clean v = Inr v' \<Longrightarrow> clean
    \<and> xv_hosts_reported v' = xv_hosts_reported v + length (outcomes (map fst evs))
    \<and> xv_failures v' = xv_failures v + length (filter (\<lambda>jo. jo_terminal jo \<noteq> Some (ExitCode 0)) (outcomes (map fst evs)))"
proof (induction evs clean v rule: exec_loop.induct)
  case (2 ev written evs clean v)
  show ?case
  proof (cases "ee_event ev")
    case None
    then show ?thesis using 2 by simp
  next
    case (Some body)
    then show ?thesis
      using 2 terminal_status_ok
      by (cases body) (auto simp: Let_def case_prod_unfold split: if_splits)
  qed
qed (auto split: if_splits)

lemma cli_exec_zero:
  "cli_exec evs clean = 0 \<longleftrightarrow>
     (\<exists>v. exec_loop evs clean exec_view_init = Inr v) \<and> outcomes (map fst evs) \<noteq> []
     \<and> (\<forall>jo\<in>set (outcomes (map fst evs)). jo_terminal jo = Some (ExitCode 0))"
  using exec_loop_counts [of evs clean exec_view_init]
  by (auto simp: cli_exec_def exec_view_init_def filter_empty_conv split: sum.split)

subsection \<open>Heads\<close>

lemma to_hex_alt: "to_hex bs = concat (map hex_byte bs)"
proof -
  have "fold (\<lambda>b s. s @ hex_byte b) bs acc = acc @ concat (map hex_byte bs)" for acc
    by (induction bs arbitrary: acc) simp_all
  then show ?thesis by (simp add: to_hex_def)
qed

lemma to_digit_hex: "n < 16 \<Longrightarrow> to_digit 16 (hex_digits ! n) = Some n \<and> \<not> is_continuation (hex_digits ! n) \<and> hex_digits ! n \<noteq> CHR ''+''"
proof -
  have "\<forall>n\<in>set [0..<16]. to_digit 16 (hex_digits ! n) = Some n \<and> \<not> is_continuation (hex_digits ! n) \<and> hex_digits ! n \<noteq> CHR ''+''"
    by code_simp
  then show "n < 16 \<Longrightarrow> ?thesis" by simp
qed

lemma byte_nibbles: "unat (b :: u8) < 256" "unat b div 16 < 16" "unat b mod 16 < 16"
proof -
  show "unat b < 256" using unsigned_less [of b, where 'a = nat] by simp
  then show "unat b div 16 < 16" "unat b mod 16 < 16" by auto
qed

lemma u8_from_hex_byte: "u8_from_hex (hex_byte b) = Some b"
proof -
  let ?h = "unat b div 16" and ?l = "unat b mod 16"
  note d = to_digit_hex [OF byte_nibbles(2) [of b]] to_digit_hex [OF byte_nibbles(3) [of b]]
  have "?h * 16 + ?l = unat b" by simp
  then show ?thesis using d byte_nibbles(1) [of b] by (simp add: u8_from_hex_def hex_byte_def Let_def)
qed

lemma hex_byte_no_continuation: "c \<in> set (hex_byte b) \<Longrightarrow> \<not> is_continuation c"
  using to_digit_hex [OF byte_nibbles(2) [of b]] to_digit_hex [OF byte_nibbles(3) [of b]] by (auto simp: hex_byte_def)

lemma parse_head_loop_to_hex: "parse_head_loop (to_hex bs) = Inr bs"
  unfolding to_hex_alt
proof (induction bs)
  case (Cons b bs)
  obtain x y where xy: "hex_byte b = [x, y]" by (simp add: hex_byte_def)
  have "\<not> is_continuation x" using hex_byte_no_continuation [of x b] xy by simp
  moreover have "\<not> (case concat (map hex_byte bs) of [] \<Rightarrow> False | c # _ \<Rightarrow> is_continuation c)"
    using hex_byte_no_continuation by (cases bs) (auto simp: hex_byte_def split: list.splits)
  ultimately show ?case using Cons u8_from_hex_byte [of b] xy by simp
qed simp

lemma trim_to_hex: "bs \<noteq> [] \<Longrightarrow> trim (to_hex bs) = to_hex bs"
proof (rule trim_unpadded)
  assume "bs \<noteq> []"
  then show ne: "to_hex bs \<noteq> []" by (cases bs) (simp_all add: to_hex_alt hex_byte_def)
  have digits: "set (to_hex bs) \<subseteq> set hex_digits"
  proof -
    have "length hex_digits = 16" by (simp add: hex_digits_def)
    then have "set (hex_byte b) \<subseteq> set hex_digits" for b using byte_nibbles [of b] by (simp add: hex_byte_def)
    then show ?thesis by (auto simp: to_hex_alt)
  qed
  have ws: "\<forall>p\<in>set whitespace_encodings. p \<noteq> [] \<and> hd p \<notin> set hex_digits \<and> hd (rev p) \<notin> set hex_digits" by code_simp
  show "\<forall>p\<in>set whitespace_encodings. strip_prefix p (to_hex bs) = None"
  proof (intro ballI, rule ccontr)
    fix p assume p: "p \<in> set whitespace_encodings" "strip_prefix p (to_hex bs) \<noteq> None"
    then obtain r where "to_hex bs = p @ r" by (auto simp: strip_prefix_Some)
    then show False using ws p(1) digits by (cases p) auto
  qed
  show "\<forall>p\<in>set whitespace_encodings. strip_prefix (rev p) (rev (to_hex bs)) = None"
  proof (intro ballI, rule ccontr)
    fix p assume p: "p \<in> set whitespace_encodings" "strip_prefix (rev p) (rev (to_hex bs)) \<noteq> None"
    then obtain r where "rev (to_hex bs) = rev p @ r" by (auto simp: strip_prefix_Some)
    then have "set (rev p) \<subseteq> set hex_digits" using digits by (metis Un_subset_iff set_append set_rev)
    then show False using ws p(1) by (metis hd_in_set rev_is_Nil_conv subsetD)
  qed
qed

lemma parse_head_round_trip: "parse_head (to_hex (be_bytes 32 h)) = Inr h"
proof -
  have "length (to_hex (be_bytes 32 h)) = 64"
    by (simp add: to_hex_alt length_concat comp_def hex_byte_def sum_list_triv)
  moreover have "be_bytes 32 h \<noteq> []" by (metis length_be_bytes list.size(3) zero_neq_numeral)
  ultimately show ?thesis
    using trim_to_hex [of "be_bytes 32 h"] by (simp add: parse_head_def Let_def parse_head_loop_to_hex of_be_bytes_inverse)
qed

text \<open>The parser takes a sign for a digit, and a character that straddles a byte pair makes it panic.\<close>

lemma parse_head_loop_accepts_sign: "parse_head_loop (''+f'' @ s) = parse_head_loop (''0f'' @ s)"
proof -
  have "u8_from_hex ''+f'' = u8_from_hex ''0f''" by code_simp
  then show ?thesis by (simp add: is_continuation_def)
qed

lemma parse_head_loop_panics: "parse_head_loop (CHR ''0'' # CHR 0xC3 # CHR 0xA9 # s) = Inl HeadPanic"
  by (simp add: is_continuation_def)

subsection \<open>Verifying an export\<close>

text \<open>Reading 32 bytes as a hash loses nothing: the bytes are those of the hash that was read.\<close>

lemma foldl_bytes_bound: "foldl (\<lambda>a b. a * 256 + unat b) 0 (bs :: bytes) < 256 ^ length bs"
proof (induction bs rule: rev_induct)
  case (snoc b bs)
  then show ?case using byte_nibbles(1) [of b] by simp
qed simp

lemma foldl_bytes_inj:
  "length xs = length ys \<Longrightarrow>
   foldl (\<lambda>a b. a * 256 + unat b) 0 xs = foldl (\<lambda>a b. a * 256 + unat b) 0 (ys :: bytes) \<Longrightarrow> xs = ys"
proof (induction xs arbitrary: ys rule: rev_induct)
  case (snoc x xs)
  obtain y zs where ys: "ys = zs @ [y]" using snoc.prems(1) by (cases ys rule: rev_cases) auto
  let ?v = "foldl (\<lambda>a b. a * 256 + unat b) 0"
  have eq: "?v xs * 256 + unat x = ?v zs * 256 + unat y" using snoc.prems(2) ys by simp
  have "unat x = unat y"
    using arg_cong [OF eq, of "\<lambda>n. n mod 256"] byte_nibbles(1) [of x] byte_nibbles(1) [of y] by simp
  moreover from this have "?v xs = ?v zs" using eq by simp
  ultimately have "x = y" "?v xs = ?v zs" by (simp_all add: word_unat_eq_iff)
  then show ?case using snoc ys by simp
qed simp

lemma be_bytes_of_be_bytes: "length bs = 32 \<Longrightarrow> be_bytes 32 (of_be_bytes bs :: hash) = bs"
proof (rule foldl_bytes_inj)
  assume l: "length bs = 32"
  then show "length (be_bytes 32 (of_be_bytes bs :: hash)) = length bs" by simp
  have "(256 :: nat) ^ 32 = 2 ^ 256" by simp
  then show "foldl (\<lambda>a b. a * 256 + unat b) 0 (be_bytes 32 (of_be_bytes bs :: hash)) = foldl (\<lambda>a b. a * 256 + unat b) 0 bs"
    using foldl_bytes_bound [of bs] l
    by (simp only: foldl_be_bytes) (simp add: of_be_bytes_def unat_of_nat)
qed

lemma to_audit_entry_msg [simp]: "to_audit_entry (to_entry_msg e) = Inr e"
  by (simp add: to_audit_entry_def to_entry_msg_def hash32_def of_be_bytes_inverse)

lemma to_audit_entry_Inr: "to_audit_entry m = Inr e \<Longrightarrow> m = to_entry_msg e"
  by (auto simp: to_audit_entry_def to_entry_msg_def hash32_def be_bytes_of_be_bytes decision_parse_def
      split: option.splits sum.splits if_splits)

lemma collect_entries_iff: "collect_results to_audit_entry msgs = Inr es \<longleftrightarrow> msgs = map to_entry_msg es"
proof
  assume "collect_results to_audit_entry msgs = Inr es"
  then have "list_all2 (\<lambda>m e. m = to_entry_msg e) msgs es"
    by (rule list_all2_mono [OF collect_results_Inr]) (rule to_audit_entry_Inr)
  then show "msgs = map to_entry_msg es" by (induction) simp_all
qed (simp add: collect_results_round_trip)

lemma audit_verify_Some_Inr:
  "audit_verify sha (Some s) msgs = Inr report \<longleftrightarrow>
     (\<exists>h es. parse_head s = Inr h \<and> msgs = map to_entry_msg es \<and> verify sha es (Some h) = Inr ()
        \<and> report = ChainOk (length es) (to_hex (be_bytes 32 h)) True)"
proof -
  have "audit_verify sha (Some s) msgs = Inr report \<longleftrightarrow>
     (\<exists>h es. parse_head s = Inr h \<and> collect_results to_audit_entry msgs = Inr es \<and> verify sha es (Some h) = Inr ()
        \<and> report = ChainOk (length es) (to_hex (be_bytes 32 h)) True)"
    by (cases "parse_head s"; cases "collect_results to_audit_entry msgs")
      (auto simp: audit_verify_def chain_head_def dest: verify_Some [THEN iffD1] split: sum.splits if_splits)
  then show ?thesis by (simp only: collect_entries_iff)
qed

lemma audit_verify_None_Inr:
  "es \<noteq> [] \<Longrightarrow> verify sha es None = Inr () \<Longrightarrow>
   audit_verify sha None (map to_entry_msg es) = Inr (ChainOk (length es) (to_hex (be_bytes 32 (chain_head es))) False)"
  by (simp add: audit_verify_def collect_results_round_trip chain_head_def)

definition collision_free :: "hasher \<Rightarrow> audit_entry_msg list \<Rightarrow> audit_entry_msg list \<Rightarrow> bool" where
  "collision_free sha msgs msgs' \<longleftrightarrow>
     (\<forall>es es'. collect_results to_audit_entry msgs = Inr es \<longrightarrow> collect_results to_audit_entry msgs' = Inr es'
        \<longrightarrow> inj_on sha (entry_encoding ` (set es \<union> set es')) \<and> fits es \<and> fits es'
          \<and> (\<forall>e \<in> set es \<union> set es'. record_fits (ae_record e)))"

text \<open>
  C7.  The audit trail from the coordinator's database to the operator's terminal.  Whatever sequence
  of appends ran against the Postgres log, with statements failing and commits lost, the coordinator
  serves an export that holds every acknowledged record in order; \<open>osa audit verify\<close> accepts it and
  prints a head; with that head as \<open>--expect-head\<close> it accepts the same export again and, as long as
  SHA-256 has no collision among the entries, no other list of messages whatsoever.
\<close>

theorem operator_detects_audit_tampering:
  assumes "append_all (pg_append sha) rs [] = (acked, sv_audit sv)" "length rs < 2 ^ 63" "acked \<noteq> []"
  shows "\<exists>msgs head. export_audit_call pg_export sv = Inr msgs
    \<and> subseq (map subject acked) (map am_subject msgs)
    \<and> audit_verify sha None msgs = Inr (ChainOk (length msgs) head False)
    \<and> audit_verify sha (Some head) msgs = Inr (ChainOk (length msgs) head True)
    \<and> (\<forall>msgs' report. collision_free sha msgs msgs' \<longrightarrow> audit_verify sha (Some head) msgs' = Inr report \<longrightarrow> msgs' = msgs)"
proof -
  obtain es where es: "pg_export (sv_audit sv) = Inr es" "verify sha es None = Inr ()" "subseq acked (map ae_record es)"
    using pg_log.export_verifies [OF _ assms(2,1)] by (auto simp: pg_holds_def)
  then have ne: "es \<noteq> []" using assms(3) by auto
  let ?msgs = "map to_entry_msg es" and ?head = "to_hex (be_bytes 32 (chain_head es))"
  have "export_audit_call pg_export sv = Inr ?msgs" by (simp add: export_audit_call_def es(1))
  moreover have "subseq (map subject acked) (map am_subject ?msgs)"
    using subseq_map [OF es(3), of subject] by (simp add: comp_def to_entry_msg_def)
  moreover have "audit_verify sha None ?msgs = Inr (ChainOk (length ?msgs) ?head False)"
    using audit_verify_None_Inr [OF ne es(2)] by simp
  moreover have v: "verify sha es (Some (chain_head es)) = Inr ()" using es(2) ne by (simp add: verify_None verify_Some)
  then have "audit_verify sha (Some ?head) ?msgs = Inr (ChainOk (length ?msgs) ?head True)"
    unfolding audit_verify_Some_Inr by (auto simp: parse_head_round_trip)
  moreover have "msgs' = ?msgs"
    if cf: "collision_free sha ?msgs msgs'" and acc: "audit_verify sha (Some ?head) msgs' = Inr report" for msgs' report
  proof -
    obtain es' where es': "msgs' = map to_entry_msg es'" "verify sha es' (Some (chain_head es)) = Inr ()"
      using acc by (auto simp: audit_verify_Some_Inr parse_head_round_trip)
    then show ?thesis
      using anchored_chains_eq [OF v es'(2)] cf by (simp add: collision_free_def collect_results_round_trip)
  qed
  ultimately show ?thesis by blast
qed

theorem operator_detects_audit_tampering_witness:
  "let sha = (\<lambda>b. of_nat (length b));
       run = append_all (pg_append sha) [(\<lparr>io_ok = (\<lambda>_. True), io_commit = Committed\<rparr>, sample_record ''al'' Allow)] [];
       sv = (new_service () () (snd run) :: (unit, unit, audit_row list) service)
   in fst run = [sample_record ''al'' Allow]
    \<and> (\<exists>msgs head. export_audit_call pg_export sv = Inr msgs \<and> subseq [''al''] (map am_subject msgs)
         \<and> audit_verify sha (Some head) msgs = Inr (ChainOk (length msgs) head True)
         \<and> (\<forall>msgs' report. collision_free sha msgs msgs' \<longrightarrow> audit_verify sha (Some head) msgs' = Inr report \<longrightarrow> msgs' = msgs))"
proof -
  define sha :: hasher where "sha = (\<lambda>b. of_nat (length b))"
  define run where
    "run = append_all (pg_append sha) [(\<lparr>io_ok = (\<lambda>_. True), io_commit = Committed\<rparr>, sample_record ''al'' Allow)] []"
  define sv where "sv = (new_service () () (snd run) :: (unit, unit, audit_row list) service)"
  have acked: "fst run = [sample_record ''al'' Allow]"
    by (simp add: run_def pg_append_def select_head_def Let_def)
  have "append_all (pg_append sha) [(\<lparr>io_ok = (\<lambda>_. True), io_commit = Committed\<rparr>, sample_record ''al'' Allow)] []
      = (fst run, sv_audit sv)"
    by (simp add: run_def sv_def new_service_def)
  from operator_detects_audit_tampering [OF this] acked show ?thesis
    by (fastforce simp: Let_def sha_def run_def sv_def sample_record_def)
qed

end
