(* ===== verification/Pty.thy ===== *)
theory Pty
  imports Control_Channel
begin

text \<open>
  \<^verbatim>\<open>osa-agent/src/pty.rs\<close>: the pseudo-terminal behind an interactive shell.  The kernel is an argument:
  the user database, whether each call succeeds (for the calls that change identity, given the
  credentials of the caller), and what reads and writes of the master return.  Processes are a table
  from process ids to their group and whether they still run.
\<close>

subsection \<open>Spawning\<close>

text \<open>\<open>po_ctty\<close>: whether claiming the controlling terminal succeeds for a process that is, or is not, a
  session leader.  \<open>po_can_drop\<close>: the target is one where supplementary groups can be dropped.\<close>

record pty_os =
  po_creds :: creds
  po_env :: "(string \<times> string) list"
  po_getpwnam :: "string \<Rightarrow> user option option"
  po_can_drop :: bool
  po_openpty :: bool
  po_cloexec :: bool
  po_dup :: "string \<Rightarrow> bool"
  po_fork :: bool
  po_setsid :: bool
  po_ctty :: "bool \<Rightarrow> bool"
  po_setgid :: "creds \<Rightarrow> nat \<Rightarrow> bool"
  po_setgroups :: "creds \<Rightarrow> nat list \<Rightarrow> bool"
  po_setuid :: "creds \<Rightarrow> nat \<Rightarrow> bool"
  po_exec :: bool
  po_master :: bool
  po_pid :: nat

text \<open>The descriptors of the terminal in the agent, with their close-on-exec flag.\<close>

datatype pty_fd = MasterFd | SlaveFd

type_synonym fd_table = "(pty_fd \<times> bool) list"

definition open_pty :: fd_table where
  "open_pty = [(MasterFd, False), (SlaveFd, False)]"

definition set_cloexec :: "pty_fd \<Rightarrow> fd_table \<Rightarrow> fd_table" where
  "set_cloexec fd fds = map (\<lambda>(f, c). (f, c \<or> f = fd)) fds"

definition close_fd :: "pty_fd \<Rightarrow> fd_table \<Rightarrow> fd_table" where
  "close_fd fd fds = filter (\<lambda>(f, _). f \<noteq> fd) fds"

text \<open>What a child forked now still has after its exec.\<close>

definition inherited :: "fd_table \<Rightarrow> pty_fd list" where
  "inherited fds = map fst (filter (\<lambda>(_, c). \<not> c) fds)"

record shell_child =
  sc_program :: string
  sc_size :: "u16 \<times> u16"
  sc_stdio :: "pty_fd list"
  sc_inherited :: "pty_fd list"
  sc_env :: "(string \<times> string) list"
  sc_creds :: creds
  sc_leader :: bool
  sc_ctty :: bool

definition pty_resolve_user :: "pty_os \<Rightarrow> string \<Rightarrow> pty_error + user option" where
  "pty_resolve_user os run_as =
     (if run_as = [] then Inr None
      else case po_getpwnam os run_as of
        Some (Some u) \<Rightarrow> Inr (Some u)
      | Some None \<Rightarrow> Inl (PtyUnknownUser run_as)
      | None \<Rightarrow> Inl (PtyUserLookup run_as))"

definition target_drop :: "pty_os \<Rightarrow> user option \<Rightarrow> pty_error + (nat \<times> nat) option" where
  "target_drop os who =
     (if po_can_drop os then Inr (map_option (\<lambda>u. (u_uid u, u_gid u)) who)
      else if who \<noteq> None then Inl PtyUnsupported else Inr None)"

definition drop_privileges_in_child :: "pty_os \<Rightarrow> nat \<Rightarrow> nat \<Rightarrow> creds \<Rightarrow> creds option" where
  "drop_privileges_in_child os uid gid c =
     (if \<not> po_setgid os c gid then None
      else let c1 = c\<lparr>cr_gid := gid\<rparr> in
        if \<not> po_setgroups os c1 [gid] then None
        else let c2 = c1\<lparr>cr_groups := [gid]\<rparr> in
          if \<not> po_setuid os c2 uid then None else Some (c2\<lparr>cr_uid := uid\<rparr>))"

text \<open>The closure that runs between fork and exec.\<close>

definition pty_pre_exec :: "pty_os \<Rightarrow> (nat \<times> nat) option \<Rightarrow> shell_child \<Rightarrow> shell_child option" where
  "pty_pre_exec os drop_to ch =
     (if \<not> po_setsid os then None
      else let ch1 = ch\<lparr>sc_leader := True\<rparr> in
        if \<not> po_ctty os (sc_leader ch1) then None
        else let ch2 = ch1\<lparr>sc_ctty := True\<rparr> in
          case drop_to of
            None \<Rightarrow> Some ch2
          | Some (uid, gid) \<Rightarrow>
              map_option (\<lambda>c. ch2\<lparr>sc_creds := c\<rparr>) (drop_privileges_in_child os uid gid (sc_creds ch2)))"

definition pty_env :: "pty_os \<Rightarrow> user option \<Rightarrow> (string \<times> string) list" where
  "pty_env os who =
     (case who of
        Some u \<Rightarrow> target_env u @ [(''TERM'', ''xterm'')]
      | None \<Rightarrow> AList.update ''TERM'' ''xterm'' (po_env os))"

text \<open>What a spawn did: the shell that was executed, whether it was killed again (a child dropped on an
  error is), and the result.\<close>

record pty_spawned =
  pt_child :: "shell_child option"
  pt_killed :: bool
  pt_result :: "pty_error + nat option"

definition pty_failed :: "pty_error \<Rightarrow> pty_spawned" where
  "pty_failed e = \<lparr>pt_child = None, pt_killed = False, pt_result = Inl e\<rparr>"

definition pty_spawn :: "pty_os \<Rightarrow> string \<Rightarrow> u16 \<Rightarrow> u16 \<Rightarrow> pty_spawned" where
  "pty_spawn os run_as rows cols =
     (case pty_resolve_user os run_as of
        Inl e \<Rightarrow> pty_failed e
      | Inr who \<Rightarrow>
      (case target_drop os who of
        Inl e \<Rightarrow> pty_failed e
      | Inr drop_to \<Rightarrow>
      if \<not> po_openpty os \<or> \<not> po_cloexec os then pty_failed PtyOpenPty
      else
        let fds = set_cloexec MasterFd open_pty;
            program = (case who of None \<Rightarrow> ''/bin/sh'' | Some u \<Rightarrow> u_shell u) in
        if \<not> list_all (po_dup os) [''stdin'', ''stdout'', ''stderr''] then pty_failed (PtySpawnFailed program)
        else
          let fds' = close_fd SlaveFd fds;
              forked = \<lparr>sc_program = program, sc_size = (rows, cols), sc_stdio = [SlaveFd, SlaveFd, SlaveFd],
                        sc_inherited = inherited fds', sc_env = pty_env os who, sc_creds = po_creds os,
                        sc_leader = False, sc_ctty = False\<rparr> in
          if \<not> po_fork os then pty_failed (PtySpawnFailed program)
          else (case pty_pre_exec os drop_to forked of
            None \<Rightarrow> pty_failed (PtySpawnFailed program)
          | Some ch \<Rightarrow>
              if \<not> po_exec os then pty_failed (PtySpawnFailed program)
              else if \<not> po_master os then \<lparr>pt_child = Some ch, pt_killed = True, pt_result = Inl PtyMasterFailed\<rparr>
              else \<lparr>pt_child = Some ch, pt_killed = False, pt_result = Inr (Some (po_pid os))\<rparr>)))"

text \<open>What the shell stream gets of it: the id of the child.\<close>

definition pty_session :: "pty_os \<Rightarrow> string \<Rightarrow> u16 \<Rightarrow> u16 \<Rightarrow> pty_error + nat option" where
  "pty_session os run_as rows cols = pt_result (pty_spawn os run_as rows cols)"

subsection \<open>Reading and writing the master\<close>

datatype 'a poll = Pending | Ready 'a

definition EIO :: nat where "EIO = 5"
definition EAGAIN :: nat where "EAGAIN = 11"

text \<open>What the kernel does next: not ready yet; readiness fails; the call fails with an error number;
  the call transfers: bytes the shell wrote, or room for that many bytes.\<close>

datatype 'a pty_event = NotReady | ReadyFailed nat | CallFailed nat | Transfer 'a

text \<open>A read takes at most what fits the buffer; the rest stays in the terminal.\<close>

fun poll_read :: "nat \<Rightarrow> bytes pty_event list \<Rightarrow> (nat + bytes) poll \<times> bytes pty_event list" where
  "poll_read cap [] = (Pending, [])"
| "poll_read cap (NotReady # evs) = (Pending, evs)"
| "poll_read cap (ReadyFailed e # evs) = (Ready (Inl e), evs)"
| "poll_read cap (CallFailed e # evs) =
     (if e = EIO then (Ready (Inr []), evs)
      else if e = EAGAIN then poll_read cap evs
      else (Ready (Inl e), evs))"
| "poll_read cap (Transfer bs # evs) =
     (Ready (Inr (take cap bs)), if drop cap bs = [] then evs else Transfer (drop cap bs) # evs)"

fun poll_write :: "bytes \<Rightarrow> nat pty_event list \<Rightarrow> (nat + nat) poll \<times> nat pty_event list" where
  "poll_write buf [] = (Pending, [])"
| "poll_write buf (NotReady # evs) = (Pending, evs)"
| "poll_write buf (ReadyFailed e # evs) = (Ready (Inl e), evs)"
| "poll_write buf (CallFailed e # evs) = (if e = EAGAIN then poll_write buf evs else (Ready (Inl e), evs))"
| "poll_write buf (Transfer n # evs) = (Ready (Inr (min n (length buf))), evs)"

lemma poll_read_shorter: "poll_read cap evs = (Pending, evs') \<Longrightarrow> evs' \<noteq> [] \<Longrightarrow> length evs' < length evs"
  by (induction cap evs rule: poll_read.induct) (auto split: if_splits)

lemma poll_write_shorter: "poll_write buf evs = (r, evs') \<Longrightarrow> r = Pending \<and> evs' = [] \<or> length evs' < length evs"
  by (induction buf evs rule: poll_write.induct) (auto split: if_splits)

text \<open>A task that awaits a read is polled again until it is ready; \<open>None\<close>: it is still waiting after these
  events.\<close>

function read_await :: "nat \<Rightarrow> bytes pty_event list \<Rightarrow> (nat + bytes) option \<times> bytes pty_event list" where
  "read_await cap evs =
     (case poll_read cap evs of
        (Ready r, evs') \<Rightarrow> (Some r, evs')
      | (Pending, evs') \<Rightarrow> if evs' = [] then (None, []) else read_await cap evs')"
  by pat_completeness auto
termination by (relation "measure (\<lambda>(_, evs). length evs)") (auto dest: poll_read_shorter [OF sym])

declare read_await.simps [simp del]

text \<open>The successive reads of a reader that stops at the end of the stream or at an error, which it sees as
  an empty read, with what it never got to read.\<close>

definition event_bytes :: "bytes pty_event list \<Rightarrow> bytes" where
  "event_bytes evs = concat (map (\<lambda>ev. case ev of Transfer bs \<Rightarrow> bs | _ \<Rightarrow> []) evs)"

lemma event_bytes_simps [simp]:
  "event_bytes [] = []" "event_bytes (Transfer bs # evs) = bs @ event_bytes evs" "event_bytes (NotReady # evs) = event_bytes evs"
  "event_bytes (ReadyFailed e # evs) = event_bytes evs" "event_bytes (CallFailed e # evs) = event_bytes evs"
  "event_bytes (es @ evs) = event_bytes es @ event_bytes evs"
  by (simp_all add: event_bytes_def)

lemma poll_read_bytes:
  "poll_read cap evs = (r, evs') \<Longrightarrow> event_bytes evs = (case r of Ready (Inr bs) \<Rightarrow> bs | _ \<Rightarrow> []) @ event_bytes evs'"
  by (induction cap evs rule: poll_read.induct) (auto split: if_splits)

lemma read_await_bytes:
  "read_await cap evs = (r, evs') \<Longrightarrow> event_bytes evs = (case r of Some (Inr bs) \<Rightarrow> bs | _ \<Rightarrow> []) @ event_bytes evs'"
proof (induction cap evs rule: read_await.induct)
  case (1 cap evs)
  obtain q evs1 where q: "poll_read cap evs = (q, evs1)" by (cases "poll_read cap evs")
  show ?case
    using 1 q poll_read_bytes [OF q] by (cases q) (auto simp: read_await.simps [of cap evs] split: if_splits sum.splits)
qed

text \<open>The measure of the loop is the number of bytes and events left, which each read lowers.\<close>

function pty_reads :: "nat \<Rightarrow> bytes pty_event list \<Rightarrow> bytes list" where
  "pty_reads cap evs =
     (case read_await cap evs of
        (Some (Inr bs), evs') \<Rightarrow> if bs = [] then [[]] else bs # pty_reads cap evs'
      | (Some (Inl _), _) \<Rightarrow> [[]]
      | (None, _) \<Rightarrow> [])"
  by pat_completeness auto
termination
proof (relation "measure (\<lambda>(_, evs). length (event_bytes evs))", simp, goal_cases)
  case (1 cap evs x evs' y bs)
  then show ?case using read_await_bytes [of cap evs x evs'] by (auto split: option.splits sum.splits)
qed

declare pty_reads.simps [simp del]

text \<open>\<open>write_all\<close>: the bytes that reached the terminal, and whether all did.\<close>

function write_all :: "bytes \<Rightarrow> nat pty_event list \<Rightarrow> bytes \<times> bool option \<times> nat pty_event list" where
  "write_all buf evs =
     (if buf = [] then ([], Some True, evs)
      else case poll_write buf evs of
        (Pending, evs') \<Rightarrow> if evs' = [] then ([], None, []) else write_all buf evs'
      | (Ready (Inl _), evs') \<Rightarrow> ([], Some False, evs')
      | (Ready (Inr n), evs') \<Rightarrow>
          if n = 0 then ([], Some False, evs')
          else (case write_all (drop n buf) evs' of (w, r, evs'') \<Rightarrow> (take n buf @ w, r, evs'')))"
  by pat_completeness auto
termination by (relation "measure (\<lambda>(_, evs). length evs)") (auto dest: poll_write_shorter [OF sym])

declare write_all.simps [simp del]

text \<open>The write pump on the chunks it receives: what reaches the terminal until a write fails.\<close>

fun pty_writes :: "bytes list \<Rightarrow> nat pty_event list \<Rightarrow> bytes" where
  "pty_writes [] evs = []"
| "pty_writes (d # ds) evs =
     (case write_all d evs of
        (w, Some True, evs') \<Rightarrow> w @ pty_writes ds evs'
      | (w, _, _) \<Rightarrow> w)"

subsection \<open>Processes\<close>

record proc =
  pr_group :: nat
  pr_running :: bool

type_synonym procs = "nat \<Rightarrow> proc option"

text \<open>\<open>SIGKILL\<close> to a group and to one process, and the wait that removes an ended child from the table.\<close>

definition kill_group :: "nat \<Rightarrow> procs \<Rightarrow> procs" where
  "kill_group g ps = (\<lambda>p. map_option (\<lambda>q. if pr_group q = g then q\<lparr>pr_running := False\<rparr> else q) (ps p))"

definition kill_proc :: "nat \<Rightarrow> procs \<Rightarrow> procs" where
  "kill_proc pid ps = (\<lambda>p. if p = pid then map_option (pr_running_update (\<lambda>_. False)) (ps p) else ps p)"

definition reap :: "nat \<Rightarrow> procs \<Rightarrow> procs option" where
  "reap pid ps =
     (case ps pid of
        Some q \<Rightarrow> if pr_running q then None else Some (ps(pid := None))
      | None \<Rightarrow> Some ps)"

text \<open>\<open>pid\<close>: the id of a child that was not waited for yet.  \<open>None\<close>: the wait does not return.\<close>

definition pty_wait :: "nat option \<Rightarrow> procs \<Rightarrow> procs option" where
  "pty_wait pid ps = (case pid of None \<Rightarrow> Some ps | Some p \<Rightarrow> reap p ps)"

definition pty_shutdown :: "nat option \<Rightarrow> procs \<Rightarrow> procs option" where
  "pty_shutdown pid ps =
     (let ps1 = (case pid of Some p \<Rightarrow> kill_group p ps | None \<Rightarrow> ps);
          ps2 = (case pid of Some p \<Rightarrow> kill_proc p ps1 | None \<Rightarrow> ps1)
      in pty_wait pid ps2)"

text \<open>Dropping a shell stream: the group is signalled, and the dropped child is killed and then waited for
  by the runtime.\<close>

definition shell_stream_dropped :: "shell_stream \<Rightarrow> procs \<Rightarrow> procs option" where
  "shell_stream_dropped st ps =
     (case shell_drop st of
        None \<Rightarrow> Some ps
      | Some pid \<Rightarrow> reap pid (kill_proc pid (kill_group pid ps)))"

subsection \<open>The terminal's output is read completely\<close>

text \<open>Nothing but output and spurious wake-ups.\<close>

fun flowing :: "bytes pty_event \<Rightarrow> bool" where
  "flowing NotReady \<longleftrightarrow> True"
| "flowing (ReadyFailed e) \<longleftrightarrow> False"
| "flowing (CallFailed e) \<longleftrightarrow> e = EAGAIN"
| "flowing (Transfer bs) \<longleftrightarrow> bs \<noteq> []"

lemma read_await_flow:
  assumes "list_all flowing pre" "0 < cap"
  shows "if event_bytes pre = [] then read_await cap (pre @ CallFailed EIO # post) = (Some (Inr []), post)
    else \<exists>c pre'. read_await cap (pre @ CallFailed EIO # post) = (Some (Inr c), pre' @ CallFailed EIO # post)
      \<and> c \<noteq> [] \<and> length c \<le> cap \<and> event_bytes pre = c @ event_bytes pre' \<and> list_all flowing pre'"
  using assms(1)
proof (induction pre)
  case Nil
  then show ?case by (simp add: read_await.simps [of cap "CallFailed EIO # post"])
next
  case (Cons ev pre)
  then have pre: "list_all flowing pre" by simp
  show ?case
  proof (cases ev)
    case NotReady
    then have "read_await cap ((ev # pre) @ CallFailed EIO # post) = read_await cap (pre @ CallFailed EIO # post)"
      by (simp add: read_await.simps [of cap "NotReady # _"])
    then show ?thesis using Cons.IH [OF pre] NotReady by simp
  next
    case (CallFailed e)
    then have "e = EAGAIN" "e \<noteq> EIO" using Cons.prems by (simp_all add: EAGAIN_def EIO_def)
    then have "poll_read cap ((ev # pre) @ CallFailed EIO # post) = poll_read cap (pre @ CallFailed EIO # post)"
      using CallFailed by simp
    then have "read_await cap ((ev # pre) @ CallFailed EIO # post) = read_await cap (pre @ CallFailed EIO # post)"
      by (subst (1 2) read_await.simps) (simp only:)
    then show ?thesis using Cons.IH [OF pre] CallFailed by simp
  next
    case (Transfer bs)
    define pre' where "pre' = (if drop cap bs = [] then pre else Transfer (drop cap bs) # pre)"
    have "bs \<noteq> []" using Cons.prems Transfer by simp
    moreover have "read_await cap ((ev # pre) @ CallFailed EIO # post) = (Some (Inr (take cap bs)), pre' @ CallFailed EIO # post)"
      using Transfer by (simp add: read_await.simps [of cap "Transfer bs # _"] pre'_def)
    moreover have "event_bytes (ev # pre) = take cap bs @ event_bytes pre'" using Transfer by (auto simp: pre'_def)
    ultimately show ?thesis using Transfer pre assms(2) by (auto simp: pre'_def)
  qed (use Cons.prems in simp)
qed

lemma pty_reads_flow:
  assumes "list_all flowing pre" "0 < cap"
  shows "\<exists>chunks. pty_reads cap (pre @ CallFailed EIO # post) = chunks @ [[]] \<and> concat chunks = event_bytes pre
    \<and> list_all (\<lambda>c. c \<noteq> [] \<and> length c \<le> cap) chunks"
  using assms(1)
proof (induction "length (event_bytes pre)" arbitrary: pre rule: less_induct)
  case less
  note r = read_await_flow [OF less.prems assms(2), of post]
  show ?case
  proof (cases "event_bytes pre = []")
    case True
    then show ?thesis using r by (intro exI [of _ "[]"]) (simp add: pty_reads.simps)
  next
    case False
    then obtain c pre' where c: "read_await cap (pre @ CallFailed EIO # post) = (Some (Inr c), pre' @ CallFailed EIO # post)"
        "c \<noteq> []" "length c \<le> cap" "event_bytes pre = c @ event_bytes pre'" "list_all flowing pre'"
      using r by auto
    obtain chunks where "pty_reads cap (pre' @ CallFailed EIO # post) = chunks @ [[]]" "concat chunks = event_bytes pre'"
        "list_all (\<lambda>c. c \<noteq> [] \<and> length c \<le> cap) chunks"
      using less.hyps [of pre'] c(2,4,5) by auto
    then show ?thesis using c by (intro exI [of _ "c # chunks"]) (simp add: pty_reads.simps [of cap "pre @ _"])
  qed
qed

lemma write_all_prefix:
  "write_all buf evs = (w, r, evs') \<Longrightarrow> \<exists>rest. buf = w @ rest \<and> (r = Some True \<longrightarrow> rest = [])"
proof (induction buf evs arbitrary: w r evs' rule: write_all.induct)
  case (1 buf evs)
  show ?case
  proof (cases "buf = []")
    case False
    obtain q evs1 where q: "poll_write buf evs = (q, evs1)" by (cases "poll_write buf evs")
    show ?thesis
    proof (cases q)
      case Pending
      then show ?thesis using 1 False q by (auto simp: write_all.simps [of buf evs] split: if_splits)
    next
      case (Ready res)
      show ?thesis
      proof (cases res)
        case (Inl e)
        then show ?thesis using 1(3) False q Ready by (auto simp: write_all.simps [of buf evs])
      next
        case (Inr n)
        obtain w2 r2 evs2 where w2: "write_all (drop n buf) evs1 = (w2, r2, evs2)" by (cases "write_all (drop n buf) evs1") auto
        show ?thesis
        proof (cases "n = 0")
          case True
          then show ?thesis using 1(3) False q Ready Inr by (auto simp: write_all.simps [of buf evs])
        next
          case n: False
          have "\<exists>rest. drop n buf = w2 @ rest \<and> (r2 = Some True \<longrightarrow> rest = [])"
            using 1(2) [OF False q [symmetric] Ready Inr n w2] .
          moreover have "w = take n buf @ w2" "r = r2"
            using 1(3) False q Ready Inr n w2 by (auto simp: write_all.simps [of buf evs])
          ultimately show ?thesis by (metis append.assoc append_take_drop_id)
        qed
      qed
    qed
  qed (use 1(3) in \<open>simp add: write_all.simps\<close>)
qed

lemma pty_writes_prefix: "\<exists>rest. concat ds = pty_writes ds evs @ rest"
proof (induction ds arbitrary: evs)
  case (Cons d ds)
  obtain w r evs' where w: "write_all d evs = (w, r, evs')" by (cases "write_all d evs") auto
  obtain rest where rest: "d = w @ rest" "r = Some True \<longrightarrow> rest = []" using write_all_prefix [OF w] by blast
  show ?case
  proof (cases "r = Some True")
    case True
    then show ?thesis using w rest Cons.IH [of evs'] by auto
  next
    case False
    then have "pty_writes (d # ds) evs = w" using w by (auto split: option.splits bool.splits)
    then show ?thesis using rest by simp
  qed
qed simp

subsection \<open>Shells are isolated and confined\<close>

lemma close_on_exec [simp]: "inherited (close_fd SlaveFd (set_cloexec MasterFd open_pty)) = []"
  by (simp add: inherited_def close_fd_def set_cloexec_def open_pty_def)

text \<open>Between opening the terminal and setting the flag, a child forked elsewhere gets both ends; until the
  slave is closed, it gets the slave.\<close>

lemma concurrent_fork_inherits:
  "inherited open_pty = [MasterFd, SlaveFd]" "inherited (set_cloexec MasterFd open_pty) = [SlaveFd]"
  by (simp_all add: inherited_def set_cloexec_def open_pty_def)

definition isolated :: "shell_child \<Rightarrow> bool" where
  "isolated ch \<longleftrightarrow> sc_leader ch \<and> sc_ctty ch \<and> sc_stdio ch = [SlaveFd, SlaveFd, SlaveFd] \<and> sc_inherited ch = []"

definition confined :: "pty_os \<Rightarrow> string \<Rightarrow> shell_child \<Rightarrow> bool" where
  "confined os run_as ch \<longleftrightarrow>
     (if run_as = [] then sc_creds ch = po_creds os \<and> sc_program ch = ''/bin/sh''
      else \<exists>u. po_getpwnam os run_as = Some (Some u) \<and> sc_program ch = u_shell u
        \<and> sc_creds ch = \<lparr>cr_uid = u_uid u, cr_gid = u_gid u, cr_groups = [u_gid u]\<rparr>
        \<and> sc_env ch = target_env u @ [(''TERM'', ''xterm'')])"

lemma drop_privileges_complete:
  "drop_privileges_in_child os uid gid c = Some c' \<Longrightarrow> c' = \<lparr>cr_uid = uid, cr_gid = gid, cr_groups = [gid]\<rparr>"
  by (auto simp: drop_privileges_in_child_def Let_def split: if_splits)

lemma pre_exec_Some:
  assumes "pty_pre_exec os drop_to ch = Some ch'"
  shows "sc_leader ch' \<and> sc_ctty ch' \<and> sc_stdio ch' = sc_stdio ch \<and> sc_inherited ch' = sc_inherited ch \<and> sc_program ch' = sc_program ch
    \<and> sc_env ch' = sc_env ch \<and> sc_size ch' = sc_size ch
    \<and> sc_creds ch' = (case drop_to of None \<Rightarrow> sc_creds ch | Some (uid, gid) \<Rightarrow> \<lparr>cr_uid = uid, cr_gid = gid, cr_groups = [gid]\<rparr>)"
  using assms by (auto simp: pty_pre_exec_def Let_def dest: drop_privileges_complete split: if_splits option.splits)

lemma pty_spawn_child:
  assumes "pt_child (pty_spawn os run_as rows cols) = Some ch"
  shows "isolated ch \<and> confined os run_as ch \<and> sc_size ch = (rows, cols)"
proof -
  obtain who drop_to where who: "pty_resolve_user os run_as = Inr who" "target_drop os who = Inr drop_to"
    using assms by (cases "pty_resolve_user os run_as"; cases "target_drop os (projr (pty_resolve_user os run_as))")
      (auto simp: pty_spawn_def pty_failed_def)
  let ?program = "case who of None \<Rightarrow> ''/bin/sh'' | Some u \<Rightarrow> u_shell u"
  have "pty_pre_exec os drop_to \<lparr>sc_program = ?program, sc_size = (rows, cols), sc_stdio = [SlaveFd, SlaveFd, SlaveFd],
      sc_inherited = [], sc_env = pty_env os who, sc_creds = po_creds os, sc_leader = False, sc_ctty = False\<rparr> = Some ch"
    using assms who by (simp add: pty_spawn_def pty_failed_def Let_def split: if_splits option.splits)
  note ch = pre_exec_Some [OF this]
  show ?thesis
  proof (cases who)
    case None
    then have "run_as = []" "drop_to = None"
      using who by (auto simp: pty_resolve_user_def target_drop_def split: if_splits option.splits)
    then show ?thesis using ch None by (simp add: isolated_def confined_def)
  next
    case (Some u)
    then have "run_as \<noteq> []" "po_getpwnam os run_as = Some (Some u)" "drop_to = Some (u_uid u, u_gid u)"
      using who by (auto simp: pty_resolve_user_def target_drop_def split: if_splits option.splits)
    then show ?thesis using ch Some by (simp add: isolated_def confined_def pty_env_def)
  qed
qed

lemma pty_spawn_result:
  "pt_result (pty_spawn os run_as rows cols) = Inr pid \<Longrightarrow>
     pid = Some (po_pid os) \<and> \<not> pt_killed (pty_spawn os run_as rows cols) \<and> (\<exists>ch. pt_child (pty_spawn os run_as rows cols) = Some ch)"
  by (auto simp: pty_spawn_def pty_failed_def Let_def split: sum.splits if_splits option.splits)

lemma pty_spawn_failure:
  "pt_result (pty_spawn os run_as rows cols) = Inl e \<Longrightarrow>
     pt_child (pty_spawn os run_as rows cols) = None \<or> pt_killed (pty_spawn os run_as rows cols)"
  by (auto simp: pty_spawn_def pty_failed_def Let_def split: sum.splits if_splits option.splits)

text \<open>A kernel where only a session leader claims a terminal and only root changes its identity.\<close>

definition strict_kernel :: "pty_os \<Rightarrow> bool" where
  "strict_kernel os \<longleftrightarrow> (\<forall>leader. po_ctty os leader = leader)
     \<and> (\<forall>c g. po_setgid os c g = (cr_uid c = 0)) \<and> (\<forall>c gs. po_setgroups os c gs = (cr_uid c = 0))
     \<and> (\<forall>c u. po_setuid os c u = (cr_uid c = 0))"

definition resources :: "pty_os \<Rightarrow> bool" where
  "resources os \<longleftrightarrow> po_can_drop os \<and> po_openpty os \<and> po_cloexec os \<and> list_all (po_dup os) [''stdin'', ''stdout'', ''stderr'']
     \<and> po_fork os \<and> po_setsid os \<and> po_exec os \<and> po_master os"

lemma root_spawns:
  assumes "strict_kernel os" "resources os" "cr_uid (po_creds os) = 0" "po_getpwnam os run_as = Some (Some u) \<or> run_as = []"
  shows "pt_result (pty_spawn os run_as rows cols) = Inr (Some (po_pid os))"
  using assms
  by (auto simp: pty_spawn_def pty_resolve_user_def target_drop_def pty_pre_exec_def drop_privileges_in_child_def strict_kernel_def
      resources_def Let_def)

lemma on_publish_opened:
  assumes "cc' = on_publish C P pty ident backstop topics ok topic payload cc" "cc_opened cc' \<noteq> cc_opened cc"
  obtains d :: dispatch_msg and rows cols pid and stream :: shell_stream where "dm_kind d = SHELL_KIND"
    "la_permits backstop \<lparr>ad_kind = SHELL_KIND, ad_target = [], ad_run_as = dm_run_as d, ad_params_hash = []\<rparr> = Inr ()"
    "0 < rows" "0 < cols" "pty (dm_run_as d) rows cols = Inr pid" "cc_active cc' = Some stream" "ss_pid stream = pid"
proof -
  obtain est0 d est where "topic = st_dispatch_down topics" "cc_session cc = Some est0" "open_dispatch C P est0 payload = (Some d, est)"
    and act: "cc' = (if dm_kind d = SHELL_KIND then handle_shell_open C P pty est backstop d (cc\<lparr>cc_session := Some est\<rparr>)
      else handle_job est ident d (cc\<lparr>cc_session := Some est\<rparr>))"
    by (rule on_publish_acts [OF assms(1) disjI2 [OF assms(2)]])
  have kind: "dm_kind d = SHELL_KIND" using act assms(2) by (auto simp: handle_job_simps split: if_splits)
  with act have d: "cc' = handle_shell_open C P pty est backstop d (cc\<lparr>cc_session := Some est\<rparr>)" by simp
  define params where "params = (case decode_msg (sp_codec P) (dm_params d) of None \<Rightarrow> \<lparr>sp_rows = 0, sp_cols = 0\<rparr> | Some p \<Rightarrow> p)"
  define rows where "rows = clamp_dim (sp_rows params) DEFAULT_ROWS"
  define cols where "cols = clamp_dim (sp_cols params) DEFAULT_COLS"
  have "0 < rows" "0 < cols" by (simp_all add: rows_def cols_def clamp_dim_pos DEFAULT_ROWS_def DEFAULT_COLS_def)
  moreover have "la_permits backstop \<lparr>ad_kind = SHELL_KIND, ad_target = [], ad_run_as = dm_run_as d, ad_params_hash = []\<rparr> = Inr ()"
    "\<exists>stream pid. pty (dm_run_as d) rows cols = Inr pid \<and> cc_active cc' = Some stream \<and> ss_pid stream = pid"
    using assms(2) kind unfolding d rows_def cols_def params_def
    by (auto simp: handle_shell_open_def shell_open_def Let_def split: if_splits sum.splits)
  ultimately show thesis using that [OF kind, of rows cols] by metis
qed

text \<open>
  C16.  A shell is isolated and confined.  Whenever a publish makes the agent open a shell, the host's
  backstop permits it for the dispatch's user, and the process behind the terminal is its own session
  leader with the terminal as controlling terminal, has the terminal's slave as its three standard
  descriptors and inherits no other end of it, and runs with exactly the user's uid, primary group as the
  only group, shell and minimal environment (the agent's own identity when no user is named), at a size
  of at least one row and column.  A spawn that fails leaves no running shell.  And on a kernel where
  only a session leader claims a terminal and only root changes identities, an agent that runs as root
  can always open a shell as a known user.
\<close>

theorem shell_isolated_and_confined:
  assumes "cc' = on_publish C P (pty_session os) ident backstop topics ok topic payload cc" "cc_opened cc' \<noteq> cc_opened cc"
  shows "(\<exists>(d :: dispatch_msg) rows cols ch (stream :: shell_stream). dm_kind d = SHELL_KIND
      \<and> la_permits backstop \<lparr>ad_kind = SHELL_KIND, ad_target = [], ad_run_as = dm_run_as d, ad_params_hash = []\<rparr> = Inr ()
      \<and> pt_child (pty_spawn os (dm_run_as d) rows cols) = Some ch \<and> \<not> pt_killed (pty_spawn os (dm_run_as d) rows cols)
      \<and> isolated ch \<and> confined os (dm_run_as d) ch \<and> sc_size ch = (rows, cols) \<and> 0 < rows \<and> 0 < cols
      \<and> cc_active cc' = Some stream \<and> ss_pid stream = Some (po_pid os))
    \<and> (\<forall>user rows cols e. pt_result (pty_spawn os user rows cols) = Inl e
        \<longrightarrow> pt_child (pty_spawn os user rows cols) = None \<or> pt_killed (pty_spawn os user rows cols))
    \<and> (strict_kernel os \<and> resources os \<and> cr_uid (po_creds os) = 0
        \<longrightarrow> (\<forall>user u rows cols. po_getpwnam os user = Some (Some u) \<longrightarrow> pt_result (pty_spawn os user rows cols) = Inr (Some (po_pid os))))"
proof (intro conjI)
  obtain d :: dispatch_msg and rows cols pid and stream :: shell_stream where d: "dm_kind d = SHELL_KIND"
    "la_permits backstop \<lparr>ad_kind = SHELL_KIND, ad_target = [], ad_run_as = dm_run_as d, ad_params_hash = []\<rparr> = Inr ()"
    "0 < rows" "0 < cols" "pt_result (pty_spawn os (dm_run_as d) rows cols) = Inr pid" "cc_active cc' = Some stream" "ss_pid stream = pid"
    by (rule on_publish_opened [OF assms, unfolded pty_session_def])
  then obtain ch where ch: "pt_child (pty_spawn os (dm_run_as d) rows cols) = Some ch" "pid = Some (po_pid os)" "\<not> pt_killed (pty_spawn os (dm_run_as d) rows cols)"
    using pty_spawn_result [OF d(5)] by blast
  show "\<exists>(d :: dispatch_msg) rows cols ch (stream :: shell_stream). dm_kind d = SHELL_KIND
      \<and> la_permits backstop \<lparr>ad_kind = SHELL_KIND, ad_target = [], ad_run_as = dm_run_as d, ad_params_hash = []\<rparr> = Inr ()
      \<and> pt_child (pty_spawn os (dm_run_as d) rows cols) = Some ch \<and> \<not> pt_killed (pty_spawn os (dm_run_as d) rows cols)
      \<and> isolated ch \<and> confined os (dm_run_as d) ch \<and> sc_size ch = (rows, cols) \<and> 0 < rows \<and> 0 < cols
      \<and> cc_active cc' = Some stream \<and> ss_pid stream = Some (po_pid os)"
    by (rule exI [of _ d], rule exI [of _ rows], rule exI [of _ cols], rule exI [of _ ch], rule exI [of _ stream])
      (use d ch pty_spawn_child [OF ch(1)] in simp)
qed (use pty_spawn_failure root_spawns in blast)+

definition sample_pty :: pty_os where
  "sample_pty =
     \<lparr>po_creds = \<lparr>cr_uid = 0, cr_gid = 0, cr_groups = [0, 27]\<rparr>, po_env = [(''LD_PRELOAD'', ''x'')],
      po_getpwnam = os_getpwnam sample_os, po_can_drop = True, po_openpty = True, po_cloexec = True, po_dup = (\<lambda>_. True),
      po_fork = True, po_setsid = True, po_ctty = (\<lambda>leader. leader), po_setgid = (\<lambda>c _. cr_uid c = 0),
      po_setgroups = (\<lambda>c _. cr_uid c = 0), po_setuid = (\<lambda>c _. cr_uid c = 0), po_exec = True, po_master = True, po_pid = 77\<rparr>"

definition sample_open :: conn_event where
  "sample_open = Incoming True (dispatch_down ''h'') [] (pty_session sample_pty)"

definition sample_opened :: agent_conn where
  "sample_opened = conn_step toy_crypto sample_prost sample_ident (la_new [''shell''] [''deploy'']) (heartbeat ''h'') (for_host ''h'') sample_open sample_conn"

lemma sample_spawns: "pty_session sample_pty ''deploy'' rows cols = Inr (Some 77)"
proof -
  have laws: "strict_kernel sample_pty" "resources sample_pty" "cr_uid (po_creds sample_pty) = 0"
      "\<exists>u. po_getpwnam sample_pty ''deploy'' = Some (Some u)"
    by (simp_all add: strict_kernel_def resources_def sample_pty_def sample_os_def)
  then show ?thesis using root_spawns [of sample_pty "''deploy''" _ rows cols] by (auto simp: pty_session_def) (simp add: sample_pty_def)
qed

lemma sample_opened_simps:
  "cc_opened sample_opened = [''s1'']" "\<exists>stream. cc_active sample_opened = Some stream \<and> ss_pid stream = Some 77"
proof -
  have o: "open_envelope toy_crypto \<lparr>c2a = 1, a2c = 2\<rparr> CoordToAgent sample_envelope = Some [1]"
    unfolding sample_envelope_def by (rule open_seal_envelope [OF toy_crypto_laws(1)])
  show "cc_opened sample_opened = [''s1'']" "\<exists>stream. cc_active sample_opened = Some stream \<and> ss_pid stream = Some 77"
    by (simp_all add: sample_opened_def sample_open_def on_publish_def for_host_def hs_down_def ctrl_down_def dispatch_down_def sample_conn_def conn_init_def
        open_dispatch_def sample_prost_def o open_downlink_def accept_recv_def sample_shell_def handle_shell_open_def MAX_STREAM_ID_LEN_def
        MAX_SHELLS_PER_SESSION_def la_permits_def la_new_def SHELL_KIND_def shell_open_def sample_spawns Let_def)
qed

theorem shell_isolated_and_confined_witness:
  "\<exists>user rows cols ch. user \<noteq> [] \<and> pt_child (pty_spawn sample_pty user rows cols) = Some ch \<and> isolated ch \<and> confined sample_pty user ch"
proof -
  have cc': "sample_opened = on_publish toy_crypto sample_prost (pty_session sample_pty) sample_ident (la_new [''shell''] [''deploy''])
    (for_host ''h'') True (dispatch_down ''h'') [] sample_conn"
    by (simp add: sample_opened_def sample_open_def)
  have "cc_opened sample_opened \<noteq> cc_opened sample_conn" by (simp add: sample_opened_simps sample_conn_def conn_init_def)
  from shell_isolated_and_confined [OF cc' this, THEN conjunct1]
  obtain d :: dispatch_msg and rows cols ch where d:
      "la_permits (la_new [''shell''] [''deploy'']) \<lparr>ad_kind = SHELL_KIND, ad_target = [], ad_run_as = dm_run_as d, ad_params_hash = []\<rparr> = Inr ()"
      "pt_child (pty_spawn sample_pty (dm_run_as d) rows cols) = Some ch" "isolated ch" "confined sample_pty (dm_run_as d) ch"
    by blast
  have "dm_run_as d \<noteq> []" using d(1) by (auto simp: la_permits_def la_new_def SHELL_KIND_def)
  then show ?thesis using d by blast
qed

subsection \<open>Shells do not outlive their stream\<close>

lemma stopped_iff: "z = z\<lparr>pr_running := False\<rparr> \<longleftrightarrow> \<not> pr_running (z :: proc)"
  by (cases z) simp

text \<open>What a kill of the group followed by the wait for its leader does; both ways of ending a shell are it.\<close>

definition torn_down :: "nat \<Rightarrow> procs \<Rightarrow> procs \<Rightarrow> bool" where
  "torn_down pid ps ps' \<longleftrightarrow> ps' pid = None \<and> (\<forall>p q. ps' p = Some q \<and> pr_running q \<longrightarrow> pr_group q \<noteq> pid \<and> ps p = Some q)
     \<and> (\<forall>p q. ps p = Some q \<and> p \<noteq> pid \<longrightarrow> (\<exists>q'. ps' p = Some q' \<and> pr_group q' = pr_group q \<and> (pr_group q \<noteq> pid \<longrightarrow> q' = q)))
     \<and> (\<forall>p. ps p = None \<longrightarrow> ps' p = None)"

lemma shell_ended:
  "\<exists>ps'. reap pid (kill_proc pid (kill_group pid ps)) = Some ps' \<and> torn_down pid ps ps'"
proof -
  let ?ps = "(kill_proc pid (kill_group pid ps))(pid := None)"
  have "reap pid (kill_proc pid (kill_group pid ps)) = Some ?ps"
    by (cases "ps pid") (auto simp: reap_def kill_proc_def kill_group_def)
  moreover have "torn_down pid ps ?ps"
    by (auto simp: torn_down_def kill_proc_def kill_group_def stopped_iff split: if_splits)
  ultimately show ?thesis by blast
qed

lemma shutdown_ends: "\<exists>ps'. pty_shutdown (Some pid) ps = Some ps' \<and> torn_down pid ps ps'"
  using shell_ended by (simp add: pty_shutdown_def pty_wait_def)

text \<open>A shell with job control puts each job into a group of its own, which the signal does not reach.\<close>

lemma own_group_survives:
  assumes "ps job = Some \<lparr>pr_group = job, pr_running = True\<rparr>" "job \<noteq> pid" "pty_shutdown (Some pid) ps = Some ps'"
  shows "ps' job = Some \<lparr>pr_group = job, pr_running = True\<rparr>"
  using assms shutdown_ends [of pid ps] by (force simp: torn_down_def)

text \<open>
  A connection with the processes of the host.  \<open>opens\<close>: the step opened a shell.  A stream that is
  replaced or removed is dropped, after the new one was spawned.  The kernel gives a new process an id
  that is neither a process nor a group, forks within a group, ends processes at any time, and removes
  ended ones except the child of the live stream, which nobody waited for.
\<close>

definition opens :: "agent_conn \<Rightarrow> agent_conn \<Rightarrow> bool" where
  "opens cc cc' \<longleftrightarrow> length (cc_opened cc') > length (cc_opened cc)"

definition fresh_pid :: "procs \<Rightarrow> nat \<Rightarrow> bool" where
  "fresh_pid ps pid \<longleftrightarrow> ps pid = None \<and> (\<forall>p q. ps p = Some q \<longrightarrow> pr_group q \<noteq> pid)"

definition drop_active :: "agent_conn \<Rightarrow> procs \<Rightarrow> procs option" where
  "drop_active cc ps = (case cc_active cc of None \<Rightarrow> Some ps | Some st \<Rightarrow> shell_stream_dropped st ps)"

inductive host_run ::
  "crypto \<Rightarrow> codecs \<Rightarrow> agent_identity \<Rightarrow> local_allowlist \<Rightarrow> string \<Rightarrow> session_topics \<Rightarrow> agent_conn \<Rightarrow> procs \<Rightarrow> nat set \<Rightarrow> bool"
  for C P ident backstop beat topics
where
  start: "cc_active cc = None \<Longrightarrow> host_run C P ident backstop beat topics cc ps {}"
| keep: "host_run C P ident backstop beat topics cc ps shells \<Longrightarrow> cc' = conn_step C P ident backstop beat topics ev cc \<Longrightarrow> \<not> opens cc cc'
    \<Longrightarrow> cc_active cc' \<noteq> None \<or> cc_active cc = None \<Longrightarrow> host_run C P ident backstop beat topics cc' ps shells"
| close: "host_run C P ident backstop beat topics cc ps shells \<Longrightarrow> cc' = conn_step C P ident backstop beat topics ev cc
    \<Longrightarrow> cc_active cc' = None \<Longrightarrow> drop_active cc ps = Some ps' \<Longrightarrow> host_run C P ident backstop beat topics cc' ps' shells"
| open_shell: "host_run C P ident backstop beat topics cc ps shells \<Longrightarrow> cc' = conn_step C P ident backstop beat topics ev cc \<Longrightarrow> opens cc cc'
    \<Longrightarrow> cc_active cc' = Some st \<Longrightarrow> ss_pid st = Some pid \<Longrightarrow> fresh_pid ps pid
    \<Longrightarrow> drop_active cc (ps(pid \<mapsto> \<lparr>pr_group = pid, pr_running = True\<rparr>)) = Some ps'
    \<Longrightarrow> host_run C P ident backstop beat topics cc' ps' (insert pid shells)"
| fork: "host_run C P ident backstop beat topics cc ps shells \<Longrightarrow> ps p = Some q \<Longrightarrow> pr_running q \<Longrightarrow> fresh_pid ps child
    \<Longrightarrow> host_run C P ident backstop beat topics cc (ps(child \<mapsto> q)) shells"
| exit: "host_run C P ident backstop beat topics cc ps shells \<Longrightarrow> ps p = Some q
    \<Longrightarrow> host_run C P ident backstop beat topics cc (ps(p \<mapsto> q\<lparr>pr_running := False\<rparr>)) shells"
| reaped: "host_run C P ident backstop beat topics cc ps shells \<Longrightarrow> ps p = Some q \<Longrightarrow> \<not> pr_running q
    \<Longrightarrow> (\<forall>st. cc_active cc = Some st \<longrightarrow> ss_pid st \<noteq> Some p) \<Longrightarrow> host_run C P ident backstop beat topics cc (ps(p := None)) shells"

lemma on_publish_active:
  assumes "cc_active (on_publish C P pty ident backstop topics ok topic payload cc) = Some st"
    "\<not> opens cc (on_publish C P pty ident backstop topics ok topic payload cc)"
  shows "\<exists>st0. cc_active cc = Some st0 \<and> ss_pid st0 = ss_pid st"
proof (cases "topic = st_dispatch_down topics \<and> topic \<noteq> st_hs_down topics \<and> topic \<noteq> st_ctrl_down topics")
  case True
  have "cc_active (on_publish C P pty ident backstop topics ok topic payload cc) = cc_active cc"
    using assms(2) True
    by (auto simp: on_publish_def opens_def handle_job_def handle_shell_open_def Let_def split: option.splits prod.splits sum.splits if_splits)
  then show ?thesis using assms(1) by metis
next
  case False
  have route: "route_downlink C P st0 env = (keep, st1) \<Longrightarrow> ss_pid st1 = ss_pid st0" for st0 st1 keep env
    by (auto simp: route_downlink_def shell_open_downlink_def downlink_try_send_def split: option.splits prod.splits if_splits)
  show ?thesis
    using assms(1) False route
    by (auto simp: on_publish_def Let_def split: option.splits prod.splits sum.splits if_splits)
qed

lemma conn_step_active:
  assumes "cc_active (conn_step C P ident backstop beat topics ev cc) = Some st" "\<not> opens cc (conn_step C P ident backstop beat topics ev cc)"
  shows "\<exists>st0. cc_active cc = Some st0 \<and> ss_pid st0 = ss_pid st"
proof (cases ev)
  case (ConnAck epoch e)
  have "cc_active (snd (begin_handshake C P ident topics e ep cc)) = cc_active cc" for ep cc
    by (auto simp: begin_handshake_def Let_def split: sum.split prod.split)
  then have hs: "cc_active cc' = cc_active cc1" if "begin_handshake C P ident topics e ep cc1 = (hs, cc')" for ep cc1 hs cc'
    using that by (metis snd_conv)
  have "cc_active (conn_step C P ident backstop beat topics ev cc) = cc_active cc"
    unfolding ConnAck by (auto simp: Let_def publish_heartbeat_def split: sum.split prod.split dest!: hs)
  then show ?thesis using assms(1) by metis
next
  case (Incoming ok topic payload pty)
  then show ?thesis using assms on_publish_active by simp
next
  case (HeartbeatTick ok)
  then show ?thesis using assms(1) by (auto simp: publish_heartbeat_def split: if_splits)
next
  case (JobFinished i)
  then show ?thesis using assms(1) by (auto split: if_splits)
next
  case Disconnected
  then show ?thesis using assms(1) by (simp add: conn_reset_def)
qed

definition shell_inv :: "agent_conn \<Rightarrow> procs \<Rightarrow> nat set \<Rightarrow> bool" where
  "shell_inv cc ps shells \<longleftrightarrow> (\<forall>p q. ps p = Some q \<and> pr_running q \<and> pr_group q \<in> shells
     \<longrightarrow> (\<exists>st. cc_active cc = Some st \<and> ss_pid st = Some (pr_group q)))"

lemma drop_active_Some:
  "\<exists>ps'. drop_active cc ps = Some ps' \<and> (\<forall>p q. ps' p = Some q \<and> pr_running q
     \<longrightarrow> ps p = Some q \<and> (\<forall>st. cc_active cc = Some st \<longrightarrow> ss_pid st \<noteq> Some (pr_group q)))"
proof (cases "\<exists>st pid. cc_active cc = Some st \<and> ss_pid st = Some pid")
  case True
  then obtain st pid where st: "cc_active cc = Some st" "ss_pid st = Some pid" by blast
  obtain ps' where ps': "reap pid (kill_proc pid (kill_group pid ps)) = Some ps'" "torn_down pid ps ps'" using shell_ended by blast
  then have "drop_active cc ps = Some ps'" using st by (simp add: drop_active_def shell_stream_dropped_def shell_drop_def)
  then show ?thesis using ps'(2) st by (auto simp: torn_down_def)
next
  case False
  then have "drop_active cc ps = Some ps" by (auto simp: drop_active_def shell_stream_dropped_def shell_drop_def split: option.split)
  then show ?thesis using False by blast
qed

lemma shell_inv_dropped:
  assumes "shell_inv cc ps shells" "drop_active cc ps' = Some ps''" "ps'' p = Some q" "pr_running q"
  shows "ps' p = Some q \<and> (ps p = Some q \<longrightarrow> pr_group q \<notin> shells)"
proof -
  have "ps' p = Some q \<and> (\<forall>st. cc_active cc = Some st \<longrightarrow> ss_pid st \<noteq> Some (pr_group q))"
    using drop_active_Some [of cc ps'] assms(2-4) by auto
  then show ?thesis using assms(1,4) by (auto simp: shell_inv_def)
qed

lemma host_run_inv: "host_run C P ident backstop beat topics cc ps shells \<Longrightarrow> shell_inv cc ps shells"
proof (induction rule: host_run.induct)
  case (start cc ps)
  then show ?case by (simp add: shell_inv_def)
next
  case (keep cc ps shells cc' ev)
  have "\<exists>st'. cc_active cc' = Some st' \<and> ss_pid st' = ss_pid st" if "cc_active cc = Some st" for st
    using keep.hyps that conn_step_active [of C P ident backstop beat topics ev cc] by fastforce
  then show ?case using keep.IH by (fastforce simp: shell_inv_def)
next
  case (close cc ps shells cc' ev ps')
  then show ?case using shell_inv_dropped [OF close.IH close.hyps(4)] by (auto simp: shell_inv_def)
next
  case (open_shell cc ps shells cc' ev st pid ps')
  have "pr_group q = pid" if "ps' p = Some q" "pr_running q" "pr_group q \<in> insert pid shells" for p q
    using shell_inv_dropped [OF open_shell.IH open_shell.hyps(7) that(1,2)] that(3) by (auto split: if_splits)
  then show ?case using open_shell.hyps(4,5) by (auto simp: shell_inv_def)
next
  case (fork cc ps shells p q child)
  then show ?case by (auto simp: shell_inv_def split: if_splits)
next
  case (exit cc ps shells p q)
  then show ?case by (auto simp: shell_inv_def split: if_splits)
next
  case (reaped cc ps shells p q)
  then show ?case by (auto simp: shell_inv_def split: if_splits)
qed

text \<open>
  C17.  Shells do not outlive their stream.  Over any history of a connection and of the host's
  processes, a running process in the group of any shell opened so far belongs to the shell of the one
  live stream, so a connection has at most one live shell; and when the connection ends, the teardown
  returns and no process of any shell's group runs any more.
\<close>

theorem shells_never_outlive_stream:
  assumes "host_run C P ident backstop beat topics cc ps shells"
  shows "(\<forall>p q. ps p = Some q \<and> pr_running q \<and> pr_group q \<in> shells
      \<longrightarrow> (\<exists>st. cc_active cc = Some st \<and> ss_pid st = Some (pr_group q)))
    \<and> (\<exists>ps'. drop_active cc ps = Some ps' \<and> host_run C P ident backstop beat topics (conn_step C P ident backstop beat topics Disconnected cc) ps' shells
        \<and> (\<forall>p q. ps' p = Some q \<and> pr_running q \<longrightarrow> pr_group q \<notin> shells))"
proof -
  have inv: "shell_inv cc ps shells" using assms by (rule host_run_inv)
  obtain ps' where ps': "drop_active cc ps = Some ps'" using drop_active_Some [of cc ps] by blast
  have "cc_active (conn_step C P ident backstop beat topics Disconnected cc) = None" by (simp add: conn_reset_def)
  then have "host_run C P ident backstop beat topics (conn_step C P ident backstop beat topics Disconnected cc) ps' shells"
    using host_run.close [OF assms refl _ ps'] by blast
  moreover have "\<forall>p q. ps' p = Some q \<and> pr_running q \<longrightarrow> pr_group q \<notin> shells" using shell_inv_dropped [OF inv ps'] by blast
  ultimately show ?thesis using inv ps' unfolding shell_inv_def by blast
qed

theorem shells_never_outlive_stream_witness:
  "let ps = [77 \<mapsto> \<lparr>pr_group = 77, pr_running = True\<rparr>, 78 \<mapsto> \<lparr>pr_group = 77, pr_running = True\<rparr>, 9 \<mapsto> \<lparr>pr_group = 9, pr_running = True\<rparr>]
   in \<exists>ps'. drop_active sample_opened ps = Some ps'
     \<and> (\<forall>p q. ps' p = Some q \<and> pr_running q \<longrightarrow> pr_group q \<noteq> 77)"
proof -
  let ?bs = "la_new [''shell''] [''deploy'']"
  let ?leader = "\<lparr>pr_group = 77, pr_running = True\<rparr>" and ?other = "\<lparr>pr_group = 9, pr_running = True\<rparr>"
  obtain st where st: "cc_active sample_opened = Some st" "ss_pid st = Some 77" using sample_opened_simps(2) by blast
  have start: "host_run toy_crypto sample_prost sample_ident ?bs (heartbeat ''h'') (for_host ''h'') sample_conn [9 \<mapsto> ?other] {}"
    by (rule host_run.start) (simp add: sample_conn_def conn_init_def)
  have "opens sample_conn sample_opened" by (simp add: opens_def sample_opened_simps sample_conn_def conn_init_def)
  moreover have "fresh_pid [9 \<mapsto> ?other] 77" by (auto simp: fresh_pid_def split: if_splits)
  moreover have "drop_active sample_conn ([9 \<mapsto> ?other](77 \<mapsto> ?leader)) = Some ([9 \<mapsto> ?other](77 \<mapsto> ?leader))"
    by (simp add: drop_active_def sample_conn_def conn_init_def)
  ultimately have "host_run toy_crypto sample_prost sample_ident ?bs (heartbeat ''h'') (for_host ''h'') sample_opened ([9 \<mapsto> ?other](77 \<mapsto> ?leader)) {77}"
    using host_run.open_shell [OF start sample_opened_def _ st] by simp
  then have "host_run toy_crypto sample_prost sample_ident ?bs (heartbeat ''h'') (for_host ''h'') sample_opened (([9 \<mapsto> ?other](77 \<mapsto> ?leader))(78 \<mapsto> ?leader)) {77}"
    by (rule host_run.fork [where p = 77]) (auto simp: fresh_pid_def split: if_splits)
  moreover have "([9 :: nat \<mapsto> ?other](77 \<mapsto> ?leader))(78 \<mapsto> ?leader) = [77 \<mapsto> ?leader, 78 \<mapsto> ?leader, 9 \<mapsto> ?other]" by (auto simp: fun_eq_iff)
  ultimately have "host_run toy_crypto sample_prost sample_ident ?bs (heartbeat ''h'') (for_host ''h'') sample_opened [77 \<mapsto> ?leader, 78 \<mapsto> ?leader, 9 \<mapsto> ?other] {77}"
    by (simp only:)
  from shells_never_outlive_stream [OF this] show ?thesis by auto
qed

end
