(* ===== verification/Sample_Codecs.thy ===== *)
theory Sample_Codecs
  imports Proto
begin

text \<open>
  A lossless codec for the messages the end-to-end properties carry: an instance of the protobuf
  parameter \<open>codecs\<close> on which their round-trip hypotheses hold.  A field is written byte by byte,
  each after a mark, and ends with a zero.
\<close>

definition enc_field :: "bytes \<Rightarrow> bytes" where
  "enc_field bs = concat (map (\<lambda>b. [1, b]) bs) @ [0]"

fun dec_field :: "bytes \<Rightarrow> (bytes \<times> bytes) option" where
  "dec_field (m # r) =
     (if m = 0 then Some ([], r)
      else case r of
        [] \<Rightarrow> None
      | b # r' \<Rightarrow> (case dec_field r' of None \<Rightarrow> None | Some (bs, rest) \<Rightarrow> Some (b # bs, rest)))"
| "dec_field [] = None"

definition from_bytes :: "bytes \<Rightarrow> string" where
  "from_bytes bs = map (\<lambda>b. char_of (unat b)) bs"

fun dec_fields :: "nat \<Rightarrow> bytes \<Rightarrow> bytes list" where
  "dec_fields 0 bs = [bs]"
| "dec_fields (Suc n) bs = (case dec_field bs of None \<Rightarrow> [] | Some (f, r) \<Rightarrow> f # dec_fields n r)"

fun dec_strings :: "nat \<Rightarrow> bytes \<Rightarrow> string list" where
  "dec_strings (Suc n) bs =
     (case bs of
        m # r \<Rightarrow> if m = 0 then [] else (case dec_field r of None \<Rightarrow> [] | Some (f, r') \<Rightarrow> from_bytes f # dec_strings n r')
      | [] \<Rightarrow> [])"
| "dec_strings 0 bs = []"

definition enc_strings :: "string list \<Rightarrow> bytes" where
  "enc_strings ss = concat (map (\<lambda>s. 1 # enc_field (as_bytes s)) ss) @ [0]"

lemma dec_enc_field [simp]: "dec_field (enc_field bs @ r) = Some (bs, r)"
  by (induction bs) (simp_all add: enc_field_def)

lemma from_as_bytes [simp]: "from_bytes (as_bytes s) = s"
proof (induction s)
  case (Cons c s)
  have "unat (of_char c :: u8) = of_char c"
    unfolding of_nat_of_char [of c, symmetric, where 'a = u8] by (simp add: unat_of_nat of_char_mod_256)
  then show ?case using Cons by (simp add: from_bytes_def as_bytes_def)
qed (simp add: from_bytes_def as_bytes_def)

lemma dec_enc_strings: "length ss < n \<Longrightarrow> dec_strings n (enc_strings ss) = ss"
proof (induction ss arbitrary: n)
  case (Cons s ss)
  then show ?case by (cases n) (simp_all add: enc_strings_def)
next
  case Nil
  then show ?case by (cases n) (simp_all add: enc_strings_def)
qed

subsection \<open>The messages\<close>

definition sample_env_codec :: "envelope prost" where
  "sample_env_codec =
     \<lparr>encode_msg = (\<lambda>e. enc_field (as_bytes (env_host_id e)) @ enc_field (as_bytes (env_sid e))
        @ enc_field (be_bytes 8 (env_seq e)) @ enc_field (be_bytes 4 (env_kind e)) @ env_ciphertext e),
      decode_msg = (\<lambda>bs. case dec_fields 4 bs of
        [h, s, q, k, c] \<Rightarrow> Some \<lparr>env_host_id = from_bytes h, env_sid = from_bytes s, env_seq = of_be_bytes q,
           env_kind = of_be_bytes k, env_ciphertext = c\<rparr>
      | _ \<Rightarrow> None)\<rparr>"

definition sample_frame_codec :: "stream_frame prost" where
  "sample_frame_codec =
     \<lparr>encode_msg = (\<lambda>f. (if sf_eof f then 1 else 0) # sf_data f),
      decode_msg = (\<lambda>bs. case bs of [] \<Rightarrow> None | b # d \<Rightarrow> Some \<lparr>sf_data = d, sf_eof = (b = 1)\<rparr>)\<rparr>"

definition sample_dispatch_codec :: "dispatch_msg prost" where
  "sample_dispatch_codec =
     \<lparr>encode_msg = (\<lambda>d. enc_field (as_bytes (dm_job_id d)) @ enc_field (as_bytes (dm_kind d))
        @ enc_field (as_bytes (dm_run_as d)) @ dm_params d),
      decode_msg = (\<lambda>bs. case dec_fields 3 bs of
        [j, k, u, p] \<Rightarrow> Some \<lparr>dm_job_id = from_bytes j, dm_kind = from_bytes k, dm_run_as = from_bytes u, dm_params = p\<rparr>
      | _ \<Rightarrow> None)\<rparr>"

definition sample_exec_codec :: "exec_params prost" where
  "sample_exec_codec =
     \<lparr>encode_msg = (\<lambda>p. enc_strings (ep_argv p)), decode_msg = (\<lambda>bs. Some \<lparr>ep_argv = dec_strings (length bs) bs\<rparr>)\<rparr>"

definition lossless_codecs :: codecs where
  "lossless_codecs =
     \<lparr>env_codec = sample_env_codec, ch_codec = \<lparr>encode_msg = (\<lambda>_. []), decode_msg = (\<lambda>_. None)\<rparr>,
      sh_codec = \<lparr>encode_msg = (\<lambda>_. []), decode_msg = (\<lambda>_. None)\<rparr>, dm_codec = sample_dispatch_codec,
      ep_codec = sample_exec_codec, sp_codec = \<lparr>encode_msg = (\<lambda>_. []), decode_msg = (\<lambda>_. None)\<rparr>,
      sf_codec = sample_frame_codec, im_codec = \<lparr>encode_msg = (\<lambda>_. []), decode_msg = (\<lambda>_. None)\<rparr>,
      jr_codec = \<lparr>encode_msg = (\<lambda>_. []), decode_msg = (\<lambda>_. None)\<rparr>,
      jo_codec = \<lparr>encode_msg = (\<lambda>_. []), decode_msg = (\<lambda>_. None)\<rparr>\<rparr>"

lemma enc_strings_length: "length ss < length (enc_strings ss)"
proof -
  have "length ss \<le> length (concat (map (\<lambda>s. 1 # enc_field (as_bytes s)) ss))" by (induction ss) simp_all
  then show ?thesis by (simp add: enc_strings_def)
qed

lemma lossless_codecs_round_trip:
  "round_trips (env_codec lossless_codecs) env" "round_trips (sf_codec lossless_codecs) frame"
  "round_trips (dm_codec lossless_codecs) dispatch" "round_trips (ep_codec lossless_codecs) params"
  by (simp_all add: round_trips_def lossless_codecs_def sample_env_codec_def sample_frame_codec_def
      sample_dispatch_codec_def sample_exec_codec_def of_be_bytes_inverse dec_enc_strings enc_strings_length eval_nat_numeral
      split: if_splits)

end
