(* ===== verification/Shell_Path.thy ===== *)
theory Shell_Path
  imports Cli Pty Broker_Safety Sample_Codecs
begin

text \<open>
  An interactive shell from the keyboard to the PTY and back: what the client reads, the service
  pumps, the bridge seals, the broker delivers as it likes, the agent authenticates and the PTY is
  written; and the way back to the terminal.  Every step is the component's own operation; this
  theory only composes them.
\<close>

subsection \<open>From the keyboard to the bridge\<close>

text \<open>The chunks the client read from its standard input and could send.\<close>

definition typed :: "(bytes option \<times> bool) list \<Rightarrow> bytes list" where
  "typed reads = map (the \<circ> fst) (takeWhile (\<lambda>(r, taken). taken \<and> r \<noteq> None \<and> r \<noteq> Some []) reads)"

lemma shell_pump_stdin:
  "shell_pump host stream_id takes (stdin_pump reads) =
     map (CmdShellInput host stream_id) (take takes (typed reads))
     @ (if length (typed reads) < takes then [CmdShellClose host stream_id] else [])"
proof (induction reads arbitrary: takes rule: stdin_pump.induct)
  case (3 data taken reads)
  then show ?case by (cases takes) (auto simp: typed_def)
qed (auto simp: typed_def)

subsection \<open>From the bridge to the link\<close>

definition data_frame :: "bytes \<Rightarrow> stream_frame" where
  "data_frame data = \<lparr>sf_data = data, sf_eof = False\<rparr>"

definition down_env :: "bridge_ctx \<Rightarrow> string \<Rightarrow> shell_route \<Rightarrow> u64 \<Rightarrow> stream_frame \<Rightarrow> envelope" where
  "down_env X host_str route seq frame =
     seal_envelope (bc_crypto X) (sr_stream_keys route) CoordToAgent host_str (sr_sid route) seq KIND_STREAM
       (encode_msg (sf_codec (bc_codecs X)) frame)"

definition run_commands :: "bridge_ctx \<Rightarrow> ('e bridge_env \<times> bridge_command) list \<Rightarrow> 'e bridge \<Rightarrow> 'e bridge" where
  "run_commands X ecs br = fold (\<lambda>(E, c). handle_command X E c) ecs br"

lemma run_commands_simps [simp]:
  "run_commands X [] br = br"
  "run_commands X ((E, c) # ecs) br = run_commands X ecs (handle_command X E c br)"
  by (simp_all add: run_commands_def)

definition down_payload :: "bridge_ctx \<Rightarrow> string \<Rightarrow> shell_route \<Rightarrow> u64 \<Rightarrow> stream_frame \<Rightarrow> string \<times> bytes" where
  "down_payload X host_str route seq frame =
     (stream_down host_str, encode_msg (env_codec (bc_codecs X)) (down_env X host_str route seq frame))"

lemma no_route_no_publish:
  assumes "map_of (br_shells br) host = None"
    and "\<forall>(E, c) \<in> set ecs. \<exists>data. c = CmdShellInput host stream_id data \<or> c = CmdShellClose host stream_id"
  shows "run_commands X ecs br = br"
  using assms(2)
proof (induction ecs)
  case (Cons ec ecs)
  obtain E c where ec: "ec = (E, c)" by (cases ec)
  have "handle_command X E c br = br" using Cons.prems ec assms(1) by (auto simp: shell_input_def shell_close_def)
  then show ?case using Cons ec by simp
qed simp

lemma shell_input_step:
  assumes "map_of (br_shells br) host = Some route" "sr_stream_id route = stream_id"
  shows "if be_pub1 E
    then br_published (shell_input X E host stream_id data br)
           = br_published br @ [down_payload X (hyphenated (bc_uuid X) host) route (sr_send_seq route) (data_frame data)]
       \<and> map_of (br_shells (shell_input X E host stream_id data br)) host = Some (route\<lparr>sr_send_seq := sr_send_seq route + 1\<rparr>)
    else br_published (shell_input X E host stream_id data br) = br_published br
       \<and> map_of (br_shells (shell_input X E host stream_id data br)) host = None"
  using assms
  by (simp add: shell_input_def route_seal_downlink_def link_publish_def down_payload_def down_env_def data_frame_def
      Let_def update_conv' delete_conv')

lemma shell_close_step:
  assumes "map_of (br_shells br) host = Some route" "sr_stream_id route = stream_id"
  shows "br_published (shell_close X E host stream_id br) = br_published br
    @ (if be_pub1 E then [down_payload X (hyphenated (bc_uuid X) host) route (sr_send_seq route) eof_frame] else [])"
  using assms
  by (simp add: shell_close_def close_shell_route_def route_seal_downlink_def link_publish_def down_payload_def down_env_def Let_def)

text \<open>
  The commands of one pump: what they put on the link is a prefix of their frames, sealed at the
  positions that follow the route's counter, and all of them when every publish is taken.
\<close>

lemma pump_published:
  assumes "map_of (br_shells br) host = Some route" "sr_stream_id route = stream_id"
    and "map snd ecs = map (CmdShellInput host stream_id) ds @ (if closing then [CmdShellClose host stream_id] else [])"
    and "frames = map data_frame ds @ (if closing then [eof_frame] else [])"
  shows "\<exists>n \<le> length frames. br_published (run_commands X ecs br) = br_published br
      @ map (\<lambda>k. down_payload X (hyphenated (bc_uuid X) host) route (sr_send_seq route + of_nat k) (frames ! k)) [0..<n]
    \<and> ((\<forall>ec \<in> set ecs. be_pub1 (fst ec)) \<longrightarrow> n = length frames)"
  using assms
proof (induction ds arbitrary: br route ecs frames)
  case Nil
  show ?case
  proof (cases closing)
    case True
    then obtain E where ecs: "ecs = [(E, CmdShellClose host stream_id)]" using Nil.prems(3) by auto
    then show ?thesis
      using shell_close_step [OF Nil.prems(1,2), of X E] Nil.prems(4) True
      by (intro exI [of _ "if be_pub1 E then 1 else 0"]) simp
  next
    case False
    then show ?thesis using Nil by simp
  qed
next
  case (Cons d ds)
  obtain E ecs' where ecs: "ecs = (E, CmdShellInput host stream_id d) # ecs'"
      "map snd ecs' = map (CmdShellInput host stream_id) ds @ (if closing then [CmdShellClose host stream_id] else [])"
    using Cons.prems(3) by auto
  define frames' where "frames' = map data_frame ds @ (if closing then [eof_frame] else [])"
  have frames: "frames = data_frame d # frames'" using Cons.prems(4) by (simp add: frames'_def)
  let ?br = "shell_input X E host stream_id d br" and ?hs = "hyphenated (bc_uuid X) host"
  note step = shell_input_step [OF Cons.prems(1,2), of E X d]
  show ?case
  proof (cases "be_pub1 E")
    case True
    let ?r = "route\<lparr>sr_send_seq := sr_send_seq route + 1\<rparr>"
    have r: "map_of (br_shells ?br) host = Some ?r" "sr_stream_id ?r = stream_id" using step True Cons.prems(2) by simp_all
    obtain n where n: "n \<le> length frames'" "br_published (run_commands X ecs' ?br) = br_published ?br
        @ map (\<lambda>k. down_payload X ?hs ?r (sr_send_seq ?r + of_nat k) (frames' ! k)) [0..<n]"
        "(\<forall>ec \<in> set ecs'. be_pub1 (fst ec)) \<longrightarrow> n = length frames'"
      using Cons.IH [OF r ecs(2) frames'_def] by blast
    have "down_payload X ?hs ?r q f = down_payload X ?hs route q f" for q f by (simp add: down_payload_def down_env_def)
    then have "br_published (run_commands X ecs br) = br_published br
        @ map (\<lambda>k. down_payload X ?hs route (sr_send_seq route + of_nat k) (frames ! k)) [0..<Suc n]"
      using n(2) step True ecs(1) frames
      by (simp add: upt_conv_Cons map_Suc_upt [symmetric] comp_def algebra_simps del: upt_Suc)
    then show ?thesis using n(1,3) ecs(1) frames by (intro exI [of _ "Suc n"]) simp
  next
    case False
    have "run_commands X ecs' ?br = ?br"
    proof (rule no_route_no_publish)
      have "snd ` set ecs' \<subseteq> set (map (CmdShellInput host stream_id) ds @ [CmdShellClose host stream_id])"
        using arg_cong [OF ecs(2), of set] by auto
      then show "\<forall>(E, c) \<in> set ecs'. \<exists>data. c = CmdShellInput host stream_id data \<or> c = CmdShellClose host stream_id"
        by fastforce
    qed (use step False in simp)
    then show ?thesis using step False ecs(1) by (intro exI [of _ 0]) simp
  qed
qed

subsection \<open>From the link to the PTY\<close>

text \<open>
  What happens to the agent's stream, in any order: the event loop routes an envelope, the write
  pump writes the next queued chunk, or a write fails after some of its bytes and ends the pump.
\<close>

datatype pty_event = Deliver envelope | WriteOk | WriteFail nat

fun pty_run :: "crypto \<Rightarrow> codecs \<Rightarrow> pty_event list \<Rightarrow> shell_stream \<Rightarrow> bytes list \<Rightarrow> bytes list \<times> bool" where
  "pty_run C P [] st written = (written, True)"
| "pty_run C P (Deliver env # evs) st written =
     (case route_downlink C P st env of
        (True, st') \<Rightarrow> pty_run C P evs st' written
      | (False, st') \<Rightarrow> (written, False))"
| "pty_run C P (WriteOk # evs) st written =
     (case ss_downlink st of
        [] \<Rightarrow> pty_run C P evs st written
      | d # ds \<Rightarrow> pty_run C P evs (st\<lparr>ss_downlink := ds\<rparr>) (written @ [d]))"
| "pty_run C P (WriteFail n # evs) st written =
     (case ss_downlink st of
        [] \<Rightarrow> pty_run C P evs st written
      | d # ds \<Rightarrow> pty_run C P evs (st\<lparr>ss_downlink := [], ss_writer_gone := True\<rparr>) (written @ [take n d]))"

text \<open>
  \<open>opens_only\<close>: under the stream's key an envelope of the run opens only to the frame sealed at its
  sequence number.
\<close>

definition opens_only :: "crypto \<Rightarrow> codecs \<Rightarrow> session_keys \<Rightarrow> direction \<Rightarrow> stream_frame list \<Rightarrow> envelope \<Rightarrow> bool" where
  "opens_only C P keys dir frames env \<longleftrightarrow>
     (\<forall>m. open_envelope C keys dir env = Some m \<longrightarrow>
        (\<exists>k < length frames. env_seq env = of_nat k \<and> m = encode_msg (sf_codec P) (frames ! k)))"

definition next_pos :: "u64 option \<Rightarrow> nat" where
  "next_pos high = (case high of None \<Rightarrow> 0 | Some h \<Rightarrow> unat h + 1)"

lemma above_next_pos: "above high q \<longleftrightarrow> next_pos high \<le> unat q"
  by (auto simp: above_def next_pos_def word_less_nat_alt split: option.split)

definition payloads :: "stream_frame list \<Rightarrow> bytes list" where
  "payloads frames = map sf_data (filter (\<lambda>f. \<not> sf_eof f) frames)"

lemma payloads_drop:
  assumes "i \<le> k" "k < length frames" "subseq chunks (payloads (drop (Suc k) frames))" "\<not> sf_eof (frames ! k)"
  shows "subseq (sf_data (frames ! k) # chunks) (payloads (drop i frames))"
proof -
  have "payloads (drop k frames) = sf_data (frames ! k) # payloads (drop (Suc k) frames)"
    using assms(2,4) by (simp add: payloads_def Cons_nth_drop_Suc [symmetric])
  moreover have "drop i frames = take (k - i) (drop i frames) @ drop k frames"
    using assms(1) by (metis append_take_drop_id drop_drop le_add_diff_inverse2)
  then have "payloads (drop i frames) = payloads (take (k - i) (drop i frames)) @ payloads (drop k frames)"
    by (metis filter_append map_append payloads_def)
  ultimately show ?thesis using assms(3) by (metis list_emb_append2 subseq_Cons2)
qed

lemma payloads_skip:
  assumes "i \<le> j" "subseq chunks (payloads (drop j frames))"
  shows "subseq chunks (payloads (drop i frames))"
proof -
  have "drop i frames = take (j - i) (drop i frames) @ drop j frames"
    using assms(1) by (metis append_take_drop_id drop_drop le_add_diff_inverse2)
  then have "payloads (drop i frames) = payloads (take (j - i) (drop i frames)) @ payloads (drop j frames)"
    by (metis filter_append map_append payloads_def)
  then show ?thesis using assms(2) by (simp add: list_emb_append2)
qed

text \<open>One envelope at the agent: refused, or accepted as the frame of a later position.\<close>

lemma route_downlink_cases:
  assumes "opens_only C P (ss_stream_keys st) CoordToAgent frames env" "\<forall>f. round_trips (sf_codec P) f"
    and "length frames \<le> 2 ^ 64"
  obtains (refused) "route_downlink C P st env = (True, st)"
  | (eof) st' where "route_downlink C P st env = (False, st')"
  | (data) k where "next_pos (ss_recv_high st) \<le> k" "k < length frames" "\<not> sf_eof (frames ! k)"
      "route_downlink C P st env = (True, downlink_try_send (sf_data (frames ! k)) (st\<lparr>ss_recv_high := Some (of_nat k)\<rparr>))"
proof (cases rule: shell_rx.open_cases [of C st env])
  case refused
  then show thesis using that(1) by (simp add: route_downlink_def)
next
  case (accepted m st')
  then obtain k where k: "k < length frames" "env_seq env = of_nat k" "m = encode_msg (sf_codec P) (frames ! k)"
    using assms(1) by (auto simp: opens_only_def)
  have st': "st' = st\<lparr>ss_recv_high := Some (of_nat k)\<rparr>"
    using accepted(1) k(2) by (auto simp: shell_open_downlink_def split: option.splits if_splits)
  have r: "route_downlink C P st env =
      (if sf_eof (frames ! k) then (False, st') else (True, downlink_try_send (sf_data (frames ! k)) st'))"
    using accepted(1) assms(2) k(3) by (simp add: route_downlink_def round_trips_def)
  have "unat (of_nat k :: u64) = k" using k(1) assms(3) by (simp add: unat_of_nat)
  then have "next_pos (ss_recv_high st) \<le> k" using accepted(3) k(2) by (simp add: above_next_pos)
  then show thesis using that(2,3) r k(1) st' by (cases "sf_eof (frames ! k)") auto
qed

lemma downlink_try_send_keeps [simp]:
  "ss_stream_keys (downlink_try_send d st) = ss_stream_keys st"
  "ss_recv_high (downlink_try_send d st) = ss_recv_high st"
  "ss_writer_gone (downlink_try_send d st) = ss_writer_gone st"
  by (simp_all add: downlink_try_send_def)

lemma downlink_try_send_queue:
  "ss_downlink (downlink_try_send d st) = ss_downlink st
   \<or> ss_downlink (downlink_try_send d st) = ss_downlink st @ [d] \<and> \<not> ss_writer_gone st"
  by (simp add: downlink_try_send_def)

lemma accepted_frame_extends:
  assumes "next_pos (ss_recv_high st) \<le> k" "k < length frames" "\<not> sf_eof (frames ! k)" "subseq chunks (payloads (drop (Suc k) frames))"
    and "prefix out (concat (written @ ss_downlink (downlink_try_send (sf_data (frames ! k)) (st\<lparr>ss_recv_high := h\<rparr>)) @ chunks))"
  shows "\<exists>chunks. subseq chunks (payloads (drop (next_pos (ss_recv_high st)) frames)) \<and> prefix out (concat (written @ ss_downlink st @ chunks))"
  using downlink_try_send_queue [of "sf_data (frames ! k)" "st\<lparr>ss_recv_high := h\<rparr>"]
proof
  assume "ss_downlink (downlink_try_send (sf_data (frames ! k)) (st\<lparr>ss_recv_high := h\<rparr>)) = ss_downlink (st\<lparr>ss_recv_high := h\<rparr>)"
  then show ?thesis using assms(5) payloads_skip [OF le_SucI [OF assms(1)] assms(4)] by (intro exI [of _ chunks]) simp
next
  assume "ss_downlink (downlink_try_send (sf_data (frames ! k)) (st\<lparr>ss_recv_high := h\<rparr>)) = ss_downlink (st\<lparr>ss_recv_high := h\<rparr>) @ [sf_data (frames ! k)]
    \<and> \<not> ss_writer_gone (st\<lparr>ss_recv_high := h\<rparr>)"
  then show ?thesis
    using assms(5) payloads_drop [OF assms(1,2,4,3)] by (intro exI [of _ "sf_data (frames ! k) # chunks"]) simp
qed

text \<open>
  Whatever is delivered and however the writes interleave, the PTY sees a prefix of some of the
  queued and later frames, in their order and each at most once.
\<close>

lemma pty_run_subseq:
  assumes "\<forall>f. round_trips (sf_codec P) f" "length frames \<le> 2 ^ 64"
    and "\<forall>env. Deliver env \<in> set evs \<longrightarrow> opens_only C P (ss_stream_keys st) CoordToAgent frames env"
    and "ss_writer_gone st \<Longrightarrow> ss_downlink st = []"
  shows "\<exists>chunks. subseq chunks (payloads (drop (next_pos (ss_recv_high st)) frames))
    \<and> prefix (concat (fst (pty_run C P evs st written))) (concat (written @ ss_downlink st @ chunks))
    \<and> (ss_writer_gone st \<longrightarrow> fst (pty_run C P evs st written) = written)"
  using assms(3,4)
proof (induction evs arbitrary: st written)
  case Nil
  show ?case by (rule exI [of _ "[]"]) simp
next
  case (Cons ev evs)
  let ?pos = "next_pos (ss_recv_high st)"
  show ?case
  proof (cases ev)
    case (Deliver env)
    have o: "opens_only C P (ss_stream_keys st) CoordToAgent frames env" using Cons.prems(1) Deliver by simp
    show ?thesis
    proof (cases rule: route_downlink_cases [OF o assms(1,2)])
      case 1
      then show ?thesis using Cons.IH [of st written] Cons.prems Deliver by simp
    next
      case (2 st')
      then show ?thesis using Deliver by (intro exI [of _ "[]"]) simp
    next
      case (3 k)
      let ?st = "downlink_try_send (sf_data (frames ! k)) (st\<lparr>ss_recv_high := Some (of_nat k)\<rparr>)"
      have pos: "next_pos (ss_recv_high ?st) = Suc k" using 3(2) assms(2) by (simp add: next_pos_def unat_of_nat)
      have gone: "ss_writer_gone ?st = ss_writer_gone st" "ss_writer_gone ?st \<Longrightarrow> ss_downlink ?st = []"
        using Cons.prems(2) downlink_try_send_queue [of "sf_data (frames ! k)" "st\<lparr>ss_recv_high := Some (of_nat k)\<rparr>"] by auto
      obtain chunks where c: "subseq chunks (payloads (drop (Suc k) frames))"
          "prefix (concat (fst (pty_run C P evs ?st written))) (concat (written @ ss_downlink ?st @ chunks))"
          "ss_writer_gone st \<longrightarrow> fst (pty_run C P evs ?st written) = written"
        using Cons.IH [of ?st written] Cons.prems(1) gone pos by auto
      have "pty_run C P (ev # evs) st written = pty_run C P evs ?st written" using Deliver 3(4) by simp
      then show ?thesis using accepted_frame_extends [OF 3(1-3) c(1,2)] c(3) by simp
    qed
  next
    case WriteOk
    then show ?thesis
      using Cons.IH [of st written] Cons.IH [of "st\<lparr>ss_downlink := tl (ss_downlink st)\<rparr>" "written @ [hd (ss_downlink st)]"] Cons.prems
      by (cases "ss_downlink st") auto
  next
    case (WriteFail n)
    show ?thesis
    proof (cases "ss_downlink st")
      case Nil
      then show ?thesis using Cons.IH [of st written] Cons.prems WriteFail by simp
    next
      case q: (Cons d ds)
      let ?st = "st\<lparr>ss_downlink := [], ss_writer_gone := True\<rparr>"
      have "fst (pty_run C P (ev # evs) st written) = written @ [take n d]"
        using Cons.IH [of ?st "written @ [take n d]"] Cons.prems q WriteFail by auto
      moreover have "prefix (take n d) (d @ concat ds)" by (metis append_assoc append_take_drop_id prefixI)
      ultimately show ?thesis using q Cons.prems(2) by (intro exI [of _ "[]"]) auto
    qed
  qed
qed

text \<open>Delivered in order, each written before the next arrives, the frames reach the PTY completely.\<close>

lemma pty_run_in_order:
  assumes "\<forall>f. round_trips (sf_codec P) f" "length frames \<le> 2 ^ 64" "ss_downlink st = []" "\<not> ss_writer_gone st"
    and "next_pos (ss_recv_high st) = i" "i \<le> length frames" "\<forall>j < length frames - 1. \<not> sf_eof (frames ! j)"
    and "\<forall>k < length frames. env_seq (envs k) = of_nat k
          \<and> open_envelope C (ss_stream_keys st) CoordToAgent (envs k) = Some (encode_msg (sf_codec P) (frames ! k))"
  shows "pty_run C P (concat (map (\<lambda>k. [Deliver (envs k), WriteOk]) [i..<length frames])) st written
    = (written @ payloads (drop i frames), list_all (\<lambda>f. \<not> sf_eof f) (drop i frames))"
  using assms(3-6,8)
proof (induction "length frames - i" arbitrary: i st written)
  case 0
  then show ?case by (simp add: payloads_def)
next
  case (Suc n)
  have i: "i < length frames" using Suc.hyps(2) by simp
  then have seq: "unat (of_nat i :: u64) = i" using assms(2) by (simp add: unat_of_nat)
  have acc: "shell_open_downlink C st (envs i) = (Some (encode_msg (sf_codec P) (frames ! i)), st\<lparr>ss_recv_high := Some (of_nat i)\<rparr>)"
    using Suc.prems(3,5) i above_next_pos [of "ss_recv_high st" "of_nat i"] seq
    by (simp add: shell_open_downlink_def above_def not_le split: option.splits)
  have r: "route_downlink C P st (envs i) =
      (if sf_eof (frames ! i) then (False, st\<lparr>ss_recv_high := Some (of_nat i)\<rparr>)
       else (True, downlink_try_send (sf_data (frames ! i)) (st\<lparr>ss_recv_high := Some (of_nat i)\<rparr>)))"
    using acc assms(1) by (simp add: route_downlink_def round_trips_def)
  have d: "drop i frames = frames ! i # drop (Suc i) frames" using i by (simp add: Cons_nth_drop_Suc)
  have u: "[i..<length frames] = i # [Suc i..<length frames]" using i by (simp add: upt_conv_Cons)
  show ?case
  proof (cases "sf_eof (frames ! i)")
    case True
    then have "Suc i = length frames" using assms(7) i by (metis Suc_lessI Suc_less_eq less_diff_conv plus_1_eq_Suc add.commute)
    then show ?thesis using True r d u by (simp add: payloads_def)
  next
    case False
    let ?st = "st\<lparr>ss_recv_high := Some (of_nat i), ss_downlink := []\<rparr>"
    have "pty_run C P (concat (map (\<lambda>k. [Deliver (envs k), WriteOk]) [Suc i..<length frames])) ?st (written @ [sf_data (frames ! i)])
        = ((written @ [sf_data (frames ! i)]) @ payloads (drop (Suc i) frames), list_all (\<lambda>f. \<not> sf_eof f) (drop (Suc i) frames))"
      by (rule Suc.hyps(1)) (use Suc.hyps(2) Suc.prems i seq in \<open>auto simp: next_pos_def\<close>)
    then show ?thesis
      using False r d u Suc.prems(1,2) by (simp add: downlink_try_send_def DOWNLINK_QUEUE_def payloads_def)
  qed
qed

subsection \<open>Keyboard to PTY\<close>

lemma open_shell_step:
  assumes "store_get (br_sessions br) host = Some session" "be_pub1 E"
  shows "map_of (br_shells (open_shell X E host stream_id user rows cols out br)) host = Some
      \<lparr>sr_stream_id = stream_id, sr_stream_keys = derive_stream (bc_crypto X) (ses_keys session) (as_bytes stream_id),
       sr_sid = ses_sid session, sr_send_seq = 0, sr_recv_high = None, sr_output = out\<rparr>"
    "length (br_published (open_shell X E host stream_id user rows cols out br)) = length (br_published br) + 1"
  using assms by (simp_all add: open_shell_def link_publish_def derive_stream_keys_def Let_def update_conv' split: prod.split)

lemma open_down_env:
  "aead_correct (bc_crypto X) \<Longrightarrow>
   open_envelope (bc_crypto X) (sr_stream_keys route) CoordToAgent (down_env X host_str route seq frame)
     = Some (encode_msg (sf_codec (bc_codecs X)) frame)"
  by (simp add: down_env_def)

lemma env_seq_down_env [simp]: "env_seq (down_env X host_str route seq frame) = seq"
  by (simp add: down_env_def seal_envelope_def)

text \<open>The frames a whole shell command puts on the link, after the dispatch that opens it.\<close>

lemma shell_down_frames:
  assumes "store_get (br_sessions br) host = Some session"
    and "map snd ecs = CmdOpenShell host stream_id user rows cols out # shell_pump host stream_id takes (stdin_pump reads)"
    and "be_pub1 (fst (hd ecs))"
  obtains route n frames where
    "sr_stream_keys route = derive_stream (bc_crypto X) (ses_keys session) (as_bytes stream_id)"
    "frames = map data_frame (take takes (typed reads)) @ (if length (typed reads) < takes then [eof_frame] else [])"
    "n \<le> length frames" "(\<forall>ec \<in> set ecs. be_pub1 (fst ec)) \<longrightarrow> n = length frames" "length frames < length ecs"
    "drop (length (br_published br) + 1) (br_published (run_commands X ecs br))
       = map (\<lambda>k. down_payload X (hyphenated (bc_uuid X) host) route (of_nat k) (frames ! k)) [0..<n]"
proof -
  obtain E ecs' where ecs: "ecs = (E, CmdOpenShell host stream_id user rows cols out) # ecs'"
      "map snd ecs' = map (CmdShellInput host stream_id) (take takes (typed reads))
        @ (if length (typed reads) < takes then [CmdShellClose host stream_id] else [])"
    using assms(2) by (auto simp: shell_pump_stdin)
  define route where "route = \<lparr>sr_stream_id = stream_id, sr_stream_keys = derive_stream (bc_crypto X) (ses_keys session) (as_bytes stream_id),
       sr_sid = ses_sid session, sr_send_seq = 0, sr_recv_high = None, sr_output = out\<rparr>"
  define frames where "frames = map data_frame (take takes (typed reads)) @ (if length (typed reads) < takes then [eof_frame] else [])"
  let ?br = "open_shell X E host stream_id user rows cols out br"
  have pub: "be_pub1 E" using assms(3) ecs(1) by simp
  note op = open_shell_step [OF assms(1) pub, of X stream_id user rows cols out]
  obtain n where n: "n \<le> length frames" "br_published (run_commands X ecs' ?br) = br_published ?br
      @ map (\<lambda>k. down_payload X (hyphenated (bc_uuid X) host) route (sr_send_seq route + of_nat k) (frames ! k)) [0..<n]"
      "(\<forall>ec \<in> set ecs'. be_pub1 (fst ec)) \<longrightarrow> n = length frames"
    using pump_published [OF op(1) [folded route_def] _ ecs(2) frames_def, of X] by (auto simp: route_def)
  show thesis
  proof (rule that [of route frames n])
    have "length ecs' = length frames" using arg_cong [OF ecs(2), of length] by (simp add: frames_def)
    then show "length frames < length ecs" by (simp add: ecs(1))
    show "drop (length (br_published br) + 1) (br_published (run_commands X ecs br))
       = map (\<lambda>k. down_payload X (hyphenated (bc_uuid X) host) route (of_nat k) (frames ! k)) [0..<n]"
      using n(2) op(2) by (simp add: ecs(1) route_def)
  qed (use n ecs(1) in \<open>auto simp: route_def frames_def\<close>)
qed

lemma payloads_typed: "payloads (map data_frame ds @ (if closing then [eof_frame] else [])) = ds"
  by (simp add: payloads_def data_frame_def eof_frame_def filter_map comp_def)

lemma decode_down_payload:
  "\<forall>env. round_trips (env_codec (bc_codecs X)) env \<Longrightarrow>
   decode_msg (env_codec (bc_codecs X)) (snd (down_payload X host_str route q f)) = Some (down_env X host_str route q f)"
  by (simp add: down_payload_def round_trips_def)

text \<open>What the bridge put on the link opens only to its own frames, and in order it is written completely.\<close>

lemma down_opens_only:
  assumes "aead_correct (bc_crypto X)" "\<forall>env. round_trips (env_codec (bc_codecs X)) env" "n \<le> length frames"
    and "(t, p) \<in> set (map (\<lambda>k. down_payload X host_str route (of_nat k) (frames ! k)) [0..<n])"
    and "decode_msg (env_codec (bc_codecs X)) p = Some env"
  shows "opens_only (bc_crypto X) (bc_codecs X) (sr_stream_keys route) CoordToAgent frames env"
proof -
  obtain k where k: "k < n" "p = snd (down_payload X host_str route (of_nat k) (frames ! k))"
    using assms(4) by (auto simp: prod_eq_iff)
  then have "env = down_env X host_str route (of_nat k) (frames ! k)" using assms(5) decode_down_payload [OF assms(2)] by simp
  then show ?thesis
    using k(1) assms(3) open_down_env [OF assms(1)] by (auto simp: opens_only_def intro!: exI [of _ k])
qed

lemma down_in_order:
  assumes "aead_correct (bc_crypto X)" "\<forall>env. round_trips (env_codec (bc_codecs X)) env" "\<forall>f. round_trips (sf_codec (bc_codecs X)) f"
    and "ss_stream_keys st = sr_stream_keys route" "ss_recv_high st = None" "ss_downlink st = []" "\<not> ss_writer_gone st"
    and frames: "frames = map data_frame ds @ [eof_frame]" "length frames \<le> 2 ^ 64"
  shows "pty_run (bc_crypto X) (bc_codecs X) (concat (map (\<lambda>(t, p). [Deliver (the (decode_msg (env_codec (bc_codecs X)) p)), WriteOk])
      (map (\<lambda>k. down_payload X host_str route (of_nat k) (frames ! k)) [0..<length frames]))) st [] = (ds, False)"
proof -
  have "pty_run (bc_crypto X) (bc_codecs X) (concat (map (\<lambda>k. [Deliver (down_env X host_str route (of_nat k) (frames ! k)), WriteOk]) [0..<length frames])) st []
      = ([] @ payloads (drop 0 frames), list_all (\<lambda>f. \<not> sf_eof f) (drop 0 frames))"
  proof (rule pty_run_in_order [OF assms(3) frames(2)])
    show "\<forall>j < length frames - 1. \<not> sf_eof (frames ! j)" by (simp add: frames(1) nth_append data_frame_def)
  qed (use assms(4-7) open_down_env [OF assms(1)] in \<open>simp_all add: next_pos_def\<close>)
  moreover have "map (\<lambda>(t, p). [Deliver (the (decode_msg (env_codec (bc_codecs X)) p)), WriteOk])
        (map (\<lambda>k. down_payload X host_str route (of_nat k) (frames ! k)) [0..<length frames])
      = map (\<lambda>k. [Deliver (down_env X host_str route (of_nat k) (frames ! k)), WriteOk]) [0..<length frames]"
    by (simp add: case_prod_unfold decode_down_payload [OF assms(2)])
  moreover have "payloads frames = ds" "\<not> list_all (\<lambda>f. \<not> sf_eof f) frames"
    using payloads_typed [of ds True] by (simp_all add: frames(1) eof_frame_def)
  ultimately show ?thesis by (simp del: map_map)
qed

text \<open>
  C12.  Keystrokes end to end.  An operator's shell runs from \<open>osa shell\<close> through the service's pump and
  the bridge, over a broker that may drop, repeat, reorder and inject, to the agent's PTY, with the
  publishes failing and the writes interleaving as they like.  What the PTY receives is a prefix of
  some of the typed chunks, in the order typed and each at most once, provided only envelopes the
  bridge put on the link authenticate under the stream's key.  When everything is delivered in
  order, the PTY receives exactly what was typed and the shell is then closed.
\<close>

theorem shell_keystrokes_end_to_end:
  assumes "aead_correct (bc_crypto X)" "\<forall>env. round_trips (env_codec (bc_codecs X)) env" "\<forall>f. round_trips (sf_codec (bc_codecs X)) f"
    and "store_get (br_sessions br) host = Some session"
    and agent: "shell_open (bc_crypto X) pty (ses_keys session) stream_id user r c = Inr st"
    and commands: "map snd ecs = CmdOpenShell host stream_id user rows cols out # shell_pump host stream_id takes (stdin_pump reads)"
      "be_pub1 (fst (hd ecs))" "length ecs \<le> 2 ^ 64"
    and down: "down = drop (length (br_published br) + 1) (br_published (run_commands X ecs br))"
    and authentic: "\<forall>env. Deliver env \<in> set evs \<longrightarrow> open_envelope (bc_crypto X) (ss_stream_keys st) CoordToAgent env \<noteq> None
      \<longrightarrow> (\<exists>t p. (t, p) \<in> set down \<and> decode_msg (env_codec (bc_codecs X)) p = Some env)"
  shows "(\<exists>chunks. subseq chunks (typed reads)
      \<and> prefix (concat (fst (pty_run (bc_crypto X) (bc_codecs X) evs st []))) (concat chunks))
    \<and> ((\<forall>ec \<in> set ecs. be_pub1 (fst ec)) \<and> length (typed reads) < takes \<longrightarrow>
        pty_run (bc_crypto X) (bc_codecs X)
          (concat (map (\<lambda>(t, p). [Deliver (the (decode_msg (env_codec (bc_codecs X)) p)), WriteOk]) down)) st [] = (typed reads, False))"
proof -
  let ?C = "bc_crypto X" and ?P = "bc_codecs X" and ?hs = "hyphenated (bc_uuid X) host"
  obtain route n frames where r: "sr_stream_keys route = derive_stream ?C (ses_keys session) (as_bytes stream_id)"
      and frames: "frames = map data_frame (take takes (typed reads)) @ (if length (typed reads) < takes then [eof_frame] else [])"
      and n: "n \<le> length frames" "(\<forall>ec \<in> set ecs. be_pub1 (fst ec)) \<longrightarrow> n = length frames" "length frames < length ecs"
      and d: "down = map (\<lambda>k. down_payload X ?hs route (of_nat k) (frames ! k)) [0..<n]"
    unfolding down by (rule shell_down_frames [OF assms(4) commands(1,2), where X = X])
  have st: "ss_stream_keys st = sr_stream_keys route" "ss_recv_high st = None" "ss_downlink st = []" "\<not> ss_writer_gone st"
    using agent r by (auto simp: shell_open_def split: sum.splits)
  have len: "length frames \<le> 2 ^ 64" using n(3) commands(3) by simp
  have only: "opens_only ?C ?P (ss_stream_keys st) CoordToAgent frames env" if "Deliver env \<in> set evs" for env
  proof (cases "open_envelope ?C (ss_stream_keys st) CoordToAgent env")
    case (Some m)
    then obtain t p where "(t, p) \<in> set down" "decode_msg (env_codec ?P) p = Some env" using authentic \<open>Deliver env \<in> set evs\<close> by fastforce
    then show ?thesis unfolding d st(1) by (rule down_opens_only [OF assms(1,2) n(1)])
  qed (simp add: opens_only_def)
  obtain chunks where "subseq chunks (payloads frames)" "prefix (concat (fst (pty_run ?C ?P evs st []))) (concat chunks)"
    using pty_run_subseq [OF assms(3) len, of evs ?C st "[]"] only st by (auto simp: next_pos_def)
  moreover have "subseq (payloads frames) (typed reads)" by (simp add: frames payloads_typed prefix_imp_subseq take_is_prefix)
  ultimately have "\<exists>chunks. subseq chunks (typed reads) \<and> prefix (concat (fst (pty_run ?C ?P evs st []))) (concat chunks)"
    by (meson subseq_order.trans)
  moreover have "pty_run ?C ?P (concat (map (\<lambda>(t, p). [Deliver (the (decode_msg (env_codec ?P) p)), WriteOk]) down)) st [] = (typed reads, False)"
    if all: "\<forall>ec \<in> set ecs. be_pub1 (fst ec)" "length (typed reads) < takes"
  proof -
    have "frames = map data_frame (typed reads) @ [eof_frame]" using all(2) by (simp add: frames)
    then show ?thesis using down_in_order [OF assms(1-3) st(1-4) _ len] n(2) all(1) d by simp
  qed
  ultimately show ?thesis by blast
qed

text \<open>A bridge with one session, on the lossless codecs.\<close>

definition shell_ctx :: bridge_ctx where
  "shell_ctx = sample_ctx\<lparr>bc_codecs := lossless_codecs\<rparr>"

definition sample_session :: session where
  "sample_session = \<lparr>ses_sid = ''s'', ses_keys = \<lparr>c2a = 1, a2c = 2\<rparr>, ses_send_seq = 1, ses_recv_high = None\<rparr>"

definition shell_bridge :: "(uuid, u64) amap bridge" where
  "shell_bridge = sample_bridge\<lparr>br_sessions := store_put store_new 7 sample_session\<rparr>"

definition sample_stream :: shell_stream where
  "sample_stream = \<lparr>ss_pid = Some 4, ss_stream_keys = derive_stream toy_crypto \<lparr>c2a = 1, a2c = 2\<rparr> (as_bytes ''x''),
     ss_recv_high = None, ss_downlink = [], ss_writer_gone = False\<rparr>"

lemma shell_samples:
  "bc_crypto shell_ctx = toy_crypto" "bc_codecs shell_ctx = lossless_codecs"
  "store_get (br_sessions shell_bridge) 7 = Some sample_session" "ses_keys sample_session = \<lparr>c2a = 1, a2c = 2\<rparr>"
  "shell_open toy_crypto (\<lambda>_ _ _. Inr (Some 4)) \<lparr>c2a = 1, a2c = 2\<rparr> ''x'' [] 24 80 = Inr sample_stream"
  "be_pub1 sample_benv"
  by (simp_all add: shell_ctx_def sample_ctx_def shell_bridge_def store_put_def store_get_def store_new_def sample_session_def
      sample_stream_def shell_open_def sample_benv_def)

theorem shell_keystrokes_end_to_end_witness:
  "\<exists>ecs :: ((uuid, u64) amap bridge_env \<times> bridge_command) list.
     map snd ecs = [CmdOpenShell 7 ''x'' [] 24 80 0, CmdShellInput 7 ''x'' [104], CmdShellInput 7 ''x'' [105], CmdShellClose 7 ''x'']
     \<and> pty_run toy_crypto lossless_codecs
         (concat (map (\<lambda>(t, p). [Deliver (the (decode_msg (env_codec lossless_codecs) p)), WriteOk])
           (drop 1 (br_published (run_commands shell_ctx ecs shell_bridge))))) sample_stream [] = ([[104], [105]], False)"
proof -
  define reads :: "(bytes option \<times> bool) list" where "reads = [(Some [104], True), (Some [105], True), (Some [], True)]"
  define ecs :: "((uuid, u64) amap bridge_env \<times> bridge_command) list" where
    "ecs = map (Pair sample_benv) [CmdOpenShell 7 ''x'' [] 24 80 0, CmdShellInput 7 ''x'' [104], CmdShellInput 7 ''x'' [105], CmdShellClose 7 ''x'']"
  have cmds: "map snd ecs = CmdOpenShell 7 ''x'' [] 24 80 0 # shell_pump 7 ''x'' 5 (stdin_pump reads)"
    by (simp add: ecs_def reads_def)
  have typed: "typed reads = [[104], [105]]" by (simp add: typed_def reads_def)
  have pub: "\<forall>ec \<in> set ecs. be_pub1 (fst ec)" "be_pub1 (fst (hd ecs))" by (simp_all add: ecs_def shell_samples)
  define forged where "forged = \<lparr>env_host_id = [], env_sid = [], env_seq = 0, env_kind = KIND_STREAM, env_ciphertext = []\<rparr>"
  have forged: "open_envelope toy_crypto (ss_stream_keys sample_stream) CoordToAgent forged = None"
    using length_u64_to_be_bytes [of "len_u64 (aad [] [] 0 KIND_STREAM)"]
    by (auto simp: forged_def open_envelope_def open_sealed_def toy_crypto_def toy_tag_def Let_def push_field_def
        simp del: length_u64_to_be_bytes)
  have laws: "aead_correct (bc_crypto shell_ctx)" "\<forall>env. round_trips (env_codec (bc_codecs shell_ctx)) env"
      "\<forall>f. round_trips (sf_codec (bc_codecs shell_ctx)) f"
    by (simp_all add: shell_samples toy_crypto_laws lossless_codecs_round_trip)
  have agent: "shell_open (bc_crypto shell_ctx) (\<lambda>_ _ _. Inr (Some 4)) (ses_keys sample_session) ''x'' [] 24 80 = Inr sample_stream"
    by (simp add: shell_samples)
  have len: "length ecs \<le> 2 ^ 64" by (simp add: ecs_def)
  have empty: "length (br_published shell_bridge) = 0" by (simp add: shell_bridge_def sample_bridge_def bridge_init_def)
  have auth: "\<forall>env. Deliver env \<in> set [Deliver forged] \<longrightarrow> open_envelope (bc_crypto shell_ctx) (ss_stream_keys sample_stream) CoordToAgent env \<noteq> None
      \<longrightarrow> (\<exists>t p. (t, p) \<in> set (drop (length (br_published shell_bridge) + 1) (br_published (run_commands shell_ctx ecs shell_bridge)))
            \<and> decode_msg (env_codec (bc_codecs shell_ctx)) p = Some env)"
    using forged by (simp add: shell_samples)
  have "pty_run toy_crypto lossless_codecs
         (concat (map (\<lambda>(t, p). [Deliver (the (decode_msg (env_codec lossless_codecs) p)), WriteOk])
           (drop 1 (br_published (run_commands shell_ctx ecs shell_bridge))))) sample_stream [] = ([[104], [105]], False)"
    using shell_keystrokes_end_to_end [OF laws shell_samples(3) agent cmds pub(2) len refl auth] pub(1)
    by (simp only: typed empty) (simp add: shell_samples)
  then show ?thesis by (intro exI [of _ ecs] conjI) (simp_all add: ecs_def)
qed

subsection \<open>From the PTY to the link\<close>

text \<open>The chunks the agent's pump reads before the PTY ends.\<close>

definition printed :: "bytes list \<Rightarrow> bytes list" where
  "printed reads = map (take SHELL_READ_CHUNK) (takeWhile (\<lambda>r. r \<noteq> []) reads)"

lemma printed_pty_reads:
  assumes "list_all flowing pre" "reads = pty_reads SHELL_READ_CHUNK (pre @ CallFailed EIO # post)"
  shows "concat (printed reads) = event_bytes pre" "length (printed reads) < length reads"
proof -
  obtain chunks where c: "reads = chunks @ [[]]" "concat chunks = event_bytes pre" "list_all (\<lambda>c. c \<noteq> [] \<and> length c \<le> SHELL_READ_CHUNK) chunks"
    using pty_reads_flow [OF assms(1), of SHELL_READ_CHUNK post] assms(2) by (auto simp: SHELL_READ_CHUNK_def)
  have "takeWhile (\<lambda>r. r \<noteq> []) reads = chunks" using c(1,3) by (simp add: takeWhile_append2 list_all_iff)
  moreover have "map (take SHELL_READ_CHUNK) chunks = chunks" using c(3) by (simp add: list_all_iff map_idI)
  ultimately have "printed reads = chunks" by (simp add: printed_def)
  then show "concat (printed reads) = event_bytes pre" "length (printed reads) < length reads" using c by simp_all
qed

definition up_frames :: "nat \<Rightarrow> bytes list \<Rightarrow> stream_frame list" where
  "up_frames takes reads =
     map data_frame (take takes (printed reads)) @ (if length (printed reads) < takes then [eof_frame] else [])"

lemma up_frames_Cons:
  "r \<noteq> [] \<Longrightarrow> up_frames (Suc takes) (r # reads) = data_frame (take SHELL_READ_CHUNK r) # up_frames takes reads"
  by (simp add: up_frames_def printed_def)

lemma uplink_pump_alt:
  "uplink_pump C P keys host_id sid seq takes reads =
     map (\<lambda>k. seal_frame C P keys host_id sid (seq + of_nat k) (sf_data (up_frames takes reads ! k)) (sf_eof (up_frames takes reads ! k)))
       [0..<length (up_frames takes reads)]"
proof (induction reads arbitrary: seq takes)
  case Nil
  show ?case by (simp add: up_frames_def printed_def eof_frame_def)
next
  case (Cons r reads)
  show ?case
  proof (cases "r = [] \<or> takes = 0")
    case True
    then show ?thesis by (auto simp: up_frames_def printed_def eof_frame_def)
  next
    case False
    then obtain n where "takes = Suc n" by (cases takes) auto
    then show ?thesis using False Cons.IH [of "seq + 1" n]
      by (simp add: up_frames_Cons upt_conv_Cons map_Suc_upt [symmetric] comp_def algebra_simps data_frame_def del: upt_Suc)
  qed
qed

subsection \<open>From the link to the terminal\<close>

text \<open>
  What happens to a shell's way back, in any order: the bridge handles a payload of the host's stream
  topic, the operator's client takes the next frame from its channel, or the operator is gone.
\<close>

datatype 'e screen_event = UpPayload "'e bridge_env" bytes | TakeFrame | OperatorGone

fun screen_step :: "bridge_ctx \<Rightarrow> string \<Rightarrow> nat \<Rightarrow> 'e screen_event \<Rightarrow> 'e bridge \<Rightarrow> 'e bridge" where
  "screen_step X tnt out (UpPayload E payload) br = handle_stream_up X E tnt payload br"
| "screen_step X tnt out TakeFrame br = br\<lparr>br_outputs := (br_outputs br)(out := snd (chan_recv (br_outputs br out)))\<rparr>"
| "screen_step X tnt out OperatorGone br = br\<lparr>br_outputs := (br_outputs br)(out := chan_close (br_outputs br out))\<rparr>"

definition screen_run :: "bridge_ctx \<Rightarrow> string \<Rightarrow> nat \<Rightarrow> 'e screen_event list \<Rightarrow> 'e bridge \<Rightarrow> 'e bridge" where
  "screen_run X tnt out evs br = fold (screen_step X tnt out) evs br"

lemma screen_run_simps [simp]:
  "screen_run X tnt out [] br = br"
  "screen_run X tnt out (ev # evs) br = screen_run X tnt out evs (screen_step X tnt out ev br)"
  by (simp_all add: screen_run_def)

text \<open>The client's display of the frames taken so far.\<close>

definition screen :: "nat \<Rightarrow> bool \<Rightarrow> 'e bridge \<Rightarrow> (cli_error + unit) \<times> bytes" where
  "screen out clean br =
     (let ch = br_outputs br out
      in shell_loop (map (\<lambda>f. (Some (to_shell_server_msg f), True)) (take (ch_taken ch) (ch_sent ch))) clean [])"

lemma chan_recv_sent [simp]: "ch_sent (snd (chan_recv ch)) = ch_sent ch" "ch_sent (chan_close ch) = ch_sent ch"
  by (simp_all add: chan_recv_def chan_close_def)

lemma screen_run_no_route:
  assumes "parse_uuid (bc_uuid X) tnt = Some host" "map_of (br_shells br) host = None"
  shows "ch_sent (br_outputs (screen_run X tnt out evs br) out) = ch_sent (br_outputs br out)"
  using assms(2)
proof (induction evs arbitrary: br)
  case (Cons ev evs)
  have "map_of (br_shells (screen_step X tnt out ev br)) host = None
    \<and> ch_sent (br_outputs (screen_step X tnt out ev br) out) = ch_sent (br_outputs br out)"
    using Cons.prems assms(1) by (cases ev) (simp_all add: handle_stream_up_def)
  then show ?case using Cons.IH by simp
qed simp

lemma close_shell_route_outputs [simp]: "br_outputs (close_shell_route X E host route br) = br_outputs br"
  by (simp add: close_shell_route_def link_publish_def Let_def split: prod.split)

text \<open>One payload at the bridge: refused, or accepted as the frame of a later position.\<close>

lemma handle_stream_up_cases:
  assumes "parse_uuid (bc_uuid X) tnt = Some host" "map_of (br_shells br) host = Some route"
    and "\<forall>env. decode_msg (env_codec (bc_codecs X)) payload = Some env
      \<longrightarrow> opens_only (bc_crypto X) (bc_codecs X) (sr_stream_keys route) AgentToCoord frames env"
    and "\<forall>f. round_trips (sf_codec (bc_codecs X)) f" "length frames \<le> 2 ^ 64"
    and br': "br' = handle_stream_up X E tnt payload br"
  obtains (refused) "br_outputs br' = br_outputs br" "map_of (br_shells br') host = Some route"
  | (frame) k where "next_pos (sr_recv_high route) \<le> k" "k < length frames"
      "br_outputs br' = snd (chans_try_send (sr_output route) (frames ! k) (br_outputs br))"
      "map_of (br_shells br') host = None
       \<or> map_of (br_shells br') host = Some (route\<lparr>sr_recv_high := Some (of_nat k)\<rparr>)"
proof (cases "decode_msg (env_codec (bc_codecs X)) payload")
  case None
  then show thesis using that(1) assms(1,2) br' by (simp add: handle_stream_up_def)
next
  case (Some env)
  show thesis
  proof (cases rule: route_rx.open_cases [of "bc_crypto X" route env])
    case refused
    then show thesis
      using that(1) assms(1,2) Some br' by (simp add: handle_stream_up_def route_open_uplink_def update_conv')
  next
    case (accepted m route')
    then obtain k where k: "k < length frames" "env_seq env = of_nat k" "m = encode_msg (sf_codec (bc_codecs X)) (frames ! k)"
      using assms(3) Some by (auto simp: opens_only_def)
    have r': "route' = route\<lparr>sr_recv_high := Some (of_nat k)\<rparr>"
      using accepted(1) k(2) by (auto simp: route_authenticate_def split: option.splits if_splits)
    have "unat (of_nat k :: u64) = k" using k(1) assms(5) by (simp add: unat_of_nat)
    then have pos: "next_pos (sr_recv_high route) \<le> k" using accepted(3) k(2) by (simp add: above_next_pos)
    have up: "route_open_uplink (bc_crypto X) (bc_codecs X) env route = (Some (frames ! k), route')"
      using accepted(1) k(3) assms(4) by (simp add: route_open_uplink_def round_trips_def)
    obtain res chs where snd: "chans_try_send (sr_output route) (frames ! k) (br_outputs br) = (res, chs)" by (rule prod.exhaust)
    show thesis
      by (rule that(2) [OF pos k(1)])
        (use assms(1,2) Some br' up snd in \<open>auto simp: handle_stream_up_def r' send_output_def Let_def update_conv' delete_conv' split: send_result.split\<close>)
  qed
qed

text \<open>Whatever arrives, the operator's channel gets some of the agent's frames, in order and each at most once.\<close>

lemma screen_run_subseq:
  assumes "parse_uuid (bc_uuid X) tnt = Some host" "map_of (br_shells br) host = Some route" "sr_output route = out"
    and "\<forall>f. round_trips (sf_codec (bc_codecs X)) f" "length frames \<le> 2 ^ 64"
    and "\<forall>E payload env. UpPayload E payload \<in> set evs \<longrightarrow> decode_msg (env_codec (bc_codecs X)) payload = Some env
      \<longrightarrow> opens_only (bc_crypto X) (bc_codecs X) (sr_stream_keys route) AgentToCoord frames env"
  shows "\<exists>fs. subseq fs (drop (next_pos (sr_recv_high route)) frames)
    \<and> ch_sent (br_outputs (screen_run X tnt out evs br) out) = ch_sent (br_outputs br out) @ fs"
  using assms(2,3,6)
proof (induction evs arbitrary: br route)
  case Nil
  show ?case by (rule exI [of _ "[]"]) simp
next
  case (Cons ev evs)
  have IH: "\<exists>fs. subseq fs (drop (next_pos (sr_recv_high r)) frames)
      \<and> ch_sent (br_outputs (screen_run X tnt out evs b) out) = ch_sent (br_outputs b out) @ fs"
    if "map_of (br_shells b) host = Some r" "sr_output r = out" "sr_stream_keys r = sr_stream_keys route" for b r
    using Cons.IH [OF that(1,2)] Cons.prems(3) that(3) by simp
  show ?case
  proof (cases ev)
    case (UpPayload E payload)
    let ?br = "handle_stream_up X E tnt payload br"
    have only: "\<forall>env. decode_msg (env_codec (bc_codecs X)) payload = Some env
      \<longrightarrow> opens_only (bc_crypto X) (bc_codecs X) (sr_stream_keys route) AgentToCoord frames env"
      using Cons.prems(3) UpPayload by (metis list.set_intros(1))
    show ?thesis
    proof (cases rule: handle_stream_up_cases [OF assms(1) Cons.prems(1) only assms(4,5) refl, of E])
      case 1
      then show ?thesis using IH [of ?br route] Cons.prems(2) UpPayload by simp
    next
      case (2 k)
      obtain fs where fs: "subseq fs (drop (Suc k) frames)"
          "ch_sent (br_outputs (screen_run X tnt out evs ?br) out) = ch_sent (br_outputs ?br out) @ fs"
      proof (cases "map_of (br_shells ?br) host")
        case None
        then show thesis using that [of "[]"] screen_run_no_route [OF assms(1) None] by simp
      next
        case (Some r)
        then have r: "r = route\<lparr>sr_recv_high := Some (of_nat k)\<rparr>" using 2(4) by simp
        have "next_pos (Some (of_nat k)) = Suc k" using 2(2) assms(5) by (simp add: next_pos_def unat_of_nat)
        then show thesis using that IH [OF Some] Cons.prems(2) r by auto
      qed
      have d: "subseq (frames ! k # fs) (drop (next_pos (sr_recv_high route)) frames)"
      proof -
        have "drop (next_pos (sr_recv_high route)) frames = take (k - next_pos (sr_recv_high route)) (drop (next_pos (sr_recv_high route)) frames)
            @ frames ! k # drop (Suc k) frames"
          using 2(1,2) by (metis Cons_nth_drop_Suc append_take_drop_id drop_drop le_add_diff_inverse2)
        then show ?thesis using fs(1) by (metis list_emb_append2 subseq_Cons2)
      qed
      have "ch_sent (br_outputs ?br out) = ch_sent (br_outputs br out) \<or> ch_sent (br_outputs ?br out) = ch_sent (br_outputs br out) @ [frames ! k]"
        using chans_try_send_sent [of "sr_output route" "frames ! k" "br_outputs br" out] 2(3) by auto
      then show ?thesis
        using fs(2) d UpPayload
        by (elim disjE) (auto intro: exI [of _ fs] exI [of _ "frames ! k # fs"] dest: subseq_Cons')
    qed
  next
    case TakeFrame
    then show ?thesis using IH [of "screen_step X tnt out ev br" route] Cons.prems(1,2) by simp
  next
    case OperatorGone
    then show ?thesis using IH [of "screen_step X tnt out ev br" route] Cons.prems(1,2) by simp
  qed
qed

text \<open>Delivered in order, each taken before the next arrives, every frame reaches the client.\<close>

definition drained :: "'a chan \<Rightarrow> bool" where
  "drained ch \<longleftrightarrow> ch_taken ch = length (ch_sent ch) \<and> 0 < ch_cap ch \<and> \<not> ch_closed ch"

lemma screen_step_in_order:
  assumes "parse_uuid (bc_uuid X) tnt = Some host" "map_of (br_shells br) host = Some route" "drained (br_outputs br (sr_output route))"
    and "decode_msg (env_codec (bc_codecs X)) payload = Some env" "above (sr_recv_high route) (env_seq env)"
    and "open_envelope (bc_crypto X) (sr_stream_keys route) AgentToCoord env = Some (encode_msg (sf_codec (bc_codecs X)) frame)"
    and "round_trips (sf_codec (bc_codecs X)) frame"
    and br': "br' = screen_run X tnt (sr_output route) [UpPayload E payload, TakeFrame] br"
  shows "ch_sent (br_outputs br' (sr_output route)) = ch_sent (br_outputs br (sr_output route)) @ [frame]"
    "drained (br_outputs br' (sr_output route))"
    "\<not> sf_eof frame \<Longrightarrow> map_of (br_shells br') host = Some (route\<lparr>sr_recv_high := Some (env_seq env)\<rparr>)"
proof -
  let ?out = "sr_output route" and ?r = "route\<lparr>sr_recv_high := Some (env_seq env)\<rparr>"
  have "route_authenticate (bc_crypto X) route env = (Some (encode_msg (sf_codec (bc_codecs X)) frame), ?r)"
    using assms(5,6) by (auto simp: route_authenticate_def above_def split: option.splits)
  then have up: "route_open_uplink (bc_crypto X) (bc_codecs X) env route = (Some frame, ?r)"
    using assms(7) by (simp add: route_open_uplink_def round_trips_def)
  have snd: "chans_try_send ?out frame (br_outputs br)
      = (Sent, (br_outputs br)(?out := (br_outputs br ?out)\<lparr>ch_sent := ch_sent (br_outputs br ?out) @ [frame]\<rparr>))"
    using assms(3) by (simp add: chans_try_send_def chan_try_send_def drained_def)
  have out: "br_outputs (handle_stream_up X E tnt payload br)
      = (br_outputs br)(?out := (br_outputs br ?out)\<lparr>ch_sent := ch_sent (br_outputs br ?out) @ [frame]\<rparr>)"
    using assms(1,2,4) up snd by (simp add: handle_stream_up_def send_output_def Let_def)
  show "ch_sent (br_outputs br' ?out) = ch_sent (br_outputs br ?out) @ [frame]" "drained (br_outputs br' ?out)"
    using out assms(3) by (simp_all add: br' drained_def chan_recv_def)
  show "map_of (br_shells br') host = Some ?r" if "\<not> sf_eof frame"
    using assms(1,2,4) up snd that by (simp add: br' handle_stream_up_def send_output_def Let_def update_conv')
qed

lemma screen_in_order:
  assumes "parse_uuid (bc_uuid X) tnt = Some host" "\<forall>f. round_trips (sf_codec (bc_codecs X)) f" "length frames \<le> 2 ^ 64"
    and "\<forall>j < length frames - 1. \<not> sf_eof (frames ! j)"
    and "map_of (br_shells br) host = Some route" "sr_output route = out" "drained (br_outputs br out)"
    and "next_pos (sr_recv_high route) = i" "i \<le> length frames"
    and "\<forall>k < length frames. \<exists>env. decode_msg (env_codec (bc_codecs X)) (ps k) = Some env \<and> env_seq env = of_nat k
      \<and> open_envelope (bc_crypto X) (sr_stream_keys route) AgentToCoord env = Some (encode_msg (sf_codec (bc_codecs X)) (frames ! k))"
    and br': "br' = screen_run X tnt out (concat (map (\<lambda>k. [UpPayload E (ps k), TakeFrame]) [i..<length frames])) br"
  shows "ch_sent (br_outputs br' out) = ch_sent (br_outputs br out) @ drop i frames \<and> drained (br_outputs br' out)"
  using assms(5-11)
proof (induction "length frames - i" arbitrary: i br route)
  case 0
  then show ?case by simp
next
  case (Suc n)
  have i: "i < length frames" using Suc.hyps(2) by simp
  then have seq: "unat (of_nat i :: u64) = i" using assms(3) by (simp add: unat_of_nat)
  obtain env where env: "decode_msg (env_codec (bc_codecs X)) (ps i) = Some env" "env_seq env = of_nat i"
      "open_envelope (bc_crypto X) (sr_stream_keys route) AgentToCoord env = Some (encode_msg (sf_codec (bc_codecs X)) (frames ! i))"
    using Suc.prems(6) i by blast
  have ab: "above (sr_recv_high route) (env_seq env)" using Suc.prems(4) env(2) seq by (simp add: above_next_pos)
  have dr: "drained (br_outputs br (sr_output route))" and rt: "round_trips (sf_codec (bc_codecs X)) (frames ! i)"
    using Suc.prems(2,3) assms(2) by simp_all
  define br1 where "br1 = screen_run X tnt (sr_output route) [UpPayload E (ps i), TakeFrame] br"
  note step = screen_step_in_order [OF assms(1) Suc.prems(1) dr env(1) ab env(3) rt br1_def]
  have run: "br' = screen_run X tnt out (concat (map (\<lambda>k. [UpPayload E (ps k), TakeFrame]) [Suc i..<length frames])) br1"
    using i Suc.prems(2,7) by (simp add: upt_conv_Cons br1_def)
  have d: "drop i frames = frames ! i # drop (Suc i) frames" using i by (simp add: Cons_nth_drop_Suc)
  show ?case
  proof (cases "Suc i = length frames")
    case True
    then show ?thesis using run step(1,2) d Suc.prems(2) by simp
  next
    case False
    then have ne: "\<not> sf_eof (frames ! i)" using assms(4) i by simp
    let ?r = "route\<lparr>sr_recv_high := Some (env_seq env)\<rparr>"
    have "ch_sent (br_outputs br' out) = ch_sent (br_outputs br1 out) @ drop (Suc i) frames \<and> drained (br_outputs br' out)"
      by (rule Suc.hyps(1) [where route = ?r])
        (use Suc.hyps(2) Suc.prems step(2,3) ne run i seq env(2) in \<open>auto simp: next_pos_def\<close>)
    then show ?thesis using step(1) Suc.prems(2) d by simp
  qed
qed

lemma shell_loop_frames:
  "shell_loop (map (\<lambda>f. (Some (to_shell_server_msg f), True)) fs) clean shown =
     (if clean \<or> (\<exists>f \<in> set fs. sf_eof f) then Inr () else Inl StreamError,
      shown @ concat (map sf_data (takeWhile (\<lambda>f. \<not> sf_eof f) fs)))"
  by (induction fs arbitrary: shown) (auto simp: to_shell_server_msg_def)

lemma subseq_payloads: "subseq fs frames \<Longrightarrow> subseq (map sf_data (takeWhile (\<lambda>f. \<not> sf_eof f) (take n fs))) (payloads frames)"
proof -
  assume "subseq fs frames"
  then have "subseq (filter (\<lambda>f. \<not> sf_eof f) fs) (filter (\<lambda>f. \<not> sf_eof f) frames)" by (rule subseq_filter)
  moreover have "prefix (takeWhile (\<lambda>f. \<not> sf_eof f) (take n fs)) fs"
    by (metis prefix_order.trans take_is_prefix takeWhile_is_prefix)
  then have "subseq (takeWhile (\<lambda>f. \<not> sf_eof f) (take n fs)) (filter (\<lambda>f. \<not> sf_eof f) fs)"
    by (metis (mono_tags, lifting) filter_True prefix_imp_subseq set_takeWhileD subseq_filter)
  ultimately show ?thesis unfolding payloads_def by (metis subseq_map subseq_order.trans)
qed

lemma open_shell_outputs:
  assumes "store_get (br_sessions br) host = Some session" "be_pub1 E"
  shows "br_outputs (open_shell X E host stream_id user rows cols out br) = br_outputs br"
  using assms by (simp add: open_shell_def link_publish_def Let_def split: prod.split)

text \<open>The payloads of the agent's pump, as envelopes that open to the frames of their positions.\<close>

lemma uplink_pump_envs:
  assumes "aead_correct C" "\<forall>env. round_trips (env_codec P) env"
  obtains ps env where "uplink_pump C P keys host_id sid 0 takes reads = map ps [0..<length (up_frames takes reads)]"
    "\<And>k. decode_msg (env_codec P) (ps k) = Some (env k)" "\<And>k. env_seq (env k) = of_nat k"
    "\<And>k. open_envelope C keys AgentToCoord (env k) = Some (encode_msg (sf_codec P) (up_frames takes reads ! k))"
proof -
  define env where "env k = seal_envelope C keys AgentToCoord host_id sid (of_nat k) KIND_STREAM (encode_msg (sf_codec P) (up_frames takes reads ! k))" for k
  have eta: "\<lparr>sf_data = sf_data f, sf_eof = sf_eof f\<rparr> = f" for f by (cases f) simp
  have "uplink_pump C P keys host_id sid 0 takes reads = map (\<lambda>k. encode_msg (env_codec P) (env k)) [0..<length (up_frames takes reads)]"
    by (simp add: uplink_pump_alt seal_frame_def env_def eta)
  moreover have "env_seq (env k) = of_nat k" for k by (simp add: env_def seal_envelope_def)
  moreover have "open_envelope C keys AgentToCoord (env k) = Some (encode_msg (sf_codec P) (up_frames takes reads ! k))" for k
    using assms(1) by (simp add: env_def)
  ultimately show thesis
    by (intro that [of "\<lambda>k. encode_msg (env_codec P) (env k)" env]) (use assms(2) in \<open>simp_all add: round_trips_def\<close>)
qed

lemma up_opens_only:
  assumes "\<And>k. env_seq (env k) = of_nat k" "\<And>k. open_envelope C keys AgentToCoord (env k) = Some (encode_msg (sf_codec P) (frames ! k))"
    and "\<And>k. decode_msg (env_codec P) (ps k) = Some (env k)"
    and "p \<in> set (map ps [0..<length frames])" "decode_msg (env_codec P) p = Some e"
  shows "opens_only C P keys AgentToCoord frames e"
proof -
  obtain k where "k < length frames" "e = env k" using assms(3-5) by auto
  then show ?thesis using assms(1,2) by (auto simp: opens_only_def)
qed

text \<open>What is shown of a part of the frames, and of all of them.\<close>

lemma screen_subseq:
  assumes "subseq fs frames" "ch_sent (br_outputs br out) = fs"
  shows "\<exists>chunks. subseq chunks (payloads frames) \<and> snd (screen out clean br) = concat chunks"
  using subseq_payloads [OF assms(1), of "ch_taken (br_outputs br out)"] assms(2)
  by (auto simp: screen_def Let_def shell_loop_frames)

lemma screen_complete:
  assumes "ch_sent (br_outputs br out) = map data_frame ds @ [eof_frame]" "drained (br_outputs br out)"
  shows "screen out False br = (Inr (), concat ds)"
proof -
  have "takeWhile (\<lambda>f. \<not> sf_eof f) (map data_frame ds @ [eof_frame]) = map data_frame ds"
    by (subst takeWhile_append2) (auto simp: data_frame_def eof_frame_def)
  then show ?thesis using assms by (simp add: screen_def Let_def shell_loop_frames drained_def comp_def) (simp add: data_frame_def eof_frame_def comp_def)
qed

text \<open>
  C13.  Shell output end to end.  What the agent reads from the PTY goes out as sealed frames; the broker
  delivers what it likes to the bridge, the operator's client takes frames or goes away at any time.
  What the operator sees is the concatenation of some of the chunks read, in order and each at most
  once, provided only frames of the agent's pump authenticate under the stream's key.  When every
  frame is delivered in order and taken, the operator sees exactly the output and the session ends cleanly;
  and when the reads are those of the terminal until it hangs up, with spurious wake-ups in between, that
  output is every byte the shell wrote.
\<close>

theorem shell_output_end_to_end:
  assumes "aead_correct (bc_crypto X)" "\<forall>env. round_trips (env_codec (bc_codecs X)) env" "\<forall>f. round_trips (sf_codec (bc_codecs X)) f"
    and tnt: "parse_uuid (bc_uuid X) tnt = Some host"
    and opened: "store_get (br_sessions before) host = Some session" "be_pub1 E0" "br_outputs before out = new_chan cap"
      "br = open_shell X E0 host stream_id user rows cols out before"
    and agent: "ups = uplink_pump (bc_crypto X) (bc_codecs X)
        (derive_stream (bc_crypto X) (ses_keys session) (as_bytes stream_id)) host_id sid 0 takes reads"
      "length reads < 2 ^ 64"
    and authentic: "\<forall>E payload env. UpPayload E payload \<in> set evs \<longrightarrow> decode_msg (env_codec (bc_codecs X)) payload = Some env
      \<longrightarrow> open_envelope (bc_crypto X) (derive_stream (bc_crypto X) (ses_keys session) (as_bytes stream_id)) AgentToCoord env \<noteq> None
      \<longrightarrow> (\<exists>p \<in> set ups. decode_msg (env_codec (bc_codecs X)) p = Some env)"
  shows "(\<exists>chunks. subseq chunks (printed reads) \<and> snd (screen out clean (screen_run X tnt out evs br)) = concat chunks)
    \<and> (0 < cap \<and> length (printed reads) < takes \<longrightarrow>
        screen out False (screen_run X tnt out (concat (map (\<lambda>p. [UpPayload E p, TakeFrame]) ups)) br) = (Inr (), concat (printed reads)))
    \<and> (\<forall>pre post. 0 < cap \<and> list_all flowing pre \<and> reads = pty_reads SHELL_READ_CHUNK (pre @ CallFailed EIO # post) \<and> length reads \<le> takes \<longrightarrow>
        screen out False (screen_run X tnt out (concat (map (\<lambda>p. [UpPayload E p, TakeFrame]) ups)) br) = (Inr (), event_bytes pre))"
proof -
  let ?C = "bc_crypto X" and ?P = "bc_codecs X" and ?keys = "derive_stream (bc_crypto X) (ses_keys session) (as_bytes stream_id)"
  define frames where "frames = up_frames takes reads"
  obtain ps env where ups: "ups = map ps [0..<length frames]"
      and env: "\<And>k. decode_msg (env_codec ?P) (ps k) = Some (env k)" "\<And>k. env_seq (env k) = of_nat k"
        "\<And>k. open_envelope ?C ?keys AgentToCoord (env k) = Some (encode_msg (sf_codec ?P) (frames ! k))"
    unfolding agent(1)
    by (rule uplink_pump_envs [OF assms(1,2), where keys = ?keys and host_id = host_id and sid = sid and takes = takes and reads = reads])
      (rule that, unfold frames_def agent(1))
  obtain route where route: "map_of (br_shells br) host = Some route" "sr_stream_keys route = ?keys" "sr_recv_high route = None" "sr_output route = out"
    using open_shell_step(1) [OF opened(1,2), of X stream_id user rows cols out] opened(4) by auto
  have ch: "br_outputs br out = new_chan cap" using open_shell_outputs [OF opened(1,2)] opened(3,4) by simp
  have "length (printed reads) \<le> length reads" by (simp add: printed_def length_takeWhile_le)
  then have len: "length frames \<le> 2 ^ 64" using agent(2) by (simp add: frames_def up_frames_def)
  have pay: "payloads frames = take takes (printed reads)" unfolding frames_def up_frames_def by (rule payloads_typed)
  have only: "opens_only ?C ?P (sr_stream_keys route) AgentToCoord frames e"
    if "UpPayload E payload \<in> set evs" "decode_msg (env_codec ?P) payload = Some e" for E payload e
  proof (cases "open_envelope ?C ?keys AgentToCoord e")
    case (Some m)
    then obtain p where "p \<in> set ups" "decode_msg (env_codec ?P) p = Some e" using authentic \<open>UpPayload E payload \<in> set evs\<close> \<open>decode_msg (env_codec ?P) payload = Some e\<close> by fastforce
    then show ?thesis unfolding ups route(2) by (rule up_opens_only [OF env(2,3,1)])
  qed (simp add: opens_only_def route(2))
  have "\<exists>fs. subseq fs (drop (next_pos (sr_recv_high route)) frames)
      \<and> ch_sent (br_outputs (screen_run X tnt out evs br) out) = ch_sent (br_outputs br out) @ fs"
    by (rule screen_run_subseq [OF tnt route(1,4) assms(3) len]) (blast intro: only)
  then obtain chunks where "subseq chunks (payloads frames)" "snd (screen out clean (screen_run X tnt out evs br)) = concat chunks"
    using screen_subseq [of _ frames _ out clean] ch route(3) by (auto simp: next_pos_def new_chan_def)
  moreover have "subseq (payloads frames) (printed reads)" by (simp add: pay prefix_imp_subseq take_is_prefix)
  ultimately have some: "\<exists>chunks. subseq chunks (printed reads) \<and> snd (screen out clean (screen_run X tnt out evs br)) = concat chunks"
    by (meson subseq_order.trans)
  have whole: "screen out False (screen_run X tnt out (concat (map (\<lambda>p. [UpPayload E p, TakeFrame]) ups)) br) = (Inr (), concat (printed reads))"
    if all: "0 < cap" "length (printed reads) < takes"
  proof -
    let ?br = "screen_run X tnt out (concat (map (\<lambda>k. [UpPayload E (ps k), TakeFrame]) [0..<length frames])) br"
    have fr: "frames = map data_frame (printed reads) @ [eof_frame]" using all(2) by (simp add: frames_def up_frames_def)
    have "ch_sent (br_outputs ?br out) = ch_sent (br_outputs br out) @ drop 0 frames \<and> drained (br_outputs ?br out)"
    proof (rule screen_in_order [OF tnt assms(3) len _ route(1,4) _ _ _ _ refl])
      show "\<forall>j < length frames - 1. \<not> sf_eof (frames ! j)" by (simp add: fr nth_append data_frame_def)
      show "drained (br_outputs br out)" using all(1) ch by (simp add: drained_def new_chan_def)
    qed (use env route(2,3) in \<open>auto simp: next_pos_def\<close>)
    then show ?thesis using screen_complete [of ?br out "printed reads"] ch fr by (simp add: new_chan_def ups comp_def)
  qed
  show ?thesis using some whole printed_pty_reads by (metis (no_types, lifting) order_less_le_trans)
qed

theorem shell_output_end_to_end_witness:
  "\<exists>ups. length ups = 3 \<and> screen 0 False (screen_run shell_ctx (hyphenated tally_uuid 7) 0
     (concat (map (\<lambda>p. [UpPayload sample_benv p, TakeFrame]) ups)) (open_shell shell_ctx sample_benv 7 ''x'' [] 24 80 0 shell_bridge))
     = (Inr (), [104, 105, 10])"
proof -
  define reads :: "bytes list" where "reads = [[104, 105], [10]]"
  have printed: "printed reads = reads" by (simp add: printed_def reads_def SHELL_READ_CHUNK_def)
  define ups where "ups = uplink_pump (bc_crypto shell_ctx) (bc_codecs shell_ctx)
    (derive_stream (bc_crypto shell_ctx) (ses_keys sample_session) (as_bytes ''x'')) ''h'' ''s'' 0 9 reads"
  have laws: "aead_correct (bc_crypto shell_ctx)" "\<forall>env. round_trips (env_codec (bc_codecs shell_ctx)) env"
      "\<forall>f. round_trips (sf_codec (bc_codecs shell_ctx)) f"
    by (simp_all add: shell_samples toy_crypto_laws lossless_codecs_round_trip)
  have tnt: "parse_uuid (bc_uuid shell_ctx) (hyphenated tally_uuid 7) = Some 7"
    using tally_uuid_laws by (simp add: shell_ctx_def sample_ctx_def uuid_laws_def)
  have ch: "br_outputs shell_bridge 0 = new_chan 1" by (simp add: shell_bridge_def sample_bridge_def bridge_init_def)
  have len: "length reads < 2 ^ 64" by (simp add: reads_def)
  have "screen 0 False (screen_run shell_ctx (hyphenated tally_uuid 7) 0
     (concat (map (\<lambda>p. [UpPayload sample_benv p, TakeFrame]) ups)) (open_shell shell_ctx sample_benv 7 ''x'' [] 24 80 0 shell_bridge))
     = (Inr (), concat (printed reads))"
    using shell_output_end_to_end [OF laws tnt shell_samples(3,6) ch refl ups_def len, of "[]", THEN conjunct2, THEN conjunct1]
    by (simp add: printed) (simp add: reads_def)
  moreover have "length ups = 3" by (simp add: ups_def reads_def)
  ultimately show ?thesis unfolding printed by (intro exI [of _ ups]) (simp add: reads_def)
qed

end
