(* ===== verification/Exec_Path.thy ===== *)
theory Exec_Path
  imports Shell_Path Dispatch
begin

text \<open>
  A command from \<open>osa exec\<close> to the host: the client's request, the service's audited fan-out, the
  bridge's sealed dispatch, an untrusted broker, and the job task the agent starts.
\<close>

subsection \<open>Commands of the bridge and what they seal for a host\<close>

definition from_command :: "bridge_ctx \<Rightarrow> uuid \<Rightarrow> session_keys \<Rightarrow> bridge_command \<Rightarrow> bytes \<Rightarrow> bool" where
  "from_command X host keys c p \<longleftrightarrow>
     (\<exists>d sid seq. p = encode_msg (env_codec (bc_codecs X)) (seal_envelope (bc_crypto X) keys CoordToAgent
           (hyphenated (bc_uuid X) host) sid seq KIND_CONTROL (encode_msg (dm_codec (bc_codecs X)) d))
        \<and> ((\<exists>chan. c = CmdDispatch host d chan)
           \<or> (\<exists>rows cols out. c = CmdOpenShell host (dm_job_id d) (dm_run_as d) rows cols out \<and> dm_kind d = ''shell'')))"

lemma dispatch_down_inj:
  assumes "uuid_laws U"
  shows "dispatch_down (hyphenated U u) = dispatch_down (hyphenated U v) \<longleftrightarrow> u = v"
proof -
  have "dispatch_down (hyphenated U u) = dispatch_down (hyphenated U v) \<longleftrightarrow> tenant (hyphenated U u) = tenant (hyphenated U v)"
    by (simp add: dispatch_down_def tenant_prefix_def)
  then show ?thesis by (simp add: tenant_hyphenated [OF assms] simple_hex_inj [OF assms])
qed

lemma stream_down_not_dispatch_down: "stream_down h \<noteq> dispatch_down h'"
proof
  assume "stream_down h = dispatch_down h'"
  then have "last (stream_down h) = last (dispatch_down h')" by simp
  then show False by (simp add: stream_down_def dispatch_down_def)
qed

lemma send_frame_conditions [simp]:
  "br_sessions (snd (send_output c v br)) = br_sessions br" "br_published (snd (send_output c v br)) = br_published br"
  "br_sessions (snd (send_result_event c v' br)) = br_sessions br" "br_published (snd (send_result_event c v' br)) = br_published br"
  by (simp_all add: send_output_def send_result_event_def split: prod.split)

text \<open>What sealing a dispatch for a host does to sessions and link.\<close>

definition seals_dispatch :: "bridge_ctx \<Rightarrow> bool \<Rightarrow> uuid \<Rightarrow> dispatch_msg \<Rightarrow> 'e bridge \<Rightarrow> 'e bridge \<Rightarrow> bool" where
  "seals_dispatch X ok host d br br' \<longleftrightarrow>
     br_sessions br' = br_sessions br \<and> br_published br' = br_published br
     \<or> (\<exists>ses. store_get (br_sessions br) host = Some ses
          \<and> br_sessions br' = store_put (br_sessions br) host (ses\<lparr>ses_send_seq := ses_send_seq ses + 1\<rparr>)
          \<and> br_published br' = br_published br @ (if ok then [(dispatch_down (hyphenated (bc_uuid X) host),
              fst (seal_downlink (bc_crypto X) (bc_codecs X) (hyphenated (bc_uuid X) host) (encode_msg (dm_codec (bc_codecs X)) d) ses))] else []))"

lemma dispatch_job_seals: "seals_dispatch X (be_pub1 E) host d br (dispatch_job X E host d chan br)"
  by (auto simp: seals_dispatch_def dispatch_job_def seal_downlink_def link_publish_def Let_def split: option.split)

lemma open_shell_seals:
  "seals_dispatch X (be_pub1 E) host \<lparr>dm_job_id = stream_id, dm_kind = ''shell'', dm_run_as = user,
       dm_params = encode_msg (sp_codec (bc_codecs X)) \<lparr>sp_rows = rows, sp_cols = cols\<rparr>\<rparr> br (open_shell X E host stream_id user rows cols out br)"
  by (auto simp: seals_dispatch_def open_shell_def seal_downlink_def link_publish_def Let_def split: option.split)

text \<open>One command: the session of the host keeps its keys, and what goes out on the host's dispatch
  topic is the command's own dispatch, sealed under them.\<close>

definition host_step :: "bridge_ctx \<Rightarrow> uuid \<Rightarrow> session_keys \<Rightarrow> bridge_command \<Rightarrow> 'e bridge \<Rightarrow> 'e bridge \<Rightarrow> bool" where
  "host_step X host keys c br br' \<longleftrightarrow>
     (\<exists>session new. store_get (br_sessions br') host = Some session \<and> ses_keys session = keys
        \<and> br_published br' = br_published br @ new
        \<and> (\<forall>p. (dispatch_down (hyphenated (bc_uuid X) host), p) \<in> set new \<longrightarrow> from_command X host keys c p))"

lemma seals_dispatch_host_step:
  assumes "uuid_laws (bc_uuid X)" "store_get (br_sessions br) host = Some session" "seals_dispatch X ok h d br br'"
    and "h = host \<Longrightarrow> (\<exists>chan. c = CmdDispatch host d chan)
      \<or> (\<exists>rows cols out. c = CmdOpenShell host (dm_job_id d) (dm_run_as d) rows cols out \<and> dm_kind d = ''shell'')"
  shows "host_step X host (ses_keys session) c br br'"
  using assms(3)
proof (unfold seals_dispatch_def, elim disjE exE conjE)
  assume "br_sessions br' = br_sessions br" "br_published br' = br_published br"
  then show ?thesis using assms(2) by (simp add: host_step_def)
next
  fix ses
  let ?p = "fst (seal_downlink (bc_crypto X) (bc_codecs X) (hyphenated (bc_uuid X) h) (encode_msg (dm_codec (bc_codecs X)) d) ses)"
  assume ses: "store_get (br_sessions br) h = Some ses" "br_sessions br' = store_put (br_sessions br) h (ses\<lparr>ses_send_seq := ses_send_seq ses + 1\<rparr>)"
    and pub: "br_published br' = br_published br @ (if ok then [(dispatch_down (hyphenated (bc_uuid X) h), ?p)] else [])"
  have "store_get (br_sessions br') host = Some (if h = host then ses\<lparr>ses_send_seq := ses_send_seq ses + 1\<rparr> else session)"
    using ses assms(2) by (simp add: store_get_put)
  moreover have "from_command X host (ses_keys session) c ?p" if "h = host"
    unfolding from_command_def
    by (rule exI [of _ d], rule exI [of _ "ses_sid ses"], rule exI [of _ "ses_send_seq ses"])
      (use assms(2,4) ses(1) that in \<open>auto simp: seal_downlink_def Let_def\<close>)
  ultimately show ?thesis
    unfolding host_step_def using pub assms(2) ses(1)
    by (intro exI [of _ "if h = host then ses\<lparr>ses_send_seq := ses_send_seq ses + 1\<rparr> else session"]
          exI [of _ "if ok then [(dispatch_down (hyphenated (bc_uuid X) h), ?p)] else []"])
      (auto simp: dispatch_down_inj [OF assms(1)])
qed

lemma handle_command_host_step:
  assumes "uuid_laws (bc_uuid X)" "store_get (br_sessions br) host = Some session"
  shows "host_step X host (ses_keys session) c br (handle_command X E c br)"
proof (cases c)
  case (CmdDispatch h d chan)
  show ?thesis
    using seals_dispatch_host_step [OF assms dispatch_job_seals [of X E h d br chan], of c] CmdDispatch by simp
next
  case (CmdOpenShell h stream_id user rows cols out)
  show ?thesis
    using seals_dispatch_host_step [OF assms open_shell_seals [of X E h stream_id user rows cols br out], of c] CmdOpenShell by simp
next
  case (CmdShellInput h stream_id data)
  then show ?thesis
    using assms(2) stream_down_not_dispatch_down [symmetric]
    by (auto simp: host_step_def shell_input_def link_publish_def Let_def split: option.split prod.split)
next
  case (CmdShellClose h stream_id)
  then show ?thesis
    using assms(2) stream_down_not_dispatch_down [symmetric]
    by (auto simp: host_step_def shell_close_def close_shell_route_def link_publish_def Let_def split: option.split prod.split)
qed (use assms(2) in \<open>simp add: host_step_def\<close>)

lemma run_commands_published:
  assumes "uuid_laws (bc_uuid X)" "store_get (br_sessions br) host = Some session"
  shows "\<exists>new. br_published (run_commands X ecs br) = br_published br @ new
    \<and> (\<forall>p. (dispatch_down (hyphenated (bc_uuid X) host), p) \<in> set new
        \<longrightarrow> (\<exists>c \<in> snd ` set ecs. from_command X host (ses_keys session) c p))"
  using assms(2)
proof (induction ecs arbitrary: br session)
  case (Cons ec ecs)
  obtain E c where ec: "ec = (E, c)" by (cases ec)
  obtain session' new where step: "store_get (br_sessions (handle_command X E c br)) host = Some session'" "ses_keys session' = ses_keys session"
    "br_published (handle_command X E c br) = br_published br @ new"
    "\<forall>p. (dispatch_down (hyphenated (bc_uuid X) host), p) \<in> set new \<longrightarrow> from_command X host (ses_keys session) c p"
    using handle_command_host_step [OF assms(1) Cons.prems, of c E] unfolding host_step_def by blast
  obtain new' where "br_published (run_commands X ecs (handle_command X E c br)) = br_published (handle_command X E c br) @ new'"
    "\<forall>p. (dispatch_down (hyphenated (bc_uuid X) host), p) \<in> set new' \<longrightarrow> (\<exists>c \<in> snd ` set ecs. from_command X host (ses_keys session') c p)"
    using Cons.IH [OF step(1)] by blast
  then show ?case using step(2-4) ec by (intro exI [of _ "new @ new'"]) auto
qed simp

subsection \<open>Dispatches of the service and the requests behind them\<close>

definition requested :: "'a operator_call list \<Rightarrow> dispatch_msg \<Rightarrow> bool" where
  "requested calls d \<longleftrightarrow> (\<exists>e ext req action. ExecCall e ext req \<in> set calls \<and> dr_action req = Some action
     \<and> dm_kind d = ad_kind action \<and> dm_run_as d = ad_run_as action \<and> dm_params d = dr_params req)"

lemma shell_pump_no_dispatch: "CmdDispatch h d c \<notin> set (shell_pump host stream_id takes msgs)"
  by (induction host stream_id takes msgs rule: shell_pump.induct) simp_all

lemma operator_step_dispatches:
  assumes "CmdDispatch host d chan \<in> set (sv_commands (operator_step U pdp call sv))"
  shows "CmdDispatch host d chan \<in> set (sv_commands sv) \<or> requested [call] d"
proof (cases call)
  case (ExecCall e ext req)
  show ?thesis
  proof (cases "\<exists>action hosts sv1. dr_action req = Some action \<and> ad_kind action \<noteq> [] \<and> hosts \<noteq> []
      \<and> resolve U (xe_sent e) (xe_online e) (xe_reply e) (ad_target action) sv = (Inr hosts, sv1)")
    case True
    then obtain action hosts sv1 where a: "dr_action req = Some action" "ad_kind action \<noteq> []" "hosts \<noteq> []"
        "resolve U (xe_sent e) (xe_online e) (xe_reply e) (ad_target action) sv = (Inr hosts, sv1)" by blast
    have "CmdDispatch host d chan \<in> set (sv_commands (exec_fanout U pdp (operator_of ext) action (dr_params req) (xe_chan e) (xe_hosts e) hosts sv1))"
      using assms a by (simp add: ExecCall exec_call_def)
    then have "CmdDispatch host d chan \<in> set (sv_commands sv1) \<or> requested [call] d"
      using exec_fanout_accounts [of U pdp "operator_of ext" action "dr_params req" "xe_chan e" "xe_hosts e" hosts sv1] a(1)
      by (auto simp: list_all_iff requested_def ExecCall)
    moreover have "CmdDispatch host d chan \<in> set (sv_commands sv1) \<longrightarrow> CmdDispatch host d chan \<in> set (sv_commands sv)"
      using a(4) by (auto simp: resolve_def Let_def split: if_splits sum.splits option.splits)
    ultimately show ?thesis by blast
  next
    case False
    then show ?thesis
      using assms
      by (auto simp: ExecCall exec_call_def resolve_def Let_def split: option.splits if_splits prod.splits sum.splits)
  qed
next
  case (ShellCall e ext first rest)
  then show ?thesis
    using assms by (auto simp: shell_call_def Let_def shell_pump_no_dispatch split: sum.splits option.splits shell_client_msg.splits prod.splits if_splits)
next
  case (DispatchCall now ap ext req)
  then show ?thesis
    using assms by (auto simp: dispatch_call_def split: option.splits prod.splits sum.splits decision.splits if_splits)
qed

lemma operator_calls_dispatches:
  "CmdDispatch host d chan \<in> set (sv_commands (operator_calls U pdp calls sv))
   \<Longrightarrow> CmdDispatch host d chan \<in> set (sv_commands sv) \<or> requested calls d"
proof (induction calls arbitrary: sv)
  case (Cons call calls)
  then have "CmdDispatch host d chan \<in> set (sv_commands (operator_step U pdp call sv)) \<or> requested calls d"
    by (simp add: operator_calls_def)
  then show ?case using operator_step_dispatches [of host d chan U pdp call sv] by (auto simp: requested_def)
qed (simp add: operator_calls_def)

subsection \<open>The job task\<close>

lemma on_publish_job:
  assumes "cc_jobs (on_publish C P pty ident backstop topics ok topic payload cc) \<noteq> cc_jobs cc"
  obtains est env d where "cc_session cc = Some est" "decode_msg (env_codec P) payload = Some env"
    "\<exists>m. open_envelope C (est_keys est) CoordToAgent env = Some m \<and> decode_msg (dm_codec P) m = Some d" "dm_kind d \<noteq> SHELL_KIND"
    "cc_jobs (on_publish C P pty ident backstop topics ok topic payload cc)
       = cc_jobs cc @ [\<lparr>jt_dispatch = d, jt_keys = est_keys est, jt_host_id = id_host_id ident, jt_sid = est_sid est\<rparr>]"
proof -
  obtain est d est' where est: "cc_session cc = Some est" and d: "open_dispatch C P est payload = (Some d, est')"
    and act: "on_publish C P pty ident backstop topics ok topic payload cc
      = (if dm_kind d = SHELL_KIND then handle_shell_open C P pty est' backstop d (cc\<lparr>cc_session := Some est'\<rparr>)
         else handle_job est' ident d (cc\<lparr>cc_session := Some est'\<rparr>))"
    by (rule on_publish_acts [OF refl disjI1 [OF assms]])
  have kind: "dm_kind d \<noteq> SHELL_KIND" using assms act by auto
  obtain env m where env: "decode_msg (env_codec P) payload = Some env" "open_downlink C est env = (Some m, est')" "decode_msg (dm_codec P) m = Some d"
    using d by (auto simp: open_dispatch_def split: option.splits prod.splits)
  have "est_keys est' = est_keys est \<and> est_sid est' = est_sid est \<and> open_envelope C (est_keys est) CoordToAgent env = Some m"
    using env(2) by (auto simp: open_downlink_def accept_recv_def split: option.splits if_splits)
  then show thesis
    using that [OF est env(1), of d] env(3) kind assms act handle_job_simps(2) [of est' ident d "cc\<lparr>cc_session := Some est'\<rparr>"] by auto
qed

text \<open>
  C1.  A command end to end.  Operators call the service with \<open>osa exec\<close> requests and shells; the service
  audits to Postgres, with statements failing and commits lost, and hands commands to the bridge; the
  bridge seals them for the host's session; a broker delivers any payload to the agent.  Whenever the
  agent starts a job task, its dispatch is one that some operator asked for: the user is the requested
  one and the parameters decode to exactly the typed command line; and the exported audit chain
  verifies and holds an \<open>Allow\<close> record for this host and user, of a subject the policy authorizes.
  The one assumption on the broker's world is that only what the bridge sealed for this host opens
  under the session's key.
\<close>

theorem operator_command_end_to_end:
  assumes "uuid_laws (bc_uuid X)" "aead_correct (bc_crypto X)" "\<forall>env. round_trips (env_codec (bc_codecs X)) env"
      "\<forall>d. round_trips (dm_codec (bc_codecs X)) d" "\<forall>p. round_trips (ep_codec (bc_codecs X)) p"
    and calls: "list_all (call_uses (pg_append sha)) calls" "MAX_FANOUT * length calls < 2 ^ 63"
      "\<forall>e ext req. ExecCall e ext req \<in> set calls
        \<longrightarrow> (\<exists>selector user argv. cli_exec_request (bc_crypto X) (bc_codecs X) selector user argv = Inr req)"
    and service: "sv = operator_calls (bc_uuid X) (authorize (bc_uuid X) rbac) calls (new_service t r [])"
    and bridge: "map snd ecs = sv_commands sv" "store_get (br_sessions br) host = Some session"
    and sealed: "\<forall>env. decode_msg (env_codec (bc_codecs X)) payload = Some env
      \<longrightarrow> open_envelope (bc_crypto X) (ses_keys session) CoordToAgent env \<noteq> None
      \<longrightarrow> (dispatch_down (hyphenated (bc_uuid X) host), payload) \<in> set (drop (length (br_published br)) (br_published (run_commands X ecs br)))"
    and agent: "cc_session cc = Some est" "est_keys est = ses_keys session"
      "cc' = on_publish (bc_crypto X) (bc_codecs X) pty ident backstop topics ok topic payload cc" "cc_jobs cc' \<noteq> cc_jobs cc"
  shows "\<exists>d e ext req selector user argv es.
      cc_jobs cc' = cc_jobs cc @ [\<lparr>jt_dispatch = d, jt_keys = est_keys est, jt_host_id = id_host_id ident, jt_sid = est_sid est\<rparr>]
    \<and> ExecCall e ext req \<in> set calls \<and> cli_exec_request (bc_crypto X) (bc_codecs X) selector user argv = Inr req
    \<and> dm_kind d = ''exec'' \<and> dm_run_as d = user \<and> decode_msg (ep_codec (bc_codecs X)) (dm_params d) = Some \<lparr>ep_argv = argv\<rparr>
    \<and> pg_export (sv_audit sv) = Inr es \<and> verify sha es None = Inr ()
    \<and> allows_start (bc_uuid X) (authorize (bc_uuid X) rbac) (map ae_record es) host ''exec'' user"
proof -
  let ?C = "bc_crypto X" and ?P = "bc_codecs X" and ?U = "bc_uuid X" and ?pdp = "authorize (bc_uuid X) rbac"
  obtain env d where env: "decode_msg (env_codec ?P) payload = Some env"
      "\<exists>m. open_envelope ?C (ses_keys session) CoordToAgent env = Some m \<and> decode_msg (dm_codec ?P) m = Some d" "dm_kind d \<noteq> SHELL_KIND"
      "cc_jobs cc' = cc_jobs cc @ [\<lparr>jt_dispatch = d, jt_keys = est_keys est, jt_host_id = id_host_id ident, jt_sid = est_sid est\<rparr>]"
    by (rule on_publish_job [OF agent(4) [unfolded agent(3)]]) (use agent in auto)
  obtain c where c: "c \<in> set (sv_commands sv)" "from_command X host (ses_keys session) c payload"
  proof -
    obtain new where new: "br_published (run_commands X ecs br) = br_published br @ new"
        "\<forall>p. (dispatch_down (hyphenated ?U host), p) \<in> set new \<longrightarrow> (\<exists>c \<in> snd ` set ecs. from_command X host (ses_keys session) c p)"
      using run_commands_published [OF assms(1) bridge(2), of ecs] by blast
    moreover have "(dispatch_down (hyphenated ?U host), payload) \<in> set new" using sealed env(1,2) new(1) by auto
    ultimately show thesis using that bridge(1) by (metis list.set_map)
  qed
  then obtain d' sid seq where d': "payload = encode_msg (env_codec ?P) (seal_envelope ?C (ses_keys session) CoordToAgent
        (hyphenated ?U host) sid seq KIND_CONTROL (encode_msg (dm_codec ?P) d'))"
      "(\<exists>chan. c = CmdDispatch host d' chan) \<or> dm_kind d' = ''shell''"
    by (auto simp: from_command_def)
  then have "d' = d" using env(1,2) assms(2-4) by (auto simp: round_trips_def)
  then obtain chan where cmd: "CmdDispatch host d chan \<in> set (sv_commands sv)" using c(1) d'(2) env(3) by (auto simp: SHELL_KIND_def)
  then have "requested calls d"
    using operator_calls_dispatches [of host d chan ?U ?pdp calls "new_service t r []"] service by (simp add: new_service_def)
  then obtain e ext req action where req: "ExecCall e ext req \<in> set calls" "dr_action req = Some action"
      "dm_kind d = ad_kind action" "dm_run_as d = ad_run_as action" "dm_params d = dr_params req"
    by (auto simp: requested_def)
  then obtain selector user argv where cli: "cli_exec_request ?C ?P selector user argv = Inr req" using calls(3) by blast
  have fields: "dm_kind d = ''exec''" "dm_run_as d = user" "decode_msg (ep_codec ?P) (dm_params d) = Some \<lparr>ep_argv = argv\<rparr>"
    using cli req(2-5) assms(5) by (auto simp: cli_exec_request_def Let_def round_trips_def split: if_splits)
  have "pg_holds [] []" by (simp add: pg_holds_def)
  from pg_log.exported_log_justifies [OF assms(1) this calls(2,1), of "new_service t r []" ?pdp]
  obtain es where es: "pg_export (sv_audit sv) = Inr es" "verify sha es None = Inr ()"
      "list_all (command_audited ?U ?pdp (map ae_record es)) (sv_commands sv)"
    unfolding service by (auto simp: new_service_def)
  then have "allows_start ?U ?pdp (map ae_record es) host ''exec'' user" using cmd fields(1,2) by (auto simp: list_all_iff)
  then show ?thesis using env(4) req(1) cli fields es(1,2) by blast
qed

definition sample_pg_exec_env :: "hasher \<Rightarrow> audit_row list exec_env" where
  "sample_pg_exec_env sha = \<lparr>xe_sent = True, xe_online = Some [7], xe_reply = 0, xe_chan = 1,
      xe_hosts = (\<lambda>_. \<lparr>he_now = 0, he_append = pg_append sha \<lparr>io_ok = (\<lambda>_. True), io_commit = Committed\<rparr>, he_job_id = 9, he_bridge = True\<rparr>)\<rparr>"

definition sample_cli_request :: dispatch_request where
  "sample_cli_request = \<lparr>dr_action = Some \<lparr>ad_kind = ''exec'', ad_target = ''*'', ad_run_as = ''deploy'',
       ad_params_hash = params_hash toy_crypto (encode_msg (ep_codec lossless_codecs) \<lparr>ep_argv = [''id'']\<rparr>)\<rparr>,
     dr_params = encode_msg (ep_codec lossless_codecs) \<lparr>ep_argv = [''id'']\<rparr>\<rparr>"

definition sample_dispatch :: dispatch_msg where
  "sample_dispatch = \<lparr>dm_job_id = hyphenated tally_uuid 9, dm_kind = ''exec'', dm_run_as = ''deploy'',
     dm_params = encode_msg (ep_codec lossless_codecs) \<lparr>ep_argv = [''id'']\<rparr>\<rparr>"

lemma sample_exec_commands:
  "sv_commands (operator_calls tally_uuid (authorize tally_uuid sample_rbac)
      [ExecCall (sample_pg_exec_env sha) (Some ''alice'') sample_cli_request] (new_service () () [])) = [CmdOnlineHosts 0, CmdDispatch 7 sample_dispatch 1]"
proof -
  have p: "parse_uuid tally_uuid (hyphenated tally_uuid 7) = Some 7" using tally_uuid_laws by (simp add: uuid_laws_def)
  show ?thesis
    by (simp add: operator_calls_def sample_pg_exec_env_def sample_cli_request_def exec_call_def resolve_def MAX_FANOUT_def exec_host_def new_service_def
        authorize_and_audit_def authorize_def p sample_rbac_def binding_allows_def operator_of_def pg_append_def select_head_def Let_def sample_dispatch_def)
qed

definition sample_exec_commands_in_env :: "((uuid, u64) amap bridge_env \<times> bridge_command) list" where
  "sample_exec_commands_in_env = map (Pair sample_benv) [CmdOnlineHosts 0, CmdDispatch 7 sample_dispatch 1]"

definition sample_exec_envelope :: envelope where
  "sample_exec_envelope = seal_envelope toy_crypto \<lparr>c2a = 1, a2c = 2\<rparr> CoordToAgent (hyphenated tally_uuid 7) ''s'' 1 KIND_CONTROL
     (encode_msg (dm_codec lossless_codecs) sample_dispatch)"

definition sample_exec_payload :: bytes where
  "sample_exec_payload = encode_msg (env_codec lossless_codecs) sample_exec_envelope"

definition sample_exec_conn :: agent_conn where
  "sample_exec_conn = on_publish toy_crypto lossless_codecs (\<lambda>_ _ _. Inr None) sample_ident (la_new [] []) (for_host ''h'') True (dispatch_down ''h'')
     sample_exec_payload sample_conn"

lemma shell_ctx_params [simp]:
  "bc_uuid shell_ctx = tally_uuid" "bc_crypto shell_ctx = toy_crypto" "bc_codecs shell_ctx = lossless_codecs"
  by (simp_all add: shell_ctx_def sample_ctx_def)

lemma sample_exec_published:
  "(dispatch_down (hyphenated tally_uuid 7), sample_exec_payload)
     \<in> set (drop (length (br_published shell_bridge)) (br_published (run_commands shell_ctx sample_exec_commands_in_env shell_bridge)))"
proof -
  define hs where "hs = hyphenated tally_uuid 7"
  have "br_published (run_commands shell_ctx sample_exec_commands_in_env shell_bridge) = [(dispatch_down hs, sample_exec_payload)]"
    by (simp add: sample_exec_commands_in_env_def dispatch_job_def shell_samples sample_session_def seal_downlink_def link_publish_def Let_def
        hs_def [symmetric] MAX_PENDING_JOBS_def sample_exec_payload_def sample_exec_envelope_def)
      (simp add: shell_bridge_def sample_bridge_def bridge_init_def sample_benv_def)
  moreover have "br_published shell_bridge = []" by (simp add: shell_bridge_def sample_bridge_def bridge_init_def)
  ultimately show ?thesis by (simp add: hs_def)
qed

lemma sample_exec_delivered: "cc_jobs sample_exec_conn \<noteq> cc_jobs sample_conn"
proof -
  have decode: "decode_msg (env_codec lossless_codecs) sample_exec_payload = Some sample_exec_envelope"
    using lossless_codecs_round_trip(1) by (simp add: sample_exec_payload_def round_trips_def)
  have "open_envelope toy_crypto \<lparr>c2a = 1, a2c = 2\<rparr> CoordToAgent sample_exec_envelope = Some (encode_msg (dm_codec lossless_codecs) sample_dispatch)"
    unfolding sample_exec_envelope_def by (rule open_seal_envelope [OF toy_crypto_laws(1)])
  moreover have "decode_msg (dm_codec lossless_codecs) (encode_msg (dm_codec lossless_codecs) sample_dispatch) = Some sample_dispatch"
    using lossless_codecs_round_trip(3) by (simp add: round_trips_def)
  ultimately show ?thesis
    by (simp add: sample_exec_conn_def on_publish_def for_host_def topic_defs open_dispatch_def decode open_downlink_def accept_recv_def sample_conn_def
        conn_init_def handle_job_def MAX_CONCURRENT_JOBS_def Let_def) (simp add: sample_dispatch_def SHELL_KIND_def)
qed

theorem operator_command_end_to_end_witness:
  "\<exists>(cc' :: agent_conn) d es. cc_jobs cc' = [\<lparr>jt_dispatch = d, jt_keys = \<lparr>c2a = 1, a2c = 2\<rparr>, jt_host_id = ''h'', jt_sid = ''s''\<rparr>]
    \<and> decode_msg (ep_codec lossless_codecs) (dm_params d) = Some \<lparr>ep_argv = [''id'']\<rparr> \<and> dm_run_as d = ''deploy''
    \<and> verify (\<lambda>_. 0) es None = Inr ()
    \<and> allows_start tally_uuid (authorize tally_uuid sample_rbac) (map ae_record es) 7 ''exec'' ''deploy''"
proof -
  define calls where "calls = [ExecCall (sample_pg_exec_env (\<lambda>_. 0)) (Some ''alice'') sample_cli_request]"
  define sv where "sv = operator_calls tally_uuid (authorize tally_uuid sample_rbac) calls (new_service () () [])"
  have uses: "list_all (call_uses (pg_append (\<lambda>_. 0))) calls" by (auto simp: calls_def sample_pg_exec_env_def)
  have few: "MAX_FANOUT * length calls < 2 ^ 63" by (simp add: calls_def MAX_FANOUT_def)
  have cli: "cli_exec_request toy_crypto lossless_codecs ''*'' ''deploy'' [''id''] = Inr sample_cli_request"
    by (simp add: cli_exec_request_def sample_cli_request_def Let_def)
  have laws: "uuid_laws (bc_uuid shell_ctx)" "aead_correct (bc_crypto shell_ctx)" "\<forall>env. round_trips (env_codec (bc_codecs shell_ctx)) env"
      "\<forall>d. round_trips (dm_codec (bc_codecs shell_ctx)) d" "\<forall>p. round_trips (ep_codec (bc_codecs shell_ctx)) p"
    by (simp_all add: tally_uuid_laws toy_crypto_laws lossless_codecs_round_trip)
  have "\<exists>d e ext req selector user argv es.
      cc_jobs sample_exec_conn = cc_jobs sample_conn @ [\<lparr>jt_dispatch = d, jt_keys = \<lparr>c2a = 1, a2c = 2\<rparr>, jt_host_id = id_host_id sample_ident, jt_sid = ''s''\<rparr>]
    \<and> ExecCall e ext req \<in> set calls \<and> cli_exec_request toy_crypto lossless_codecs selector user argv = Inr req
    \<and> dm_kind d = ''exec'' \<and> dm_run_as d = user \<and> decode_msg (ep_codec lossless_codecs) (dm_params d) = Some \<lparr>ep_argv = argv\<rparr>
    \<and> pg_export (sv_audit sv) = Inr es \<and> verify (\<lambda>_. 0) es None = Inr ()
    \<and> allows_start tally_uuid (authorize tally_uuid sample_rbac) (map ae_record es) 7 ''exec'' user"
  proof -
    note e2e = operator_command_end_to_end [where X = shell_ctx and sha = "\<lambda>_. 0" and calls = calls and sv = sv and rbac = sample_rbac
        and t = "()" and r = "()" and ecs = sample_exec_commands_in_env and br = shell_bridge and host = 7 and session = sample_session and payload = sample_exec_payload
        and cc = sample_conn and est = "\<lparr>est_keys = \<lparr>c2a = 1, a2c = 2\<rparr>, est_sid = ''s'', est_send_seq = 0, est_recv_high = None\<rparr>"
        and cc' = sample_exec_conn and ident = sample_ident and pty = "\<lambda>_ _ _. Inr None" and backstop = "la_new [] []" and topics = "for_host ''h''"
        and ok = True and topic = "dispatch_down ''h''", OF laws uses few]
    show ?thesis
    proof (rule e2e [unfolded shell_ctx_params established.select_convs])
      show "\<forall>e ext req. ExecCall e ext req \<in> set calls
          \<longrightarrow> (\<exists>selector user argv. cli_exec_request toy_crypto lossless_codecs selector user argv = Inr req)"
        using cli by (auto simp: calls_def)
      show "sv = operator_calls tally_uuid (authorize tally_uuid sample_rbac) calls (new_service () () [])" by (rule sv_def)
      show "map snd sample_exec_commands_in_env = sv_commands sv" by (simp add: sample_exec_commands_in_env_def sv_def calls_def sample_exec_commands)
      show "\<forall>e. decode_msg (env_codec lossless_codecs) sample_exec_payload = Some e
        \<longrightarrow> open_envelope toy_crypto (ses_keys sample_session) CoordToAgent e \<noteq> None
        \<longrightarrow> (dispatch_down (hyphenated tally_uuid 7), sample_exec_payload) \<in> set (drop (length (br_published shell_bridge)) (br_published (run_commands shell_ctx sample_exec_commands_in_env shell_bridge)))"
        using sample_exec_published by simp
    qed (use sample_exec_delivered sample_exec_conn_def shell_samples in \<open>simp_all add: sample_conn_def\<close>)
  qed
  then obtain d selector user argv es where c: "cc_jobs sample_exec_conn = [\<lparr>jt_dispatch = d, jt_keys = \<lparr>c2a = 1, a2c = 2\<rparr>, jt_host_id = ''h'', jt_sid = ''s''\<rparr>]"
      "cli_exec_request toy_crypto lossless_codecs selector user argv = Inr sample_cli_request" "dm_run_as d = user"
      "decode_msg (ep_codec lossless_codecs) (dm_params d) = Some \<lparr>ep_argv = argv\<rparr>" "verify (\<lambda>_. 0) es None = Inr ()"
      "allows_start tally_uuid (authorize tally_uuid sample_rbac) (map ae_record es) 7 ''exec'' user"
    by (auto simp: calls_def sample_conn_def conn_init_def sample_ident_def)
  have "user = ''deploy''" "encode_msg (ep_codec lossless_codecs) \<lparr>ep_argv = argv\<rparr> = encode_msg (ep_codec lossless_codecs) \<lparr>ep_argv = [''id'']\<rparr>"
    using c(2) by (auto simp: cli_exec_request_def sample_cli_request_def Let_def split: if_splits)
  moreover from this(2) have "argv = [''id'']"
    using lossless_codecs_round_trip(4) [of "\<lparr>ep_argv = argv\<rparr>"] lossless_codecs_round_trip(4) [of "\<lparr>ep_argv = [''id'']\<rparr>"] by (simp add: round_trips_def)
  ultimately show ?thesis using c by blast
qed

end
