(* ===== verification/Host_Inventory.thy ===== *)
theory Host_Inventory
  imports Netbox Jwt_Auth "HOL-Library.List_Lexorder" "HOL-Library.Char_ord" "HOL-Library.Product_Lexorder" "HOL-Library.Multiset"
begin

text \<open>
  \<^verbatim>\<open>osa-agent/src/inventory.rs\<close>: the agent's inventory snapshot.  What \<^verbatim>\<open>sysinfo\<close> reports about the host
  and what reading a DMI file returns are arguments.
\<close>

subsection \<open>Model\<close>

definition DMI_SERIAL_FILES :: "string list" where
  "DMI_SERIAL_FILES = [''product_serial'', ''board_serial'']"

definition SERIAL_PLACEHOLDERS :: "string list" where
  "SERIAL_PLACEHOLDERS =
     [''none'', ''not specified'', ''not applicable'', ''to be filled by o.e.m.'', ''system serial number'',
      ''default string'', ''na'', ''n/a'', ''0'']"

datatype gap_field = GapDmiSerial | GapHostname | GapOs | GapKernel | GapCpuCount | GapMemoryBytes | GapInterfaces

fun gap_field_as_str :: "gap_field \<Rightarrow> string" where
  "gap_field_as_str GapDmiSerial = ''dmi_serial''"
| "gap_field_as_str GapHostname = ''hostname''"
| "gap_field_as_str GapOs = ''os''"
| "gap_field_as_str GapKernel = ''kernel''"
| "gap_field_as_str GapCpuCount = ''cpu_count''"
| "gap_field_as_str GapMemoryBytes = ''memory_bytes''"
| "gap_field_as_str GapInterfaces = ''interfaces''"

record gap =
  gap_field :: gap_field
  gap_reason :: string

record system_info =
  si_hostname :: string
  si_os :: string
  si_kernel :: string
  si_cpu_count :: nat
  si_memory_bytes :: u64

record network_interface =
  ni_name :: string
  ni_mac :: string
  ni_ips :: "ip_addr list"

record host_inventory =
  hi_dmi_serial :: "string option"
  hi_system :: system_info
  hi_interfaces :: "network_interface list"
  hi_gaps :: "gap list"

text \<open>The host as \<^verbatim>\<open>sysinfo\<close> shows it; the interfaces come in the order of a hash map.\<close>

record host_facts =
  hf_host_name :: "string option"
  hf_long_os_version :: "string option"
  hf_name :: "string option"
  hf_kernel_version :: "string option"
  hf_cpus :: nat
  hf_total_memory :: u64
  hf_networks :: "(string \<times> string \<times> ip_addr list) list"

datatype file_read = ReadOk string | ReadNotFound | ReadErr string

text \<open>The encodings of the control characters \<open>U+0000\<close> to \<open>U+001F\<close> and \<open>U+007F\<close> to \<open>U+009F\<close>.\<close>

definition control_encodings :: "string list" where
  "control_encodings =
     map (\<lambda>n. [char_of n]) ([0..<32] @ [127]) @ map (\<lambda>n. [CHR 0xC2, char_of n]) [128..<160]"

definition trim_matches :: "string list \<Rightarrow> string \<Rightarrow> string" where
  "trim_matches ps s = rev (strip_all (map rev ps) (rev (strip_all ps s)))"

fun has_control :: "string \<Rightarrow> bool" where
  "has_control [] \<longleftrightarrow> False"
| "has_control (c # cs) \<longleftrightarrow>
     (of_char c :: nat) < 32 \<or> (of_char c :: nat) = 127
     \<or> (c = CHR 0xC2 \<and> (case cs of [] \<Rightarrow> False | d # _ \<Rightarrow> 128 \<le> (of_char d :: nat) \<and> (of_char d :: nat) < 160))
     \<or> has_control cs"

definition normalize_serial :: "string \<Rightarrow> string option" where
  "normalize_serial raw =
     (let s = trim_matches (whitespace_encodings @ control_encodings) raw in
      if s = [] \<or> has_control s \<or> map to_ascii_lowercase s \<in> set SERIAL_PLACEHOLDERS then None else Some s)"

text \<open>The loop over the files: the serial found, or the reason of the highest rank.\<close>

fun dmi_loop :: "(string \<Rightarrow> file_read) \<Rightarrow> string list \<Rightarrow> string \<Rightarrow> nat \<Rightarrow> string + string" where
  "dmi_loop dmi [] reason rank = Inl reason"
| "dmi_loop dmi (file # files) reason rank =
     (case dmi file of
        ReadOk raw \<Rightarrow>
          (case normalize_serial raw of
             Some serial \<Rightarrow> Inr serial
           | None \<Rightarrow> if rank < 1 then dmi_loop dmi files (file @ '' holds only an empty/placeholder value'') 1
                      else dmi_loop dmi files reason rank)
      | ReadNotFound \<Rightarrow> dmi_loop dmi files reason rank
      | ReadErr e \<Rightarrow> if rank < 2 then dmi_loop dmi files (file @ '' is not readable: '' @ e) 2
                      else dmi_loop dmi files reason rank)"

definition read_dmi_serial :: "(string \<Rightarrow> file_read) \<Rightarrow> gap list \<Rightarrow> string option \<times> gap list" where
  "read_dmi_serial dmi gaps =
     (case dmi_loop dmi DMI_SERIAL_FILES ''no product_serial/board_serial in sysfs (VM, container, or non-Linux host)'' 0 of
        Inr serial \<Rightarrow> (Some serial, gaps)
      | Inl reason \<Rightarrow> (None, gaps @ [\<lparr>gap_field = GapDmiSerial, gap_reason = reason\<rparr>]))"

definition string_or_gap :: "string option \<Rightarrow> gap_field \<Rightarrow> gap list \<Rightarrow> string \<times> gap list" where
  "string_or_gap value field gaps =
     (case value of
        Some s \<Rightarrow> (s, gaps)
      | None \<Rightarrow> ([], gaps @ [\<lparr>gap_field = field, gap_reason = ''not reported by the host''\<rparr>]))"

definition collect_system :: "host_facts \<Rightarrow> gap list \<Rightarrow> system_info \<times> gap list" where
  "collect_system h gaps =
     (case string_or_gap (hf_host_name h) GapHostname gaps of (hostname, gaps1) \<Rightarrow>
      case string_or_gap (case hf_long_os_version h of Some v \<Rightarrow> Some v | None \<Rightarrow> hf_name h) GapOs gaps1 of (os, gaps2) \<Rightarrow>
      case string_or_gap (hf_kernel_version h) GapKernel gaps2 of (krn, gaps3) \<Rightarrow>
      let gaps4 = (if hf_cpus h = 0 then gaps3 @ [\<lparr>gap_field = GapCpuCount, gap_reason = ''no CPUs reported by the host''\<rparr>] else gaps3);
          gaps5 = (if hf_total_memory h = 0
                   then gaps4 @ [\<lparr>gap_field = GapMemoryBytes, gap_reason = ''no physical memory reported by the host''\<rparr>] else gaps4)
      in (\<lparr>si_hostname = hostname, si_os = os, si_kernel = krn, si_cpu_count = hf_cpus h, si_memory_bytes = hf_total_memory h\<rparr>, gaps5))"

text \<open>The derived order of \<open>IpAddr\<close>: version first, then the octets or groups.\<close>

fun ip_key :: "ip_addr \<Rightarrow> nat \<times> int list" where
  "ip_key (V4 octets) = (0, octets)"
| "ip_key (V6 groups) = (1, groups)"

lemma ip_key_inj: "ip_key a = ip_key b \<longleftrightarrow> a = b"
  by (cases a; cases b) simp_all

instantiation ip_addr :: linorder
begin

definition less_eq_ip_addr :: "ip_addr \<Rightarrow> ip_addr \<Rightarrow> bool" where
  "less_eq_ip_addr a b \<longleftrightarrow> ip_key a \<le> ip_key b"

definition less_ip_addr :: "ip_addr \<Rightarrow> ip_addr \<Rightarrow> bool" where
  "less_ip_addr a b \<longleftrightarrow> ip_key a < ip_key b"

instance
  by intro_classes (auto simp: less_eq_ip_addr_def less_ip_addr_def ip_key_inj less_le_not_le)

end

definition sorted_deduped :: "ip_addr list \<Rightarrow> ip_addr list" where
  "sorted_deduped ips = remdups_adj (sort ips)"

definition collect_host_interfaces :: "(string \<times> string \<times> ip_addr list) list \<Rightarrow> network_interface list" where
  "collect_host_interfaces networks =
     sort_key ni_name (map (\<lambda>(name, mac, ips). \<lparr>ni_name = name, ni_mac = mac, ni_ips = sorted_deduped ips\<rparr>) networks)"

definition collect_inventory :: "(string \<Rightarrow> file_read) \<Rightarrow> host_facts \<Rightarrow> host_inventory" where
  "collect_inventory dmi h =
     (case read_dmi_serial dmi [] of (serial, gaps1) \<Rightarrow>
      case collect_system h gaps1 of (system, gaps2) \<Rightarrow>
      let interfaces = collect_host_interfaces (hf_networks h);
          gaps3 = (if interfaces = []
                   then gaps2 @ [\<lparr>gap_field = GapInterfaces, gap_reason = ''no network interfaces enumerated''\<rparr>] else gaps2)
      in \<lparr>hi_dmi_serial = serial, hi_system = system, hi_interfaces = interfaces, hi_gaps = gaps3\<rparr>)"

subsection \<open>The snapshot is canonical\<close>

lemma distinct_remdups_adj_sort: "sorted xs \<Longrightarrow> distinct (remdups_adj xs)" for xs :: "'a :: linorder list"
  by (induction xs rule: remdups_adj.induct) auto

lemma sorted_deduped_set: "sorted_deduped ips = sorted_list_of_set (set ips)"
proof -
  have "sorted (sorted_deduped ips)" "distinct (sorted_deduped ips)"
    by (simp_all add: sorted_deduped_def sorted_remdups_adj distinct_remdups_adj_sort)
  then show ?thesis using sorted_list_of_set.idem_if_sorted_distinct [of "sorted_deduped ips"] by (simp add: sorted_deduped_def)
qed

text \<open>The same host seen again: the same facts, the interfaces and their addresses in any order.\<close>

definition same_host :: "host_facts \<Rightarrow> host_facts \<Rightarrow> bool" where
  "same_host h h' \<longleftrightarrow>
     hf_host_name h = hf_host_name h' \<and> hf_long_os_version h = hf_long_os_version h' \<and> hf_name h = hf_name h'
     \<and> hf_kernel_version h = hf_kernel_version h' \<and> hf_cpus h = hf_cpus h' \<and> hf_total_memory h = hf_total_memory h'
     \<and> mset (map (\<lambda>(name, mac, ips). (name, mac, set ips)) (hf_networks h))
       = mset (map (\<lambda>(name, mac, ips). (name, mac, set ips)) (hf_networks h'))"

lemma interfaces_canonical:
  assumes "mset (map (\<lambda>(name, mac, ips). (name, mac, set ips)) ns) = mset (map (\<lambda>(name, mac, ips). (name, mac, set ips)) ns')"
    and "distinct (map fst ns)"
  shows "collect_host_interfaces ns = collect_host_interfaces ns'"
proof -
  let ?iface = "\<lambda>(name, mac, s). \<lparr>ni_name = name, ni_mac = mac, ni_ips = sorted_list_of_set s\<rparr>"
  let ?key = "\<lambda>(name, mac, ips). (name, mac, set ips)"
  have alt: "collect_host_interfaces xs = sort_key ni_name (map ?iface (map ?key xs))" for xs
    by (simp add: collect_host_interfaces_def sorted_deduped_set case_prod_unfold comp_def)
  have "mset (map ?iface (map ?key ns)) = mset (map ?iface (map ?key ns'))" using assms(1) by (simp only: mset_map [of ?iface])
  moreover have "inj_on ni_name (set (map ?iface (map ?key ns)))"
  proof -
    have "map ni_name (map ?iface (map ?key ns)) = map fst ns" by (simp add: case_prod_unfold)
    then show ?thesis using assms(2) by (metis distinct_map)
  qed
  ultimately show ?thesis
    unfolding alt by (intro sort_key_inj_key_eq) (simp_all add: )
qed

text \<open>
  C39.  An unchanged host gives the same snapshot in every cycle: when the host's facts are the same and
  only the enumeration order of interfaces and addresses, or repetitions of addresses, differ, the
  collected inventories are equal.  Interfaces are sorted by name and addresses are sorted and distinct.
\<close>

theorem inventory_snapshot_is_canonical:
  assumes "same_host h h'" "distinct (map fst (hf_networks h))"
  shows "collect_inventory dmi h = collect_inventory dmi h'
    \<and> sorted (map ni_name (hi_interfaces (collect_inventory dmi h)))
    \<and> list_all (\<lambda>i. sorted (ni_ips i) \<and> distinct (ni_ips i)) (hi_interfaces (collect_inventory dmi h))"
proof -
  have i: "collect_host_interfaces (hf_networks h) = collect_host_interfaces (hf_networks h')"
    using assms interfaces_canonical by (simp add: same_host_def)
  have "collect_system h gaps = collect_system h' gaps" for gaps
    using assms(1) by (cases "hf_long_os_version h'") (simp_all add: collect_system_def same_host_def case_prod_unfold)
  then have "collect_inventory dmi h = collect_inventory dmi h'" using i by (simp add: collect_inventory_def)
  moreover have "hi_interfaces (collect_inventory dmi h) = collect_host_interfaces (hf_networks h)"
    by (simp add: collect_inventory_def Let_def split: prod.split)
  ultimately show ?thesis
    by (simp add: collect_host_interfaces_def list_all_iff sorted_deduped_set case_prod_unfold)
qed

definition sample_facts :: "(string \<times> string \<times> ip_addr list) list \<Rightarrow> host_facts" where
  "sample_facts networks = \<lparr>hf_host_name = Some ''h'', hf_long_os_version = None, hf_name = Some ''Linux'',
     hf_kernel_version = None, hf_cpus = 2, hf_total_memory = 0, hf_networks = networks\<rparr>"

theorem inventory_snapshot_is_canonical_witness:
  "let lo = (''lo'', [], [V4 [127, 0, 0, 1]]); e = (''eth0'', ''aa'', [V6 [1], V4 [10, 0, 0, 2]]); e' = (''eth0'', ''aa'', [V4 [10, 0, 0, 2], V6 [1], V6 [1]])
   in collect_inventory (\<lambda>_. ReadNotFound) (sample_facts [lo, e]) = collect_inventory (\<lambda>_. ReadNotFound) (sample_facts [e', lo])"
proof -
  have "same_host (sample_facts [(''lo'', [], [V4 [127, 0, 0, 1]]), (''eth0'', ''aa'', [V6 [1], V4 [10, 0, 0, 2]])])
      (sample_facts [(''eth0'', ''aa'', [V4 [10, 0, 0, 2], V6 [1], V6 [1]]), (''lo'', [], [V4 [127, 0, 0, 1]])])"
    by (simp add: same_host_def sample_facts_def add_mset_commute insert_commute)
  from inventory_snapshot_is_canonical [OF this, of "\<lambda>_. ReadNotFound"] show ?thesis by (simp add: sample_facts_def Let_def)
qed

subsection \<open>The serial\<close>

lemma strip_all_fixed: "strip_any ps (strip_all ps s) = None"
proof (induction ps s rule: strip_all.induct)
  case (1 ps s)
  then show ?case by (cases "strip_any ps s") (simp_all add: strip_all.simps [of ps s])
qed

lemma strip_all_suffix: "\<exists>q. s = q @ strip_all ps s"
proof (induction ps s rule: strip_all.induct)
  case (1 ps s)
  show ?case
  proof (cases "strip_any ps s")
    case None
    then show ?thesis by (simp add: strip_all.simps [of ps s])
  next
    case (Some r)
    then have "r \<in> set (List.map_filter (\<lambda>p. strip_prefix p s) ps)" by (auto simp: strip_any_def find_Some_iff)
    then obtain p where "s = p @ r" by (auto simp: List.map_filter_def strip_prefix_Some)
    moreover obtain q where "r = q @ strip_all ps r" using 1 Some by blast
    ultimately have "s = (p @ q) @ strip_all ps r" by (metis append_assoc)
    moreover have "strip_all ps s = strip_all ps r" using Some by (simp add: strip_all.simps [of ps s])
    ultimately show ?thesis by metis
  qed
qed

lemma strip_any_None_prefix: "strip_any ps s = None \<Longrightarrow> p \<in> set ps \<Longrightarrow> p \<noteq> [] \<Longrightarrow> strip_prefix p s = None"
proof (rule ccontr)
  assume none: "strip_any ps s = None" and p: "p \<in> set ps" "p \<noteq> []" and "strip_prefix p s \<noteq> None"
  then obtain r where r: "strip_prefix p s = Some r" by blast
  then have "r \<in> set (List.map_filter (\<lambda>p. strip_prefix p s) ps)" using p(1) by (force simp: List.map_filter_def)
  moreover have "length r < length s" using r p(2) by (auto simp: strip_prefix_Some)
  ultimately show False using none by (auto simp: strip_any_def find_None_iff)
qed

lemma trim_matches_unpadded:
  assumes "p \<in> set ps" "p \<noteq> []"
  shows "strip_prefix p (trim_matches ps s) = None" "strip_prefix (rev p) (rev (trim_matches ps s)) = None"
proof -
  let ?u = "strip_all ps s"
  obtain q where "rev ?u = q @ strip_all (map rev ps) (rev ?u)" using strip_all_suffix by blast
  then have u: "?u = trim_matches ps s @ rev q" by (metis rev_append rev_rev_ident trim_matches_def)
  have "strip_prefix p ?u = None" using strip_any_None_prefix [OF strip_all_fixed assms] .
  then show "strip_prefix p (trim_matches ps s) = None"
    using u by (metis append_assoc not_Some_eq strip_prefix_append strip_prefix_Some)
  show "strip_prefix (rev p) (rev (trim_matches ps s)) = None"
    unfolding trim_matches_def rev_rev_ident
    by (rule strip_any_None_prefix [OF strip_all_fixed]) (use assms in auto)
qed

lemma normalize_serial_Some:
  assumes "normalize_serial raw = Some serial"
  shows "serial \<noteq> []" "\<not> has_control serial" "map to_ascii_lowercase serial \<notin> set SERIAL_PLACEHOLDERS" "trim serial = serial"
proof -
  let ?ps = "whitespace_encodings @ control_encodings"
  have s: "serial = trim_matches ?ps raw" "serial \<noteq> []" "\<not> has_control serial" "map to_ascii_lowercase serial \<notin> set SERIAL_PLACEHOLDERS"
    using assms by (auto simp: normalize_serial_def Let_def split: if_splits)
  then show "serial \<noteq> []" "\<not> has_control serial" "map to_ascii_lowercase serial \<notin> set SERIAL_PLACEHOLDERS" by simp_all
  have ne: "\<forall>p \<in> set whitespace_encodings. p \<noteq> []" by code_simp
  have "strip_prefix p serial = None \<and> strip_prefix (rev p) (rev serial) = None" if p: "p \<in> set whitespace_encodings" for p
  proof -
    have "p \<in> set ?ps" using p by (simp only: set_append Un_iff simp_thms)
    moreover have "p \<noteq> []" using ne p by (rule bspec)
    ultimately show ?thesis unfolding s(1) by (intro conjI trim_matches_unpadded)
  qed
  then have "\<forall>p \<in> set whitespace_encodings. strip_prefix p serial = None" "\<forall>p \<in> set whitespace_encodings. strip_prefix (rev p) (rev serial) = None"
    by blast+
  then show "trim serial = serial" by (rule trim_unpadded [OF s(2)])
qed

lemma dmi_loop_Inr: "dmi_loop dmi files reason rank = Inr serial \<Longrightarrow> \<exists>file \<in> set files. \<exists>raw. dmi file = ReadOk raw \<and> normalize_serial raw = Some serial"
  by (induction dmi files reason rank rule: dmi_loop.induct) (auto split: file_read.splits option.splits if_splits)

lemma dmi_loop_Inl: "dmi_loop dmi files reason rank = Inl r \<Longrightarrow> file \<in> set files \<Longrightarrow> dmi file = ReadOk raw \<Longrightarrow> normalize_serial raw = None"
proof (induction files arbitrary: reason rank)
  case (Cons f files)
  obtain reason' rank' where rest: "dmi_loop dmi files reason' rank' = Inl r"
    using Cons.prems(1) by (auto split: file_read.splits option.splits if_splits)
  show ?case
  proof (cases "file = f")
    case True
    then show ?thesis using Cons.prems(1,3) by (simp split: option.splits)
  next
    case False
    then show ?thesis using Cons.IH [OF rest] Cons.prems(2,3) by simp
  qed
qed simp

subsection \<open>Facts and gaps\<close>

lemma string_or_gap_fields:
  "map gap_field (snd (string_or_gap v field gaps)) = map gap_field gaps @ (if v = None then [field] else [])"
  "fst (string_or_gap v field gaps) = (case v of None \<Rightarrow> [] | Some s \<Rightarrow> s)"
  by (simp_all add: string_or_gap_def split: option.split)

lemma collect_system_fields:
  "map gap_field (snd (collect_system h gaps)) = map gap_field gaps
     @ (if hf_host_name h = None then [GapHostname] else [])
     @ (if hf_long_os_version h = None \<and> hf_name h = None then [GapOs] else [])
     @ (if hf_kernel_version h = None then [GapKernel] else [])
     @ (if hf_cpus h = 0 then [GapCpuCount] else []) @ (if hf_total_memory h = 0 then [GapMemoryBytes] else [])"
  by (cases "hf_long_os_version h") (simp_all add: collect_system_def case_prod_unfold string_or_gap_fields Let_def)

lemma read_dmi_serial_fields:
  "map gap_field (snd (read_dmi_serial dmi gaps)) = map gap_field gaps @ (if fst (read_dmi_serial dmi gaps) = None then [GapDmiSerial] else [])"
  by (simp add: read_dmi_serial_def split: sum.split)

lemma read_dmi_serial_cases:
  "case fst (read_dmi_serial dmi gaps) of
     None \<Rightarrow> \<forall>file \<in> set DMI_SERIAL_FILES. \<forall>raw. dmi file = ReadOk raw \<longrightarrow> normalize_serial raw = None
   | Some serial \<Rightarrow> \<exists>file \<in> set DMI_SERIAL_FILES. \<exists>raw. dmi file = ReadOk raw \<and> normalize_serial raw = Some serial"
  using dmi_loop_Inl dmi_loop_Inr by (fastforce simp: read_dmi_serial_def split: sum.split)

lemma collect_inventory_sel:
  "hi_dmi_serial (collect_inventory dmi h) = fst (read_dmi_serial dmi [])"
  "hi_interfaces (collect_inventory dmi h) = collect_host_interfaces (hf_networks h)"
  "map gap_field (hi_gaps (collect_inventory dmi h)) = map gap_field (snd (collect_system h (snd (read_dmi_serial dmi []))))
     @ (if hf_networks h = [] then [GapInterfaces] else [])"
proof -
  have "length (collect_host_interfaces (hf_networks h)) = length (hf_networks h)" by (simp add: collect_host_interfaces_def)
  then have "collect_host_interfaces (hf_networks h) = [] \<longleftrightarrow> hf_networks h = []" by auto
  then show "hi_dmi_serial (collect_inventory dmi h) = fst (read_dmi_serial dmi [])"
    "hi_interfaces (collect_inventory dmi h) = collect_host_interfaces (hf_networks h)"
    "map gap_field (hi_gaps (collect_inventory dmi h)) = map gap_field (snd (collect_system h (snd (read_dmi_serial dmi []))))
     @ (if hf_networks h = [] then [GapInterfaces] else [])"
    by (simp_all add: collect_inventory_def case_prod_unfold Let_def)
qed

definition gap_list :: "bool \<Rightarrow> bool \<Rightarrow> bool \<Rightarrow> bool \<Rightarrow> bool \<Rightarrow> bool \<Rightarrow> bool \<Rightarrow> gap_field list" where
  "gap_list a b c d e f g = (if a then [GapDmiSerial] else []) @ (if b then [GapHostname] else []) @ (if c then [GapOs] else [])
     @ (if d then [GapKernel] else []) @ (if e then [GapCpuCount] else []) @ (if f then [GapMemoryBytes] else [])
     @ (if g then [GapInterfaces] else [])"

lemma gap_list_laws:
  "distinct (gap_list a b c d e f g)" "GapDmiSerial \<in> set (gap_list a b c d e f g) \<longleftrightarrow> a" "GapHostname \<in> set (gap_list a b c d e f g) \<longleftrightarrow> b"
  "GapOs \<in> set (gap_list a b c d e f g) \<longleftrightarrow> c" "GapKernel \<in> set (gap_list a b c d e f g) \<longleftrightarrow> d" "GapCpuCount \<in> set (gap_list a b c d e f g) \<longleftrightarrow> e"
  "GapMemoryBytes \<in> set (gap_list a b c d e f g) \<longleftrightarrow> f" "GapInterfaces \<in> set (gap_list a b c d e f g) \<longleftrightarrow> g"
  by (auto simp: gap_list_def)

text \<open>
  Every fact is there or its gap is: a snapshot is always produced, each missing fact is listed
  once, and nothing that was read is listed.  A serial in the snapshot is a real one: it comes from a
  DMI file, is no placeholder, has no control characters and no padding, and the coordinator takes it
  as the match key unchanged; a snapshot without one means that no DMI file held a usable serial.
\<close>

theorem inventory_facts_or_gaps:
  "let snap = collect_inventory dmi h; missing = set (map gap_field (hi_gaps snap)) in
    distinct (map gap_field (hi_gaps snap))
    \<and> (GapDmiSerial \<in> missing \<longleftrightarrow> hi_dmi_serial snap = None) \<and> (GapHostname \<in> missing \<longleftrightarrow> hf_host_name h = None)
    \<and> (GapOs \<in> missing \<longleftrightarrow> hf_long_os_version h = None \<and> hf_name h = None) \<and> (GapKernel \<in> missing \<longleftrightarrow> hf_kernel_version h = None)
    \<and> (GapCpuCount \<in> missing \<longleftrightarrow> hf_cpus h = 0) \<and> (GapMemoryBytes \<in> missing \<longleftrightarrow> hf_total_memory h = 0)
    \<and> (GapInterfaces \<in> missing \<longleftrightarrow> hf_networks h = [])
    \<and> (case hi_dmi_serial snap of
         None \<Rightarrow> \<not> (\<exists>file raw serial. file \<in> set DMI_SERIAL_FILES \<and> dmi file = ReadOk raw \<and> normalize_serial raw = Some serial)
       | Some serial \<Rightarrow>
           (\<exists>file raw. file \<in> set DMI_SERIAL_FILES \<and> dmi file = ReadOk raw \<and> normalize_serial raw = Some serial)
           \<and> serial \<noteq> [] \<and> \<not> has_control serial \<and> map to_ascii_lowercase serial \<notin> set SERIAL_PLACEHOLDERS
           \<and> usable_serial \<lparr>im_dmi_serial = Some serial, im_system = None, im_interfaces = [], im_gaps = []\<rparr> = Some serial)"
proof -
  define snap where "snap = collect_inventory dmi h"
  have gaps: "map gap_field (hi_gaps snap) = gap_list (hi_dmi_serial snap = None) (hf_host_name h = None)
      (hf_long_os_version h = None \<and> hf_name h = None) (hf_kernel_version h = None) (hf_cpus h = 0) (hf_total_memory h = 0) (hf_networks h = [])"
    unfolding snap_def collect_inventory_sel collect_system_fields read_dmi_serial_fields gap_list_def
    by (simp only: list.map append_Nil append_assoc)
  have serial: "case hi_dmi_serial snap of
     None \<Rightarrow> \<forall>file \<in> set DMI_SERIAL_FILES. \<forall>raw. dmi file = ReadOk raw \<longrightarrow> normalize_serial raw = None
   | Some serial \<Rightarrow> \<exists>file \<in> set DMI_SERIAL_FILES. \<exists>raw. dmi file = ReadOk raw \<and> normalize_serial raw = Some serial"
    using read_dmi_serial_cases [of dmi "[]"] by (simp add: snap_def collect_inventory_sel)
  have "case hi_dmi_serial snap of
         None \<Rightarrow> \<not> (\<exists>file raw serial. file \<in> set DMI_SERIAL_FILES \<and> dmi file = ReadOk raw \<and> normalize_serial raw = Some serial)
       | Some serial \<Rightarrow>
           (\<exists>file raw. file \<in> set DMI_SERIAL_FILES \<and> dmi file = ReadOk raw \<and> normalize_serial raw = Some serial)
           \<and> serial \<noteq> [] \<and> \<not> has_control serial \<and> map to_ascii_lowercase serial \<notin> set SERIAL_PLACEHOLDERS
           \<and> usable_serial \<lparr>im_dmi_serial = Some serial, im_system = None, im_interfaces = [], im_gaps = []\<rparr> = Some serial"
    using serial normalize_serial_Some by (auto simp: usable_serial_def split: option.splits)
  then show ?thesis unfolding Let_def snap_def [symmetric] gaps gap_list_laws(2-) by (intro conjI refl gap_list_laws(1))
qed

end
