(* ===== verification/Startup.thy ===== *)
theory Startup
  imports Service_Safety Jwks
begin

text \<open>
  \<^verbatim>\<open>osa-coordinator/src/main.rs\<close>, \<^verbatim>\<open>db.rs\<close> and the construction of the broker in \<^verbatim>\<open>broker.rs\<close>: how the
  coordinator starts.  Arguments and environment are the record \<open>coordinator_cli\<close>; what the machine,
  the database, the network and the crates answer while it starts is \<open>startup_io\<close>.
\<close>

subsection \<open>Socket addresses\<close>

text \<open>\<open>str::parse::<SocketAddr>()\<close>: an IPv4 address with a port, or a bracketed IPv6 address with an
  optional scope and a port.\<close>

record socket_addr =
  sa_ip :: ip_addr
  sa_scope :: int
  sa_port :: int

definition read_port :: "string \<Rightarrow> (int \<times> string) option" where
  "read_port s = Option.bind (read_given_char CHR '':'' s) (\<lambda>s'. read_number 10 (length s') True 65535 s')"

definition read_scope_id :: "string \<Rightarrow> (int \<times> string) option" where
  "read_scope_id s = Option.bind (read_given_char CHR ''%'' s) (\<lambda>s'. read_number 10 (length s') True 4294967295 s')"

definition read_socket_addr_v4 :: "string \<Rightarrow> (socket_addr \<times> string) option" where
  "read_socket_addr_v4 s =
     (case read_ipv4_addr s of
        None \<Rightarrow> None
      | Some (octets, s1) \<Rightarrow>
          (case read_port s1 of
             None \<Rightarrow> None
           | Some (port, s2) \<Rightarrow> Some (\<lparr>sa_ip = V4 octets, sa_scope = 0, sa_port = port\<rparr>, s2)))"

definition read_socket_addr_v6 :: "string \<Rightarrow> (socket_addr \<times> string) option" where
  "read_socket_addr_v6 s =
     (case Option.bind (read_given_char CHR ''['' s) read_ipv6_addr of
        None \<Rightarrow> None
      | Some (groups, s1) \<Rightarrow>
          (case (case read_scope_id s1 of Some r \<Rightarrow> r | None \<Rightarrow> (0, s1)) of
             (scope, s2) \<Rightarrow>
               (case Option.bind (read_given_char CHR '']'' s2) read_port of
                  None \<Rightarrow> None
                | Some (port, s3) \<Rightarrow> Some (\<lparr>sa_ip = V6 groups, sa_scope = scope, sa_port = port\<rparr>, s3))))"

definition parse_socket_addr :: "string \<Rightarrow> socket_addr option" where
  "parse_socket_addr s =
     (case (case read_socket_addr_v4 s of Some r \<Rightarrow> Some r | None \<Rightarrow> read_socket_addr_v6 s) of
        Some (addr, []) \<Rightarrow> Some addr
      | _ \<Rightarrow> None)"

fun is_unspecified :: "ip_addr \<Rightarrow> bool" where
  "is_unspecified (V4 octets) = (octets = [0, 0, 0, 0])"
| "is_unspecified (V6 groups) = (groups = [0, 0, 0, 0, 0, 0, 0, 0])"

subsection \<open>Configuration\<close>

text \<open>Times in nanoseconds.\<close>

definition HOST_CERT_TTL :: int where "HOST_CERT_TTL = 24 * 3600 * SECOND"
definition MAX_TOKEN_TTL :: nat where "MAX_TOKEN_TTL = 3600 * 1000000000"
definition DEFAULT_TOKEN_TTL :: nat where "DEFAULT_TOKEN_TTL = 900 * 1000000000"
definition BRIDGE_COMMAND_QUEUE :: nat where "BRIDGE_COMMAND_QUEUE = 256"
definition MAX_LEEWAY_SECS :: u64 where "MAX_LEEWAY_SECS = 300"

record coordinator_cli =
  cli_config :: string
  cli_grpc_bind :: string
  cli_mqtt_bind :: string
  cli_broker_dns :: "string list"
  cli_oidc_issuer :: "string option"
  cli_oidc_audience :: "string option"
  cli_oidc_jwks :: "string option"
  cli_oidc_jwks_url :: "string option"
  cli_oidc_refresh_secs :: u64
  cli_oidc_leeway_secs :: u64
  cli_rbac_policy :: "string option"
  cli_database_url :: "string option"
  cli_netbox_url :: "string option"
  cli_netbox_token :: "string option"

text \<open>The command line with no option and no variable set.\<close>

definition cli_defaults :: coordinator_cli where
  "cli_defaults =
     \<lparr>cli_config = ''/etc/osa/coordinator.toml'', cli_grpc_bind = ''0.0.0.0:8443'', cli_mqtt_bind = ''0.0.0.0:8883'',
      cli_broker_dns = [''localhost''], cli_oidc_issuer = None, cli_oidc_audience = None, cli_oidc_jwks = None,
      cli_oidc_jwks_url = None, cli_oidc_refresh_secs = 300, cli_oidc_leeway_secs = 60, cli_rbac_policy = None,
      cli_database_url = None, cli_netbox_url = None, cli_netbox_token = None\<rparr>"

datatype startup_error =
    BadGrpcBind string | BadMqttBind string
  | DbConnect | DbMigrate | CaFailed port_error
  | CertDir | ServerCert port_error | CertWrite string
  | NetboxBlank | NetboxClientFailed | NetboxPartial
  | BridgeLink | BridgeSubscribe string | ThreadSpawn string | NotListening
  | PolicyRead string | PolicyInvalid policy_error
  | OidcBlank | OidcLeeway | JwksPathBlank | JwksRead string | JwksInvalid jwks_error
  | OidcRefresh | OidcUrl url_error | OidcFetch fetch_error | OidcNoKeys | OidcTwoSources | OidcKeysOnly | OidcPartial
  | ServeFailed

text \<open>
  What starting meets.  Files by path: their text, or their bytes.  A write opens its file and then
  writes it.  Each probe of the broker's port is numbered.  \<open>st_serve\<close>: the gRPC port can be bound.
\<close>

record startup_io =
  st_connect :: bool
  st_migrate :: bool
  st_ca :: ca_io
  st_tempdir :: bool
  st_server_key :: "string + string \<times> bytes"
  st_server_now :: int
  st_open :: "string \<Rightarrow> bool"
  st_write :: "string \<Rightarrow> bool"
  st_netbox_client :: bool
  st_link :: bool
  st_subscribe :: "string \<Rightarrow> bool"
  st_thread :: "string \<Rightarrow> bool"
  st_probe :: "socket_addr \<Rightarrow> nat \<Rightarrow> bool"
  st_read_text :: "string \<Rightarrow> string option"
  st_read_bytes :: "string \<Rightarrow> bytes option"
  st_fetch :: "string \<Rightarrow> fetch_io"
  st_serve :: bool

text \<open>The crates it is linked with.\<close>

record crates =
  cr_pki :: pki
  cr_uuid :: uuid_lib
  cr_jwt :: jwt_lib
  cr_toml :: "string \<Rightarrow> binding_doc list option"
  cr_url :: "string \<Rightarrow> url option"

subsection \<open>State and the certificate authority\<close>

definition db_open :: "startup_io \<Rightarrow> string option \<Rightarrow> startup_error + bool" where
  "db_open io url =
     (case url of
        None \<Rightarrow> Inr False
      | Some _ \<Rightarrow> if \<not> st_connect io then Inl DbConnect else if \<not> st_migrate io then Inl DbMigrate else Inr True)"

text \<open>The CA of the process, with the table \<open>ca_identity\<close>: shared when the state is durable, new
  otherwise.\<close>

definition open_ca :: "crates \<Rightarrow> startup_io \<Rightarrow> bool \<Rightarrow> ca_material list \<Rightarrow> (startup_error + embedded_ca) \<times> ca_material list" where
  "open_ca G io durable table =
     (if durable then
        (case load_or_generate (cr_pki G) (st_ca io) HOST_CERT_TTL table of (r, table') \<Rightarrow> (map_sum CaFailed id r, table'))
      else (map_sum CaFailed fst (ca_generate (cr_pki G) (ci_gen (st_ca io)) (ci_now (st_ca io)) HOST_CERT_TTL), table))"

subsection \<open>The broker's TLS material\<close>

definition BROKER_CERT :: string where "BROKER_CERT = ''broker.crt''"
definition BROKER_KEY :: string where "BROKER_KEY = ''broker.key''"
definition CA_CERT :: string where "CA_CERT = ''ca.crt''"

text \<open>A file of the certificate directory: whether it was created owner-only, and its text.\<close>

record cert_file =
  cf_owner_only :: bool
  cf_text :: string

type_synonym cert_files = "(string, cert_file) amap"

text \<open>\<open>std::fs::write\<close> and \<open>write_secret\<close>: both create or truncate and then write; a mode is given to a new file
  only.  A failed write leaves the file empty.\<close>

definition write_file :: "bool \<Rightarrow> startup_io \<Rightarrow> string \<Rightarrow> string \<Rightarrow> cert_files \<Rightarrow> (startup_error + unit) \<times> cert_files" where
  "write_file private io name text files =
     (if \<not> st_open io name then (Inl (CertWrite name), files)
      else
        let owner_only = (case map_of files name of None \<Rightarrow> private | Some f \<Rightarrow> cf_owner_only f);
            put = (\<lambda>t. AList.update name \<lparr>cf_owner_only = owner_only, cf_text = t\<rparr> files)
        in if \<not> st_write io name then (Inl (CertWrite name), put []) else (Inr (), put text))"

definition write_secret :: "startup_io \<Rightarrow> string \<Rightarrow> string \<Rightarrow> cert_files \<Rightarrow> (startup_error + unit) \<times> cert_files" where
  "write_secret = write_file True"

definition write_tls_material ::
  "crates \<Rightarrow> startup_io \<Rightarrow> embedded_ca \<Rightarrow> string list \<Rightarrow> (startup_error + unit) \<times> cert_files" where
  "write_tls_material G io ca dns =
     (if \<not> st_tempdir io then (Inl CertDir, [])
      else case issue_server_cert (cr_pki G) (st_server_key io) (st_server_now io) ca dns of
        Inl e \<Rightarrow> (Inl (ServerCert e), [])
      | Inr (cert_pem, key_pem) \<Rightarrow>
          (case write_file False io BROKER_CERT cert_pem [] of
             (Inl e, files) \<Rightarrow> (Inl e, files)
           | (Inr _, files1) \<Rightarrow>
               (case write_secret io BROKER_KEY key_pem files1 of
                  (Inl e, files) \<Rightarrow> (Inl e, files)
                | (Inr _, files2) \<Rightarrow> write_file False io CA_CERT (ca_root_pem ca) files2)))"

subsection \<open>The broker\<close>

text \<open>The settings of the one listener and of the router behind it, and the filters of the bridge's link.\<close>

record broker_settings =
  bs_listen :: socket_addr
  bs_capath :: "string option"
  bs_certpath :: string
  bs_keypath :: string
  bs_next_connection_delay_ms :: nat
  bs_connection_timeout_ms :: nat
  bs_max_payload_size :: nat
  bs_max_inflight_count :: nat
  bs_max_connections :: nat
  bs_max_outgoing_packet_count :: nat
  bs_max_segment_size :: nat
  bs_max_segment_count :: nat
  bs_bridge_filters :: "string list"

definition bridge_filters :: "string list" where
  "bridge_filters =
     [HEARTBEAT_FILTER, HS_UP_FILTER, CTRL_UP_FILTER, RESULT_UP_FILTER, STREAM_UP_FILTER, INVENTORY_UP_FILTER]"

fun subscribe_all :: "startup_io \<Rightarrow> string list \<Rightarrow> startup_error + unit" where
  "subscribe_all io [] = Inr ()"
| "subscribe_all io (f # fs) = (if st_subscribe io f then subscribe_all io fs else Inl (BridgeSubscribe f))"

definition broker_spawn :: "startup_io \<Rightarrow> socket_addr \<Rightarrow> startup_error + broker_settings" where
  "broker_spawn io addr =
     (if \<not> st_link io then Inl BridgeLink
      else case subscribe_all io bridge_filters of
        Inl e \<Rightarrow> Inl e
      | Inr _ \<Rightarrow>
          if \<not> st_thread io ''osa-broker'' then Inl (ThreadSpawn ''osa-broker'')
          else if \<not> st_thread io ''osa-bridge-recv'' then Inl (ThreadSpawn ''osa-bridge-recv'')
          else Inr
            \<lparr>bs_listen = addr, bs_capath = Some CA_CERT, bs_certpath = BROKER_CERT, bs_keypath = BROKER_KEY,
             bs_next_connection_delay_ms = 10, bs_connection_timeout_ms = 60000, bs_max_payload_size = 1048576,
             bs_max_inflight_count = 500, bs_max_connections = 10010, bs_max_outgoing_packet_count = 200,
             bs_max_segment_size = 104857600, bs_max_segment_count = 10, bs_bridge_filters = bridge_filters\<rparr>)"

fun probe_loop :: "(nat \<Rightarrow> bool) \<Rightarrow> nat \<Rightarrow> nat \<Rightarrow> bool" where
  "probe_loop connects i 0 = False"
| "probe_loop connects i (Suc n) = (connects i \<or> probe_loop connects (Suc i) n)"

definition wait_until_listening :: "startup_io \<Rightarrow> socket_addr \<Rightarrow> startup_error + unit" where
  "wait_until_listening io addr =
     (let probe = (if is_unspecified (sa_ip addr)
                   then \<lparr>sa_ip = V4 [127, 0, 0, 1], sa_scope = 0, sa_port = sa_port addr\<rparr> else addr)
      in if probe_loop (st_probe io probe) 0 50 then Inr () else Inl NotListening)"

subsection \<open>Optional parts\<close>

text \<open>The sink is there or not; the check for the custom field only warns.\<close>

definition build_inventory_sink :: "startup_io \<Rightarrow> coordinator_cli \<Rightarrow> startup_error + (string \<times> string) option" where
  "build_inventory_sink io cli =
     (case (cli_netbox_url cli, cli_netbox_token cli) of
        (Some url, Some token) \<Rightarrow>
          if trim url = [] \<or> trim token = [] then Inl NetboxBlank
          else if \<not> st_netbox_client io then Inl NetboxClientFailed
          else Inr (Some (url, token))
      | (None, None) \<Rightarrow> Inr None
      | _ \<Rightarrow> Inl NetboxPartial)"

definition build_policy_engine :: "crates \<Rightarrow> startup_io \<Rightarrow> coordinator_cli \<Rightarrow> startup_error + rbac" where
  "build_policy_engine G io cli =
     (case cli_rbac_policy cli of
        None \<Rightarrow> Inr rbac_empty
      | Some path \<Rightarrow>
          (case st_read_text io path of
             None \<Rightarrow> Inl (PolicyRead path)
           | Some doc \<Rightarrow> map_sum PolicyInvalid id (from_toml (cr_uuid G) (cr_toml G) doc)))"

text \<open>Operator authentication: the validator, and for live keys what the refresher runs with.\<close>

datatype operator_auth = StaticKeys jwt_validator | LiveKeys oidc_config string jwt_validator

definition build_operator_auth :: "crates \<Rightarrow> startup_io \<Rightarrow> coordinator_cli \<Rightarrow> startup_error + operator_auth option" where
  "build_operator_auth G io cli =
     (case (cli_oidc_issuer cli, cli_oidc_audience cli) of
        (Some issuer, Some audience) \<Rightarrow>
          if trim issuer = [] \<or> trim audience = [] then Inl OidcBlank
          else if cli_oidc_leeway_secs cli > MAX_LEEWAY_SECS then Inl OidcLeeway
          else
            let config = \<lparr>oc_issuer = issuer, oc_audience = audience, oc_leeway_secs = cli_oidc_leeway_secs cli\<rparr> in
            (case (cli_oidc_jwks cli, cli_oidc_jwks_url cli) of
               (Some path, None) \<Rightarrow>
                 if trim path = [] then Inl JwksPathBlank
                 else (case st_read_bytes io path of
                         None \<Rightarrow> Inl (JwksRead path)
                       | Some bytes \<Rightarrow>
                           map_sum JwksInvalid (\<lambda>v. Some (StaticKeys v)) (from_jwks_json (cr_jwt G) (oidc_policy config) bytes))
             | (None, Some raw) \<Rightarrow>
                 if cli_oidc_refresh_secs cli < 1 then Inl OidcRefresh
                 else (case validate_url (cr_url G) raw of
                         Inl e \<Rightarrow> Inl (OidcUrl e)
                       | Inr url \<Rightarrow>
                           map_sum OidcFetch (\<lambda>v. Some (LiveKeys config url v)) (fetch_validator (cr_jwt G) config (st_fetch io url)))
             | (None, None) \<Rightarrow> Inl OidcNoKeys
             | (Some _, Some _) \<Rightarrow> Inl OidcTwoSources)
      | (None, None) \<Rightarrow>
          if cli_oidc_jwks cli \<noteq> None \<or> cli_oidc_jwks_url cli \<noteq> None then Inl OidcKeysOnly else Inr None
      | _ \<Rightarrow> Inl OidcPartial)"

text \<open>The validator in use after a number of refresh rounds.\<close>

fun auth_cell :: "jwt_lib \<Rightarrow> fetch_io list \<Rightarrow> operator_auth \<Rightarrow> jwt_validator" where
  "auth_cell J rounds (StaticKeys v) = v"
| "auth_cell J rounds (LiveKeys config url v) = spawn_refresh J config rounds v"

subsection \<open>Starting\<close>

record coordinator =
  co_addr :: socket_addr
  co_durable :: bool
  co_ca :: embedded_ca
  co_files :: cert_files
  co_broker :: broker_settings
  co_sink :: "(string \<times> string) option"
  co_policy :: rbac
  co_auth :: "operator_auth option"
  co_default_ttl :: nat
  co_max_ttl :: nat

text \<open>From the CA on; the CA table is already what it will be.\<close>

definition start_services ::
  "crates \<Rightarrow> startup_io \<Rightarrow> coordinator_cli \<Rightarrow> socket_addr \<Rightarrow> socket_addr \<Rightarrow> bool \<Rightarrow> embedded_ca \<Rightarrow> startup_error + coordinator" where
  "start_services G io cli addr mqtt_addr durable ca =
     (case write_tls_material G io ca (cli_broker_dns cli) of
        (Inl e, _) \<Rightarrow> Inl e
      | (Inr _, files) \<Rightarrow>
      (case build_inventory_sink io cli of
        Inl e \<Rightarrow> Inl e
      | Inr sink \<Rightarrow>
      (case broker_spawn io mqtt_addr of
        Inl e \<Rightarrow> Inl e
      | Inr broker \<Rightarrow>
      (case wait_until_listening io mqtt_addr of
        Inl e \<Rightarrow> Inl e
      | Inr _ \<Rightarrow>
      (case build_policy_engine G io cli of
        Inl e \<Rightarrow> Inl e
      | Inr policy \<Rightarrow>
      (case build_operator_auth G io cli of
        Inl e \<Rightarrow> Inl e
      | Inr auth \<Rightarrow>
          if \<not> st_serve io then Inl ServeFailed
          else Inr
            \<lparr>co_addr = addr, co_durable = durable, co_ca = ca, co_files = files, co_broker = broker, co_sink = sink,
             co_policy = policy, co_auth = auth, co_default_ttl = DEFAULT_TOKEN_TTL, co_max_ttl = MAX_TOKEN_TTL\<rparr>))))))"

definition coordinator_main ::
  "crates \<Rightarrow> startup_io \<Rightarrow> coordinator_cli \<Rightarrow> ca_material list \<Rightarrow> (startup_error + coordinator) \<times> ca_material list" where
  "coordinator_main G io cli table =
     (case parse_socket_addr (cli_grpc_bind cli) of
        None \<Rightarrow> (Inl (BadGrpcBind (cli_grpc_bind cli)), table)
      | Some addr \<Rightarrow>
      (case parse_socket_addr (cli_mqtt_bind cli) of
        None \<Rightarrow> (Inl (BadMqttBind (cli_mqtt_bind cli)), table)
      | Some mqtt_addr \<Rightarrow>
      (case db_open io (cli_database_url cli) of
        Inl e \<Rightarrow> (Inl e, table)
      | Inr durable \<Rightarrow>
      (case open_ca G io durable table of
        (Inl e, table') \<Rightarrow> (Inl e, table')
      | (Inr ca, table') \<Rightarrow> (start_services G io cli addr mqtt_addr durable ca, table')))))"

subsection \<open>The router\<close>

text \<open>
  A request as it arrives: its \<open>authorization\<close> metadata, the refresh rounds that happened before it, and
  the call.  The operator service sits behind the interceptor, which binds the subject; the
  enrollment service does not.
\<close>

datatype 'a operator_request =
    ReqExec "'a exec_env" dispatch_request
  | ReqShell "'a shell_env" "status + shell_client_msg option" "shell_client_msg list"
  | ReqDispatch i64 "'a append_op" dispatch_request

record 'a arrival =
  ar_metadata :: "string option option"
  ar_rounds :: "fetch_io list"
  ar_request :: "'a operator_request"

fun with_subject :: "'a operator_request \<Rightarrow> string option \<Rightarrow> 'a operator_call" where
  "with_subject (ReqExec e req) ext = ExecCall e ext req"
| "with_subject (ReqShell e first rest) ext = ShellCall e ext first rest"
| "with_subject (ReqDispatch now ap req) ext = DispatchCall now ap ext req"

definition intercept :: "jwt_lib \<Rightarrow> operator_auth option \<Rightarrow> fetch_io list \<Rightarrow> string option option \<Rightarrow> status + string option" where
  "intercept J auth rounds metadata =
     (case auth of
        None \<Rightarrow> Inr None
      | Some a \<Rightarrow> map_sum id Some (jwt_call J (auth_cell J rounds a) metadata))"

definition operator_serve ::
  "crates \<Rightarrow> coordinator \<Rightarrow> 'a arrival \<Rightarrow> ('t, 'r, 'a) service \<Rightarrow> ('t, 'r, 'a) service" where
  "operator_serve G co a sv =
     (case intercept (cr_jwt G) (co_auth co) (ar_rounds a) (ar_metadata a) of
        Inl _ \<Rightarrow> sv
      | Inr ext \<Rightarrow> operator_step (cr_uuid G) (authorize (cr_uuid G) (co_policy co)) (with_subject (ar_request a) ext) sv)"

definition operator_serves ::
  "crates \<Rightarrow> coordinator \<Rightarrow> 'a arrival list \<Rightarrow> ('t, 'r, 'a) service \<Rightarrow> ('t, 'r, 'a) service" where
  "operator_serves G co arrivals sv = fold (operator_serve G co) arrivals sv"

subsection \<open>What a start establishes\<close>

lemma build_operator_auth_None:
  "build_operator_auth G io cli = Inr None \<longleftrightarrow>
     cli_oidc_issuer cli = None \<and> cli_oidc_audience cli = None \<and> cli_oidc_jwks cli = None \<and> cli_oidc_jwks_url cli = None"
  by (cases "cli_oidc_issuer cli"; cases "cli_oidc_audience cli"; cases "cli_oidc_jwks cli"; cases "cli_oidc_jwks_url cli")
    (auto simp: build_operator_auth_def Let_def map_sum_def split: sum.splits option.splits)

text \<open>The keys of every later moment come from a document of the configured source and are held under
  the configured policy.\<close>

definition configured_policy :: "coordinator_cli \<Rightarrow> validation_policy" where
  "configured_policy cli = \<lparr>vp_issuer = the (cli_oidc_issuer cli), vp_audience = the (cli_oidc_audience cli),
      vp_leeway_secs = cli_oidc_leeway_secs cli\<rparr>"

definition auth_configured :: "crates \<Rightarrow> startup_io \<Rightarrow> coordinator_cli \<Rightarrow> operator_auth \<Rightarrow> bool" where
  "auth_configured G io cli a \<longleftrightarrow>
     (\<exists>issuer audience. cli_oidc_issuer cli = Some issuer \<and> cli_oidc_audience cli = Some audience
        \<and> trim issuer \<noteq> [] \<and> trim audience \<noteq> [])
     \<and> cli_oidc_leeway_secs cli \<le> MAX_LEEWAY_SECS
     \<and> (\<forall>rounds. \<exists>doc. from_jwks_json (cr_jwt G) (configured_policy cli) doc = Inr (auth_cell (cr_jwt G) rounds a))
     \<and> (case a of
          StaticKeys v \<Rightarrow> cli_oidc_jwks_url cli = None \<and> (\<exists>path bytes. cli_oidc_jwks cli = Some path
            \<and> st_read_bytes io path = Some bytes \<and> from_jwks_json (cr_jwt G) (configured_policy cli) bytes = Inr v)
        | LiveKeys config url v \<Rightarrow> cli_oidc_jwks cli = None \<and> cli_oidc_refresh_secs cli \<noteq> 0
            \<and> (\<exists>raw u. cli_oidc_jwks_url cli = Some raw \<and> cr_url G (trim raw) = Some u \<and> url = url_string u
                 \<and> (url_scheme u = ''https'' \<or> url_scheme u = ''http'' \<and> host_is_loopback u)))"

lemma refreshed_from_document:
  assumes "fetch_validator J config start = Inr v"
  shows "\<exists>doc. from_jwks_json J (oidc_policy config) doc = Inr (spawn_refresh J config rounds v)"
  using refreshed_keys_are_latest_good [OF assms, of rounds] fetch_validator_Inr by blast

lemma build_operator_auth_Some:
  assumes "build_operator_auth G io cli = Inr (Some a)"
  shows "auth_configured G io cli a"
proof -
  obtain issuer audience where c: "cli_oidc_issuer cli = Some issuer" "cli_oidc_audience cli = Some audience"
      "trim issuer \<noteq> []" "trim audience \<noteq> []" "cli_oidc_leeway_secs cli \<le> MAX_LEEWAY_SECS"
    using assms by (auto simp: build_operator_auth_def split: option.splits if_splits)
  let ?config = "\<lparr>oc_issuer = issuer, oc_audience = audience, oc_leeway_secs = cli_oidc_leeway_secs cli\<rparr>"
  have policy: "oidc_policy ?config = configured_policy cli" using c by (simp add: oidc_policy_def configured_policy_def)
  consider path bytes v where "cli_oidc_jwks cli = Some path" "cli_oidc_jwks_url cli = None" "st_read_bytes io path = Some bytes"
      "from_jwks_json (cr_jwt G) (oidc_policy ?config) bytes = Inr v" "a = StaticKeys v"
    | raw url v where "cli_oidc_jwks cli = None" "cli_oidc_jwks_url cli = Some raw" "cli_oidc_refresh_secs cli \<noteq> 0"
      "validate_url (cr_url G) raw = Inr url" "fetch_validator (cr_jwt G) ?config (st_fetch io url) = Inr v" "a = LiveKeys ?config url v"
    using assms c by (auto simp: build_operator_auth_def Let_def map_sum_def split: option.splits if_splits sum.splits)
  then show ?thesis
  proof cases
    case 1
    then show ?thesis using c policy by (auto simp: auth_configured_def)
  next
    case 2
    then show ?thesis
      using c policy refreshed_from_document [OF 2(5)] by (auto simp: auth_configured_def validate_url_trusted)
  qed
qed

lemma policy_default_deny:
  assumes "build_policy_engine G io cli = Inr policy" "cli_rbac_policy cli = None"
  shows "authorize (cr_uuid G) policy subj action = Inl Denied"
  using assms by (simp add: build_policy_engine_def authorize_empty)

lemma write_file_Inr: "write_file private io name text files = (Inr (), files') \<Longrightarrow>
    map_of files' = (map_of files)(name \<mapsto> \<lparr>cf_owner_only = (case map_of files name of None \<Rightarrow> private | Some f \<Rightarrow> cf_owner_only f), cf_text = text\<rparr>)"
  by (auto simp: write_file_def Let_def update_conv' split: if_splits)

lemma tls_material_written:
  assumes "write_tls_material G io ca dns = (Inr (), files)"
  shows "\<exists>cert key. issue_server_cert (cr_pki G) (st_server_key io) (st_server_now io) ca dns = Inr (cert, key)
    \<and> map_of files = [BROKER_CERT \<mapsto> \<lparr>cf_owner_only = False, cf_text = cert\<rparr>, BROKER_KEY \<mapsto> \<lparr>cf_owner_only = True, cf_text = key\<rparr>,
        CA_CERT \<mapsto> \<lparr>cf_owner_only = False, cf_text = ca_root_pem ca\<rparr>]"
proof -
  obtain cert key files1 files2 where w: "issue_server_cert (cr_pki G) (st_server_key io) (st_server_now io) ca dns = Inr (cert, key)"
      "write_file False io BROKER_CERT cert [] = (Inr (), files1)" "write_file True io BROKER_KEY key files1 = (Inr (), files2)"
      "write_file False io CA_CERT (ca_root_pem ca) files2 = (Inr (), files)"
    using assms by (auto simp: write_tls_material_def write_secret_def split: if_splits sum.splits prod.splits)
  show ?thesis
    using w(1) write_file_Inr [OF w(2)] write_file_Inr [OF w(3)] write_file_Inr [OF w(4)]
    by (auto simp: BROKER_CERT_def BROKER_KEY_def CA_CERT_def)
qed

lemma probe_loop_iff: "probe_loop connects i n \<longleftrightarrow> (\<exists>j < n. connects (i + j))"
proof (induction connects i n rule: probe_loop.induct)
  case (2 connects i n)
  have "(\<exists>j < Suc n. connects (i + j)) \<longleftrightarrow> connects i \<or> (\<exists>j < n. connects (Suc i + j))"
    by (metis add_0_right add_Suc_right add_Suc_shift less_Suc_eq_0_disj)
  then show ?case using 2 by simp
qed simp

lemma subscribe_all_iff: "subscribe_all io fs = Inr () \<longleftrightarrow> list_all (st_subscribe io) fs"
  by (induction fs) auto

lemma start_services_Inr:
  assumes "start_services G io cli addr mqtt_addr durable ca = Inr co"
  obtains files sink broker policy auth where
    "write_tls_material G io ca (cli_broker_dns cli) = (Inr (), files)" "build_inventory_sink io cli = Inr sink"
    "broker_spawn io mqtt_addr = Inr broker" "wait_until_listening io mqtt_addr = Inr ()"
    "build_policy_engine G io cli = Inr policy" "build_operator_auth G io cli = Inr auth" "st_serve io"
    "co = \<lparr>co_addr = addr, co_durable = durable, co_ca = ca, co_files = files, co_broker = broker, co_sink = sink,
       co_policy = policy, co_auth = auth, co_default_ttl = DEFAULT_TOKEN_TTL, co_max_ttl = MAX_TOKEN_TTL\<rparr>"
  using assms by (auto simp: start_services_def split: prod.splits sum.splits if_splits)

lemma coordinator_main_Inr:
  assumes "coordinator_main G io cli table = (Inr co, table')"
  obtains addr mqtt_addr durable ca where
    "parse_socket_addr (cli_grpc_bind cli) = Some addr" "parse_socket_addr (cli_mqtt_bind cli) = Some mqtt_addr"
    "db_open io (cli_database_url cli) = Inr durable" "open_ca G io durable table = (Inr ca, table')"
    "start_services G io cli addr mqtt_addr durable ca = Inr co"
  using assms by (auto simp: coordinator_main_def split: option.splits prod.splits sum.splits)

text \<open>The broker as agents meet it: it answered a probe, its private key file is owner-only, it asks for
  client certificates of this coordinator's CA, and the bridge hears every uplink.\<close>

definition broker_ready :: "startup_io \<Rightarrow> coordinator \<Rightarrow> bool" where
  "broker_ready io co \<longleftrightarrow>
     (let addr = bs_listen (co_broker co);
          probe = (if is_unspecified (sa_ip addr) then \<lparr>sa_ip = V4 [127, 0, 0, 1], sa_scope = 0, sa_port = sa_port addr\<rparr> else addr)
      in \<exists>i < 50. st_probe io probe i)
     \<and> (\<exists>key. map_of (co_files co) (bs_keypath (co_broker co)) = Some \<lparr>cf_owner_only = True, cf_text = key\<rparr>)
     \<and> (\<exists>path file. bs_capath (co_broker co) = Some path \<and> map_of (co_files co) path = Some file
          \<and> cf_text file = ca_cert_pem (co_ca co))
     \<and> list_all (st_subscribe io) (bs_bridge_filters (co_broker co))"

lemma start_services_broker_ready:
  assumes "start_services G io cli addr mqtt_addr durable ca = Inr co"
  shows "broker_ready io co"
proof (rule start_services_Inr [OF assms])
  fix files sink broker policy auth
  assume w: "write_tls_material G io ca (cli_broker_dns cli) = (Inr (), files)"
    and b: "broker_spawn io mqtt_addr = Inr broker" and l: "wait_until_listening io mqtt_addr = Inr ()"
    and co: "co = \<lparr>co_addr = addr, co_durable = durable, co_ca = ca, co_files = files, co_broker = broker, co_sink = sink,
       co_policy = policy, co_auth = auth, co_default_ttl = DEFAULT_TOKEN_TTL, co_max_ttl = MAX_TOKEN_TTL\<rparr>"
  have broker: "bs_listen broker = mqtt_addr" "bs_capath broker = Some CA_CERT" "bs_keypath broker = BROKER_KEY"
      "list_all (st_subscribe io) (bs_bridge_filters broker)"
    using b by (auto simp: broker_spawn_def subscribe_all_iff [symmetric] split: if_splits sum.splits)
  have "\<exists>i < 50. st_probe io (if is_unspecified (sa_ip mqtt_addr)
      then \<lparr>sa_ip = V4 [127, 0, 0, 1], sa_scope = 0, sa_port = sa_port mqtt_addr\<rparr> else mqtt_addr) i"
    using l by (auto simp: wait_until_listening_def Let_def probe_loop_iff split: if_splits)
  then show ?thesis
    using tls_material_written [OF w] broker
    by (auto simp: broker_ready_def co Let_def ca_root_pem_def BROKER_CERT_def BROKER_KEY_def CA_CERT_def)
qed

lemma build_inventory_sink_None:
  "build_inventory_sink io cli = Inr None \<longleftrightarrow> cli_netbox_url cli = None \<and> cli_netbox_token cli = None"
  by (auto simp: build_inventory_sink_def split: option.splits)


subsection \<open>Operators\<close>

fun starts :: "bridge_command \<Rightarrow> uuid \<Rightarrow> string \<Rightarrow> string \<Rightarrow> bool" where
  "starts (CmdDispatch h d chan) host k user \<longleftrightarrow> h = host \<and> dm_kind d = k \<and> dm_run_as d = user"
| "starts (CmdOpenShell h stream_id u rows cols out) host k user \<longleftrightarrow> h = host \<and> k = ''shell'' \<and> u = user"
| "starts _ host k user \<longleftrightarrow> False"

definition granted :: "uuid_lib \<Rightarrow> pdp \<Rightarrow> string \<Rightarrow> uuid \<Rightarrow> string \<Rightarrow> string \<Rightarrow> bool" where
  "granted U pdp subj host k user \<longleftrightarrow>
     (\<exists>action. pdp subj action = Inr () \<and> parse_uuid U (ad_target action) = Some host \<and> ad_kind action = k \<and> ad_run_as action = user)"

lemma authorize_and_audit_Allow:
  "authorize_and_audit pdp ap now subj action audit = (Inr Allow, audit') \<Longrightarrow> pdp subj action = Inr ()"
  by (auto simp: authorize_and_audit_def split: sum.splits port_error.splits prod.splits option.splits)

lemma exec_host_granted:
  assumes "uuid_laws U" "c \<in> set (sv_commands (exec_host U pdp subj action params chan e host' sv))" "starts c host k user"
  shows "c \<in> set (sv_commands sv) \<or> granted U pdp subj host k user"
proof -
  let ?a = "\<lparr>ad_kind = ad_kind action, ad_target = hyphenated U host', ad_run_as = ad_run_as action, ad_params_hash = ad_params_hash action\<rparr>"
  obtain r audit where a: "authorize_and_audit pdp (he_append e) (he_now e) subj ?a (sv_audit sv) = (r, audit)"
    by (cases "authorize_and_audit pdp (he_append e) (he_now e) subj ?a (sv_audit sv)")
  show ?thesis
  proof (cases "r = Inr Allow")
    case True
    then have "pdp subj ?a = Inr ()" using authorize_and_audit_Allow [OF a [unfolded True]] by simp
    moreover have "parse_uuid U (hyphenated U host') = Some host'" using assms(1) by (simp add: uuid_laws_def)
    ultimately have "granted U pdp subj host' (ad_kind action) (ad_run_as action)" unfolding granted_def by (intro exI [of _ ?a]) simp
    then show ?thesis using assms(2,3) a True by (auto simp: exec_host_def Let_def split: if_splits)
  next
    case False
    then have "sv_commands (exec_host U pdp subj action params chan e host' sv) = sv_commands sv"
      using a by (auto simp: exec_host_def Let_def split: sum.splits decision.splits)
    then show ?thesis using assms(2) by simp
  qed
qed

lemma exec_fanout_granted:
  assumes "uuid_laws U" "c \<in> set (sv_commands (exec_fanout U pdp subj action params chan envs hosts sv))" "starts c host k user"
  shows "c \<in> set (sv_commands sv) \<or> granted U pdp subj host k user"
  using assms(2)
proof (induction hosts arbitrary: envs sv)
  case (Cons h hosts)
  then have "c \<in> set (sv_commands (exec_host U pdp subj action params chan (envs 0) h sv)) \<or> granted U pdp subj host k user" by auto
  then show ?case using exec_host_granted [OF assms(1) _ assms(3)] by blast
qed simp

lemma shell_pump_starts_nothing: "c \<in> set (shell_pump h stream_id takes msgs) \<Longrightarrow> \<not> starts c host k user"
  by (induction h stream_id takes msgs rule: shell_pump.induct) (auto split: if_splits)

lemma resolve_starts_nothing:
  "resolve U sent online reply selector sv = (r, sv') \<Longrightarrow> c \<in> set (sv_commands sv') \<Longrightarrow> starts c host k user \<Longrightarrow> c \<in> set (sv_commands sv)"
  by (auto simp: resolve_def Let_def split: if_splits sum.splits)

lemma exec_call_granted:
  assumes "uuid_laws U" "c \<in> set (sv_commands (snd (exec_call U pdp e ext req sv)))" "starts c host k user"
  shows "c \<in> set (sv_commands sv) \<or> granted U pdp (operator_of ext) host k user"
proof (cases "dr_action req")
  case (Some action)
  obtain r sv1 where r: "resolve U (xe_sent e) (xe_online e) (xe_reply e) (ad_target action) sv = (r, sv1)"
    by (cases "resolve U (xe_sent e) (xe_online e) (xe_reply e) (ad_target action) sv")
  have "c \<in> set (sv_commands sv1) \<Longrightarrow> c \<in> set (sv_commands sv)" using resolve_starts_nothing [OF r _ assms(3)] .
  moreover have "c \<in> set (sv_commands sv) \<or> c \<in> set (sv_commands sv1) \<or> granted U pdp (operator_of ext) host k user"
    using assms(2)
    by (auto simp: exec_call_def Some r dest!: exec_fanout_granted [OF assms(1) _ assms(3)] split: if_splits sum.splits)
  ultimately show ?thesis by blast
qed (use assms(2) in \<open>simp add: exec_call_def\<close>)

lemma shell_call_granted:
  assumes "c \<in> set (sv_commands (snd (shell_call U pdp e ext first rest sv)))" "starts c host k user"
  shows "c \<in> set (sv_commands sv) \<or> granted U pdp (operator_of ext) host k user"
proof (cases "\<exists>op. first = Inr (Some (MsgOpen op))")
  case True
  then obtain op where op: "first = Inr (Some (MsgOpen op))" ..
  obtain r audit where a: "authorize_shell_open U pdp (sl_append e) (sl_now e) (operator_of ext) op (sv_audit sv) = (r, audit)"
    by (cases "authorize_shell_open U pdp (sl_append e) (sl_now e) (operator_of ext) op (sv_audit sv)")
  have "granted U pdp (operator_of ext) h ''shell'' (so_run_as op)" if r: "r = Inr h" for h
  proof -
    let ?a = "\<lparr>ad_kind = ''shell'', ad_target = so_host_id op, ad_run_as = so_run_as op, ad_params_hash = []\<rparr>"
    have "parse_uuid U (so_host_id op) = Some h \<and> authorize_and_audit pdp (sl_append e) (sl_now e) (operator_of ext) ?a (sv_audit sv) = (Inr Allow, audit)"
      using a r by (auto simp: authorize_shell_open_def Let_def split: option.splits prod.splits sum.splits decision.splits)
    then show ?thesis unfolding granted_def using authorize_and_audit_Allow by (intro exI [of _ ?a]) auto
  qed
  then show ?thesis
    using assms shell_pump_starts_nothing
    by (auto simp: shell_call_def op a Let_def split: sum.splits if_splits)
next
  case False
  then have "snd (shell_call U pdp e ext first rest sv) = sv"
    by (auto simp: shell_call_def split: sum.splits option.splits shell_client_msg.splits)
  then show ?thesis using assms(1) by simp
qed

lemma operator_step_granted:
  assumes "uuid_laws U" "c \<in> set (sv_commands (operator_step U pdp (with_subject req ext) sv))" "starts c host k user"
  shows "c \<in> set (sv_commands sv) \<or> granted U pdp (operator_of ext) host k user"
proof (cases req)
  case (ReqExec e r)
  then show ?thesis using exec_call_granted [OF assms(1) _ assms(3)] assms(2) by simp
next
  case (ReqShell e first rest)
  then show ?thesis using shell_call_granted [OF _ assms(3)] assms(2) by simp
next
  case (ReqDispatch now ap r)
  then show ?thesis
    using assms(2) by (auto simp: dispatch_call_def split: option.splits prod.splits sum.splits decision.splits if_splits)
qed

text \<open>What a token proves to a coordinator started with these options: a key of the issuer's, under an
  asymmetric algorithm, for the configured issuer and audience.\<close>

definition token_proves :: "crates \<Rightarrow> coordinator_cli \<Rightarrow> string option option \<Rightarrow> string \<Rightarrow> bool" where
  "token_proves G cli metadata subj \<longleftrightarrow>
     (\<exists>token key alg. bearer_token metadata = Inr token \<and> alg \<notin> {HS256, HS384, HS512}
        \<and> decode_token (cr_jwt G) token key (validation_for (configured_policy cli) alg) = Inr subj)"

definition policy_file_grants :: "crates \<Rightarrow> startup_io \<Rightarrow> coordinator_cli \<Rightarrow> string \<Rightarrow> uuid \<Rightarrow> string \<Rightarrow> string \<Rightarrow> bool" where
  "policy_file_grants G io cli subj host k user \<longleftrightarrow>
     (\<exists>path doc ds d. cli_rbac_policy cli = Some path \<and> st_read_text io path = Some doc \<and> cr_toml G doc = Some ds \<and> d \<in> set ds
        \<and> bd_subject d = subj \<and> (''*'' \<in> set (bd_verbs d) \<or> k \<in> set (bd_verbs d))
        \<and> (''*'' \<in> set (bd_selectors d) \<or> (\<exists>s \<in> set (bd_selectors d). parse_uuid (cr_uuid G) s = Some host))
        \<and> (''*'' \<in> set (bd_run_as d) \<or> user \<in> set (bd_run_as d)))"

lemma intercept_proves:
  assumes "auth_configured G io cli a" "intercept (cr_jwt G) (Some a) rounds metadata = Inr ext"
  shows "\<exists>subj. ext = Some subj \<and> token_proves G cli metadata subj"
proof -
  obtain doc where doc: "from_jwks_json (cr_jwt G) (configured_policy cli) doc = Inr (auth_cell (cr_jwt G) rounds a)"
    using assms(1) by (auto simp: auth_configured_def)
  obtain subj where s: "jwt_call (cr_jwt G) (auth_cell (cr_jwt G) rounds a) metadata = Inr subj" "ext = Some subj"
    using assms(2) by (auto simp: intercept_def map_sum_def split: sum.splits)
  then show ?thesis using jwt_call_pinned [OF doc, of metadata] by (auto simp: token_proves_def)
qed

lemma granted_by_policy_file:
  assumes "build_policy_engine G io cli = Inr policy" "granted (cr_uuid G) (authorize (cr_uuid G) policy) subj host k user"
  shows "policy_file_grants G io cli subj host k user"
proof -
  obtain action where a: "authorize (cr_uuid G) policy subj action = Inr ()" "parse_uuid (cr_uuid G) (ad_target action) = Some host"
      "ad_kind action = k" "ad_run_as action = user"
    using assms(2) by (auto simp: granted_def)
  obtain path where path: "cli_rbac_policy cli = Some path" using policy_default_deny [OF assms(1)] a(1) by fastforce
  obtain doc where doc: "st_read_text io path = Some doc" "from_toml (cr_uuid G) (cr_toml G) doc = Inr policy"
    using assms(1) path by (auto simp: build_policy_engine_def map_sum_def split: option.splits sum.splits)
  show ?thesis
    using authorize_grant_source [OF doc(2) a(1)] a path doc(1) unfolding policy_file_grants_def by fastforce
qed

lemma operator_serves_granted:
  assumes "uuid_laws (cr_uuid G)" "build_policy_engine G io cli = Inr (co_policy co)" "co_auth co = Some au" "auth_configured G io cli au"
    and "starts c host k user"
  shows "c \<in> set (sv_commands (operator_serves G co arrivals sv)) \<Longrightarrow> c \<in> set (sv_commands sv)
    \<or> (\<exists>a \<in> set arrivals. \<exists>subj. token_proves G cli (ar_metadata a) subj \<and> policy_file_grants G io cli subj host k user)"
proof (induction arrivals arbitrary: sv)
  case (Cons a arrivals)
  let ?sv = "operator_serve G co a sv"
  have "c \<in> set (sv_commands sv) \<or> (\<exists>subj. token_proves G cli (ar_metadata a) subj \<and> policy_file_grants G io cli subj host k user)"
    if c: "c \<in> set (sv_commands ?sv)"
  proof (cases "intercept (cr_jwt G) (Some au) (ar_rounds a) (ar_metadata a)")
    case (Inl st)
    then show ?thesis using c assms(3) by (simp add: operator_serve_def)
  next
    case (Inr ext)
    obtain subj where subj: "ext = Some subj" "token_proves G cli (ar_metadata a) subj" using intercept_proves [OF assms(4) Inr] by blast
    have "c \<in> set (sv_commands (operator_step (cr_uuid G) (authorize (cr_uuid G) (co_policy co)) (with_subject (ar_request a) ext) sv))"
      using c Inr assms(3) by (simp add: operator_serve_def)
    from operator_step_granted [OF assms(1) this assms(5)] show ?thesis
      using granted_by_policy_file [OF assms(2)] subj by (auto simp: operator_of_def)
  qed
  then show ?case using Cons by (fastforce simp: operator_serves_def)
qed (simp add: operator_serves_def)


subsection \<open>A sample start\<close>

definition sample_crates :: crates where
  "sample_crates = \<lparr>cr_pki = sample_pki\<lparr>sign_by := (\<lambda>_ _ _ _. Inr [1])\<rparr>, cr_uuid = tally_uuid, cr_jwt = sample_jwt,
     cr_toml = sample_policy, cr_url = (\<lambda>_. None)\<rparr>"

definition sample_startup_io :: startup_io where
  "sample_startup_io =
     \<lparr>st_connect = False, st_migrate = False, st_ca = sample_ca_io ''k'' Committed, st_tempdir = True,
      st_server_key = Inr (''server-key'', [8]), st_server_now = 0, st_open = (\<lambda>_. True), st_write = (\<lambda>_. True),
      st_netbox_client = False, st_link = True, st_subscribe = (\<lambda>_. True), st_thread = (\<lambda>_. True),
      st_probe = (\<lambda>addr i. sa_ip addr = V4 [127, 0, 0, 1] \<and> sa_port addr = 8883 \<and> i = 3),
      st_read_text = (\<lambda>p. if p = ''policy.toml'' then Some ''doc'' else None),
      st_read_bytes = (\<lambda>p. if p = ''jwks.json'' then Some [] else None),
      st_fetch = (\<lambda>_. \<lparr>ft_build = False, ft_response = None\<rparr>), st_serve = True\<rparr>"

definition sample_cli :: coordinator_cli where
  "sample_cli = cli_defaults\<lparr>cli_oidc_issuer := Some ''i'', cli_oidc_audience := Some ''a'', cli_oidc_jwks := Some ''jwks.json'',
     cli_rbac_policy := Some ''policy.toml''\<rparr>"

definition sample_ca :: embedded_ca where
  "sample_ca = \<lparr>ca_issuer = (''root'', ''k''), ca_cert_der = [2], ca_cert_pem = ''root'', ca_key_pem = ''k'', ca_cert_ttl = HOST_CERT_TTL\<rparr>"

definition sample_validator :: jwt_validator where
  "sample_validator = \<lparr>jv_policy = \<lparr>vp_issuer = ''i'', vp_audience = ''a'', vp_leeway_secs = 60\<rparr>,
     jv_keys = [(''k1'', \<lparr>vk_decoding = [5], vk_alg = ES256\<rparr>)]\<rparr>"

lemma sample_addrs:
  "parse_socket_addr ''0.0.0.0:8443'' = Some \<lparr>sa_ip = V4 [0, 0, 0, 0], sa_scope = 0, sa_port = 8443\<rparr>"
  "parse_socket_addr ''0.0.0.0:8883'' = Some \<lparr>sa_ip = V4 [0, 0, 0, 0], sa_scope = 0, sa_port = 8883\<rparr>"
  by code_simp+

lemma sample_trims: "trim ''i'' = ''i''" "trim ''a'' = ''a''" "trim ''jwks.json'' = ''jwks.json''"
  by (rule trim_unpadded; simp add: whitespace_encodings_def)+

lemma sample_auth_built: "build_operator_auth sample_crates sample_startup_io sample_cli = Inr (Some (StaticKeys sample_validator))"
  by (simp add: build_operator_auth_def sample_cli_def cli_defaults_def sample_trims MAX_LEEWAY_SECS_def sample_startup_io_def sample_crates_def
      Let_def from_jwks_json_def sample_jwt_def algorithm_of_def key_algorithm_to_algorithm_def oidc_policy_def sample_validator_def)

lemma sample_ca_opened: "open_ca sample_crates sample_startup_io False [] = (Inr sample_ca, [])"
  by (simp add: open_ca_def sample_crates_def sample_startup_io_def ca_generate_def sample_ca_io_def sample_pki_def HOST_CERT_TTL_def
      SECOND_def sample_ca_def from_material_def Let_def)

lemma sample_broker_spawned:
  "\<exists>b. broker_spawn sample_startup_io addr = Inr b" "wait_until_listening sample_startup_io \<lparr>sa_ip = V4 [0, 0, 0, 0], sa_scope = 0, sa_port = 8883\<rparr> = Inr ()"
  by (simp_all add: broker_spawn_def bridge_filters_def wait_until_listening_def sample_startup_io_def probe_loop_iff Let_def)

lemma sample_tls_written: "\<exists>files. write_tls_material sample_crates sample_startup_io sample_ca [''localhost''] = (Inr (), files)"
  by (simp add: write_tls_material_def sample_startup_io_def sample_crates_def issue_server_cert_def sample_pki_def sample_ca_def
      write_secret_def write_file_def Let_def)

lemma sample_policy_built:
  "build_policy_engine sample_crates sample_startup_io sample_cli
     = Inr [\<lparr>b_subject = ''alice'', b_verbs = [''exec''], b_selectors = [Host 0], b_run_as = [''deploy'']\<rparr>]"
  by (simp add: build_policy_engine_def sample_cli_def sample_startup_io_def sample_crates_def sample_policy_loads)

lemma sample_start:
  "\<exists>co. coordinator_main sample_crates sample_startup_io sample_cli [] = (Inr co, []) \<and> co_auth co = Some (StaticKeys sample_validator)
     \<and> co_policy co = [\<lparr>b_subject = ''alice'', b_verbs = [''exec''], b_selectors = [Host 0], b_run_as = [''deploy'']\<rparr>]"
proof -
  obtain b where b: "broker_spawn sample_startup_io \<lparr>sa_ip = V4 [0, 0, 0, 0], sa_scope = 0, sa_port = 8883\<rparr> = Inr b"
    using sample_broker_spawned(1) by blast
  obtain files where files: "write_tls_material sample_crates sample_startup_io sample_ca [''localhost''] = (Inr (), files)"
    using sample_tls_written by blast
  have cli: "cli_grpc_bind sample_cli = ''0.0.0.0:8443''" "cli_mqtt_bind sample_cli = ''0.0.0.0:8883''" "cli_database_url sample_cli = None"
      "cli_broker_dns sample_cli = [''localhost'']" "build_inventory_sink sample_startup_io sample_cli = Inr None" "st_serve sample_startup_io"
    by (simp_all add: sample_cli_def cli_defaults_def build_inventory_sink_def sample_startup_io_def)
  show ?thesis
    by (simp add: coordinator_main_def cli sample_addrs db_open_def sample_ca_opened start_services_def files b sample_broker_spawned(2)
        sample_policy_built sample_auth_built)
qed


definition sample_arrival :: "audit_entry list arrival" where
  "sample_arrival = \<lparr>ar_metadata = Some (Some ''bearer x''), ar_rounds = [],
     ar_request = ReqExec ((sample_exec_env (\<lambda>_. 0))\<lparr>xe_online := Some [0]\<rparr>) sample_request\<rparr>"

lemma sample_intercepted: "intercept sample_jwt (Some (StaticKeys sample_validator)) [] (Some (Some ''bearer x'')) = Inr (Some ''alice'')"
  by (simp add: intercept_def jwt_call_def bearer_token_def eq_ignore_ascii_case_def to_ascii_lowercase_def jwt_validate_def
      sample_validator_def sample_jwt_def validation_for_def)

lemma sample_served:
  assumes "co_auth co = Some (StaticKeys sample_validator)"
    "co_policy co = [\<lparr>b_subject = ''alice'', b_verbs = [''exec''], b_selectors = [Host 0], b_run_as = [''deploy'']\<rparr>]"
  shows "\<exists>d. sv_commands (operator_serves sample_crates co [sample_arrival] (new_service () () [])) = [CmdOnlineHosts 0, CmdDispatch 0 d 1]
    \<and> dm_kind d = ''exec'' \<and> dm_run_as d = ''deploy''"
proof -
  have g: "cr_jwt sample_crates = sample_jwt" "cr_uuid sample_crates = tally_uuid" by (simp_all add: sample_crates_def)
  have p: "parse_uuid tally_uuid (hyphenated tally_uuid 0) = Some 0" using tally_uuid_laws by (simp add: uuid_laws_def)
  have a: "ar_metadata sample_arrival = Some (Some ''bearer x'')" "ar_rounds sample_arrival = []" by (simp_all add: sample_arrival_def)
  show ?thesis
    by (simp add: operator_serves_def operator_serve_def g a assms sample_intercepted)
      (simp add: sample_arrival_def sample_exec_env_def sample_request_def exec_call_def resolve_def MAX_FANOUT_def exec_host_def new_service_def
        authorize_and_audit_def authorize_def p binding_allows_def operator_of_def mem_append_def Let_def)
qed


end
