(* ===== verification/Agent_Run.thy ===== *)
theory Agent_Run
  imports Pty Enroll Host_Inventory
begin

text \<open>
  The reconnect loop of \<^verbatim>\<open>osa-agent/src/control_channel.rs\<close> around a connection, with what it loads from
  the state directory.  A round of the loop brings what the state directory
  holds when it is read, the events of its connection, and for how long it was up.
\<close>

subsection \<open>The reconnect loop\<close>

definition RESULT_QUEUE :: nat where "RESULT_QUEUE = 256"
definition KEEP_ALIVE_SECS :: nat where "KEEP_ALIVE_SECS = 30"
definition HEARTBEAT_INTERVAL_SECS :: nat where "HEARTBEAT_INTERVAL_SECS = 15"

record tls_identity =
  tls_ca_pem :: string
  tls_cert_pem :: string
  tls_key_pem :: string

datatype run_error = ReadingIdentity string | ReadingHostId | OpeningJobStore

type_synonym state_dir = "string \<Rightarrow> string option"

definition load_identity :: "state_dir \<Rightarrow> run_error + tls_identity" where
  "load_identity dir =
     (case dir ''ca.crt'' of
        None \<Rightarrow> Inl (ReadingIdentity ''ca.crt'')
      | Some ca \<Rightarrow>
      (case dir ''host.crt'' of
        None \<Rightarrow> Inl (ReadingIdentity ''host.crt'')
      | Some cert \<Rightarrow>
      (case dir ''host.key'' of
        None \<Rightarrow> Inl (ReadingIdentity ''host.key'')
      | Some key \<Rightarrow> Inr \<lparr>tls_ca_pem = ca, tls_cert_pem = cert, tls_key_pem = key\<rparr>)))"

definition read_host_id :: "state_dir \<Rightarrow> run_error + string" where
  "read_host_id dir = (case dir ''host_id'' of None \<Rightarrow> Inl ReadingHostId | Some h \<Rightarrow> Inr (trim h))"

text \<open>The PEM parser and the reading of a certificate's public key, as the session code uses them.\<close>

record pem_lib =
  pl_pem :: "bytes \<Rightarrow> bytes option"
  pl_pubkey :: "bytes \<Rightarrow> bytes option"

definition load_agent_identity :: "pem_lib \<Rightarrow> state_dir \<Rightarrow> session_error + agent_identity" where
  "load_agent_identity L dir = identity_load dir (\<lambda>name. map_option as_bytes (dir name)) (pl_pem L) (pl_pubkey L)"

record run_round =
  rd_tls :: state_dir
  rd_identity :: state_dir
  rd_events :: "conn_event list"
  rd_up_ms :: "nat option"

text \<open>What a round did: the TLS identity it dialled with, and the delay after it.\<close>

record round_log =
  rl_tls :: tls_identity
  rl_wait_ms :: nat

definition saturating_inc :: "u32 \<Rightarrow> u32" where
  "saturating_inc n = (if n = - 1 then - 1 else n + 1)"

definition run_once ::
  "crypto \<Rightarrow> codecs \<Rightarrow> pem_lib \<Rightarrow> (u64 \<times> u32 \<Rightarrow> u64) \<Rightarrow> u64 \<Rightarrow> local_allowlist \<Rightarrow> string \<Rightarrow> run_round \<Rightarrow> u32 \<times> agent_conn
   \<Rightarrow> run_error + round_log \<times> u32 \<times> agent_conn" where
  "run_once C P L hash seed backstop host_id rd = (\<lambda>(attempt, cc).
     case load_identity (rd_tls rd) of
       Inl e \<Rightarrow> Inl e
     | Inr tls \<Rightarrow>
         (case load_agent_identity L (rd_identity rd) of
            Inl _ \<Rightarrow> Inr (\<lparr>rl_tls = tls, rl_wait_ms = backoff hash attempt seed\<rparr>, saturating_inc attempt, cc)
          | Inr ident \<Rightarrow>
              let cc1 = conn_run C P ident backstop (heartbeat host_id) (for_host host_id) (rd_events rd) cc;
                  cc2 = conn_step C P ident backstop (heartbeat host_id) (for_host host_id) Disconnected cc1
              in (case reconnect hash seed (rd_up_ms rd) attempt of
                    (wait, attempt') \<Rightarrow> Inr (\<lparr>rl_tls = tls, rl_wait_ms = wait\<rparr>, attempt', cc2))))"

fun run_rounds ::
  "crypto \<Rightarrow> codecs \<Rightarrow> pem_lib \<Rightarrow> (u64 \<times> u32 \<Rightarrow> u64) \<Rightarrow> u64 \<Rightarrow> local_allowlist \<Rightarrow> string \<Rightarrow> run_round list \<Rightarrow> u32 \<times> agent_conn
   \<Rightarrow> run_error + round_log list \<times> u32 \<times> agent_conn" where
  "run_rounds C P L hash seed backstop host_id [] st = Inr ([], st)"
| "run_rounds C P L hash seed backstop host_id (rd # rds) st =
     (case run_once C P L hash seed backstop host_id rd st of
        Inl e \<Rightarrow> Inl e
      | Inr (l, st') \<Rightarrow>
          (case run_rounds C P L hash seed backstop host_id rds st' of
             Inl e \<Rightarrow> Inl e
           | Inr (ls, st'') \<Rightarrow> Inr (l # ls, st'')))"

text \<open>\<open>seed_of\<close> is the standard library's hash of the host id; \<open>jobs_dir\<close>: the job directory can be created.\<close>

definition agent_run ::
  "crypto \<Rightarrow> codecs \<Rightarrow> pem_lib \<Rightarrow> (string \<Rightarrow> u64) \<Rightarrow> (u64 \<times> u32 \<Rightarrow> u64) \<Rightarrow> local_allowlist \<Rightarrow> state_dir \<Rightarrow> bool \<Rightarrow> run_round list
   \<Rightarrow> run_error + round_log list \<times> u32 \<times> agent_conn" where
  "agent_run C P L seed_of hash backstop dir jobs_dir rounds =
     (case read_host_id dir of
        Inl e \<Rightarrow> Inl e
      | Inr host_id \<Rightarrow>
          (case load_identity dir of
             Inl e \<Rightarrow> Inl e
           | Inr _ \<Rightarrow>
               if \<not> jobs_dir then Inl OpeningJobStore
               else run_rounds C P L hash (seed_of host_id) backstop host_id rounds (0, conn_init)))"

text \<open>The publisher tasks: what goes out of the queue of sealed results, with the number of publishes the
  client takes.\<close>

fun publish_results :: "nat \<Rightarrow> bytes list \<Rightarrow> bytes list" where
  "publish_results takes [] = []"
| "publish_results takes (b # bs) = (if takes = 0 then [] else b # publish_results (takes - 1) bs)"

subsection \<open>Properties of the loop\<close>

definition idle :: "agent_conn \<Rightarrow> bool" where
  "idle cc \<longleftrightarrow> cc_session cc = None \<and> cc_handshaking cc = None \<and> cc_active cc = None \<and> cc_used cc = [] \<and> conn_inv cc"

text \<open>The exponential value the delay is drawn below, and whether a connection was stable.\<close>

definition ladder :: "nat \<Rightarrow> nat" where
  "ladder n = max (min (BACKOFF_BASE_MS * 2 ^ min n 20) BACKOFF_MAX_MS) BACKOFF_BASE_MS"

definition stable :: "run_round \<Rightarrow> bool" where
  "stable rd \<longleftrightarrow> (case rd_up_ms rd of None \<Rightarrow> False | Some t \<Rightarrow> t \<ge> STABLE_RESET_MS)"

lemma backoff_ladder:
  "ladder (unat attempt) div 2 \<le> backoff hash attempt seed" "250 \<le> backoff hash attempt seed" "backoff hash attempt seed < 30000"
  using backoff_bounds [of attempt hash seed] by (simp_all add: ladder_def Let_def)

lemma reconnect_ladder:
  assumes "reconnect hash seed up attempt = (wait, attempt')"
  shows "250 \<le> wait \<and> wait < 30000
    \<and> (\<not> (case up of None \<Rightarrow> False | Some t \<Rightarrow> t \<ge> STABLE_RESET_MS) \<longrightarrow>
         ladder (unat attempt) div 2 \<le> wait \<and> attempt' = saturating_inc attempt)"
  using assms backoff_ladder [where attempt = 0 and hash = hash and seed = seed]
    backoff_ladder [where attempt = attempt and hash = hash and seed = seed]
  by (cases up) (auto simp: reconnect_def Let_def saturating_inc_def split: if_splits)

lemma ladder_saturating: "ladder (unat (saturating_inc attempt) + i) = ladder (unat attempt + Suc i)"
proof (cases "attempt = - 1")
  case True
  then have "unat attempt = 2 ^ 32 - 1" by (simp add: unsigned_minus_1_eq_mask mask_eq_exp_minus_1)
  then show ?thesis using True by (simp add: saturating_inc_def ladder_def)
next
  case False
  then have "attempt + 1 \<noteq> 0" by (simp add: eq_neg_iff_add_eq_0)
  then have "unat (attempt + 1) = unat attempt + 1" by (metis Suc_eq_plus1 unatSuc add.commute)
  then show ?thesis using False by (simp add: saturating_inc_def)
qed

lemma idle_disconnected: "conn_inv cc \<Longrightarrow> idle (conn_step C P ident backstop beat topics Disconnected cc)"
  using conn_inv_step [of cc C P ident backstop beat topics Disconnected] by (simp add: idle_def conn_reset_def)

lemma conn_inv_run: "conn_inv cc \<Longrightarrow> conn_inv (conn_run C P ident backstop beat topics evs cc)"
  unfolding conn_run_def by (induction evs arbitrary: cc) (simp_all add: conn_inv_step)

lemma run_once_Inr:
  assumes "run_once C P L hash seed backstop host_id rd (attempt, cc) = Inr (l, attempt', cc')" "idle cc"
  shows "load_identity (rd_tls rd) = Inr (rl_tls l) \<and> 250 \<le> rl_wait_ms l \<and> rl_wait_ms l < 30000 \<and> idle cc'
    \<and> (\<not> stable rd \<longrightarrow> ladder (unat attempt) div 2 \<le> rl_wait_ms l \<and> attempt' = saturating_inc attempt)"
proof -
  have inv: "conn_inv cc" using assms(2) by (simp add: idle_def)
  obtain tls where tls: "load_identity (rd_tls rd) = Inr tls" using assms(1) by (auto simp: run_once_def split: sum.splits)
  show ?thesis
  proof (cases "load_agent_identity L (rd_identity rd)")
    case (Inl e)
    then show ?thesis using assms tls backoff_ladder [where attempt = attempt and hash = hash and seed = seed] by (auto simp: run_once_def)
  next
    case (Inr ident)
    let ?cc = "conn_step C P ident backstop (heartbeat host_id) (for_host host_id) Disconnected
        (conn_run C P ident backstop (heartbeat host_id) (for_host host_id) (rd_events rd) cc)"
    have "cc' = ?cc" "rl_tls l = tls" "reconnect hash seed (rd_up_ms rd) attempt = (rl_wait_ms l, attempt')"
      using assms(1) tls Inr by (auto simp: run_once_def Let_def simp del: conn_step.simps split: prod.splits)
    moreover have "idle ?cc" by (rule idle_disconnected [OF conn_inv_run [OF inv]])
    ultimately show ?thesis using tls reconnect_ladder [of hash seed "rd_up_ms rd" attempt] by (simp add: stable_def)
  qed
qed

lemma run_rounds_Inr:
  assumes "run_rounds C P L hash seed backstop host_id rounds (attempt, cc) = Inr (log, attempt', cc')" "idle cc"
  shows "map (\<lambda>rd. load_identity (rd_tls rd)) rounds = map (\<lambda>l. Inr (rl_tls l)) log
    \<and> list_all (\<lambda>l. 250 \<le> rl_wait_ms l \<and> rl_wait_ms l < 30000) log \<and> idle cc'
    \<and> (list_all (\<lambda>rd. \<not> stable rd) rounds \<longrightarrow> (\<forall>i < length log. ladder (unat attempt + i) div 2 \<le> rl_wait_ms (log ! i)))"
  using assms
proof (induction rounds arbitrary: attempt cc log)
  case (Cons rd rds)
  obtain l a1 cc1 ls where r: "run_once C P L hash seed backstop host_id rd (attempt, cc) = Inr (l, a1, cc1)"
      "run_rounds C P L hash seed backstop host_id rds (a1, cc1) = Inr (ls, attempt', cc')" "log = l # ls"
    using Cons.prems(1) by (auto split: sum.splits)
  note once = run_once_Inr [OF r(1) Cons.prems(2)]
  have "idle cc1" using once by blast
  note rest = Cons.IH [OF r(2) this]
  have "ladder (unat attempt + i) div 2 \<le> rl_wait_ms (log ! i)" if "list_all (\<lambda>rd. \<not> stable rd) (rd # rds)" "i < length log" for i
  proof (cases i)
    case 0
    then show ?thesis using once that(1) r(3) by simp
  next
    case (Suc j)
    have "ladder (unat a1 + j) div 2 \<le> rl_wait_ms (ls ! j)" using rest that r(3) Suc by simp
    moreover have "a1 = saturating_inc attempt" using once that(1) by simp
    ultimately show ?thesis using r(3) Suc ladder_saturating [of attempt j] by simp
  qed
  then show ?case using once rest r(3) by simp
qed simp

lemma run_rounds_Inl:
  "run_rounds C P L hash seed backstop host_id rounds st = Inl e \<Longrightarrow> \<exists>rd \<in> set rounds. load_identity (rd_tls rd) = Inl e"
  by (induction rounds arbitrary: st) (auto simp: run_once_def Let_def split: sum.splits prod.splits)

text \<open>
  Whatever the connections meet, \<open>run\<close> returns only when the identity files cannot be read (or, at the
  start, the host id or the job directory).  It dials every round with the identity that is on disk at that
  moment, waits between a quarter of a second and thirty seconds, and begins each round with no session, no
  handshake, no shell and no used stream id; while no connection was stable, the delays are at least half of
  the exponential ladder.
\<close>

lemma agent_run_cases:
  "case agent_run C P L seed_of hash backstop dir jobs_dir rounds of
     Inl e \<Rightarrow> read_host_id dir = Inl e \<or> load_identity dir = Inl e \<or> e = OpeningJobStore \<and> jobs_dir = False
       \<or> (\<exists>rd. rd \<in> set rounds \<and> load_identity (rd_tls rd) = Inl e)
   | Inr (log, attempt, cc) \<Rightarrow>
       map (\<lambda>rd. load_identity (rd_tls rd)) rounds = map (\<lambda>l. Inr (rl_tls l)) log
       \<and> list_all (\<lambda>l. 250 \<le> rl_wait_ms l \<and> rl_wait_ms l < 30000) log \<and> idle cc
       \<and> (list_all (\<lambda>rd. \<not> stable rd) rounds \<longrightarrow> (\<forall>i < length log. ladder i div 2 \<le> rl_wait_ms (log ! i)))"
proof -
  have idle: "idle conn_init" by (simp add: idle_def conn_init_def conn_inv_def)
  show ?thesis
  proof (cases "agent_run C P L seed_of hash backstop dir jobs_dir rounds")
    case (Inl e)
    then show ?thesis
      using run_rounds_Inl [of C P L hash _ backstop _ rounds] by (fastforce simp: agent_run_def split: sum.splits if_splits)
  next
    case (Inr r)
    obtain log attempt cc where r: "r = (log, attempt, cc)" by (cases r)
    obtain host_id where "run_rounds C P L hash (seed_of host_id) backstop host_id rounds (0, conn_init) = Inr (log, attempt, cc)"
      using Inr r by (auto simp: agent_run_def split: sum.splits if_splits)
    from run_rounds_Inr [OF this idle] show ?thesis using Inr r by simp
  qed
qed

end
