(* ===== verification/Agent_Main.thy ===== *)
theory Agent_Main
  imports Agent_Run Sample_Codecs
begin

text \<open>
  \<^verbatim>\<open>osa-agent/src/main.rs\<close>: the subcommands of the agent, with the control channel running beside the
  renewal loop on one state directory.  The host is a record of what its files, its accounts, its process
  table and its peers answer.
\<close>

subsection \<open>The control channel beside the renewal loop\<close>

text \<open>One wake-up of the renewal loop: whether its reads succeed, the time, and what the renewal meets.\<close>

type_synonym renewal = "bool \<times> int \<times> renew_io"

definition renewals :: "pki \<Rightarrow> (string \<Rightarrow> bytes option) \<Rightarrow> (x509 \<Rightarrow> int) \<Rightarrow> renewal list \<Rightarrow> id_fs \<Rightarrow> id_fs" where
  "renewals K csr_for not_after rs fs =
     fold (\<lambda>(read_ok, now, io) fs. renewal_round K csr_for not_after read_ok now io fs) rs fs"

text \<open>A round of the control channel, with the wake-ups before it reads the TLS identity and between that
  and the session identity, and which reads succeed.  A renewal replaces only \<open>host.crt\<close>, by a rename,
  so each of the two sequences of reads sees the directory at one moment.\<close>

record serve_round =
  sv_before :: "renewal list"
  sv_tls_ok :: "string \<Rightarrow> bool"
  sv_between :: "renewal list"
  sv_id_ok :: "string \<Rightarrow> bool"
  sv_events :: "conn_event list"
  sv_up_ms :: "nat option"

definition dir_view :: "(string \<Rightarrow> bool) \<Rightarrow> id_fs \<Rightarrow> state_dir" where
  "dir_view ok fs = (\<lambda>name. read_file (ok name) name fs)"

fun rounds_of :: "pki \<Rightarrow> (string \<Rightarrow> bytes option) \<Rightarrow> (x509 \<Rightarrow> int) \<Rightarrow> serve_round list \<Rightarrow> id_fs \<Rightarrow> run_round list \<times> id_fs" where
  "rounds_of K csr_for not_after [] fs = ([], fs)"
| "rounds_of K csr_for not_after (sv # svs) fs =
     (let fs1 = renewals K csr_for not_after (sv_before sv) fs;
          fs2 = renewals K csr_for not_after (sv_between sv) fs1
      in case rounds_of K csr_for not_after svs fs2 of
        (rds, fs3) \<Rightarrow>
          (\<lparr>rd_tls = dir_view (sv_tls_ok sv) fs1, rd_identity = dir_view (sv_id_ok sv) fs2,
            rd_events = sv_events sv, rd_up_ms = sv_up_ms sv\<rparr> # rds, fs3))"

record serve_setup =
  ss_start_ok :: "string \<Rightarrow> bool"
  ss_jobs_dir :: bool
  ss_rounds :: "serve_round list"

record agent_crates =
  ac_crypto :: crypto
  ac_codecs :: codecs
  ac_pem :: pem_lib
  ac_pki :: pki
  ac_csr :: "string \<Rightarrow> bytes option"
  ac_not_after :: "x509 \<Rightarrow> int"
  ac_toml :: "string \<Rightarrow> allowlist_doc option"
  ac_display :: display
  ac_seed :: "string \<Rightarrow> u64"
  ac_hash :: "u64 \<times> u32 \<Rightarrow> u64"

definition agent_serve :: "agent_crates \<Rightarrow> local_allowlist \<Rightarrow> serve_setup \<Rightarrow> id_fs
    \<Rightarrow> (run_error + round_log list \<times> u32 \<times> agent_conn) \<times> id_fs" where
  "agent_serve A backstop S fs =
     (case rounds_of (ac_pki A) (ac_csr A) (ac_not_after A) (ss_rounds S) fs of
        (rds, fs') \<Rightarrow>
          (agent_run (ac_crypto A) (ac_codecs A) (ac_pem A) (ac_seed A) (ac_hash A) backstop
             (dir_view (ss_start_ok S) fs) (ss_jobs_dir S) rds, fs'))"

subsection \<open>Printing addresses\<close>

text \<open>\<open>Display\<close> of the standard library's addresses: dotted octets; hexadecimal groups with the first longest
  run of two or more zero groups as two colons; an IPv4-mapped address with its octets.\<close>

fun hex_string :: "nat \<Rightarrow> string" where
  "hex_string n = (if n < 16 then [''0123456789abcdef'' ! n] else hex_string (n div 16) @ [''0123456789abcdef'' ! (n mod 16)])"

declare hex_string.simps [simp del]

fun join :: "string \<Rightarrow> string list \<Rightarrow> string" where
  "join sep [] = []"
| "join sep [x] = x"
| "join sep (x # y # ys) = x @ sep @ join sep (y # ys)"

text \<open>The position and length of the run, from the longest one so far, the current one and the index.\<close>

fun zero_span :: "nat \<times> nat \<Rightarrow> nat \<times> nat \<Rightarrow> nat \<Rightarrow> int list \<Rightarrow> nat \<times> nat" where
  "zero_span longest current i [] = longest"
| "zero_span longest current i (g # gs) =
     (if g = 0 then
        let cur = (if snd current = 0 then (i, 1) else (fst current, snd current + 1))
        in zero_span (if snd cur > snd longest then cur else longest) cur (i + 1) gs
      else zero_span longest (0, 0) (i + 1) gs)"

definition show_v4 :: "int list \<Rightarrow> string" where
  "show_v4 os = join ''.'' (map (\<lambda>b. dec_string (nat b)) os)"

definition show_groups :: "int list \<Rightarrow> string" where
  "show_groups gs = join '':'' (map (\<lambda>g. hex_string (nat g)) gs)"

fun show_ip :: "ip_addr \<Rightarrow> string" where
  "show_ip (V4 os) = show_v4 os"
| "show_ip (V6 gs) =
     (if take 6 gs = [0, 0, 0, 0, 0, 0xFFFF] then
        ''::ffff:'' @ show_v4 [gs ! 6 div 256, gs ! 6 mod 256, gs ! 7 div 256, gs ! 7 mod 256]
      else case zero_span (0, 0) (0, 0) 0 gs of
        (start, len) \<Rightarrow>
          if len > 1 then show_groups (take start gs) @ ''::'' @ show_groups (drop (start + len) gs)
          else show_groups gs)"

subsection \<open>The subcommands\<close>

datatype agent_command =
  AgentEnroll (ae_coordinator: string) (ae_token: string) (ae_state_dir: string) (ae_force: bool)
| AgentRun (ar_state_dir: string) (ar_coordinator: string) (ar_broker_host: string) (ar_broker_port: u16) (ar_allowlist: "string option")
| AgentCheck (ak_allowlist: "string option") (ak_kind: string) (ak_run_as: string)
| AgentRenew (an_coordinator: string) (an_state_dir: string)
| AgentExec (ax_run_as: string) (ax_argv: "string list")
| AgentShell (as_run_as: string)
| AgentInventory

text \<open>What the declared defaults give a command with no option set.\<close>

definition run_defaults :: agent_command where
  "run_defaults = AgentRun ''/var/lib/osa'' ''http://localhost:8443'' ''localhost'' 8883 None"

definition renew_defaults :: agent_command where
  "renew_defaults = AgentRenew ''http://localhost:8443'' ''/var/lib/osa''"

definition check_defaults :: "string \<Rightarrow> agent_command" where
  "check_defaults verb = AgentCheck None verb ''''"

text \<open>How a local shell ends: the terminal hangs up, standard input closes, or the shell is waited for.\<close>

datatype shell_end = OutputEnds | InputEnds | ShellExits

record local_shell =
  ls_end :: shell_end
  ls_events :: "bytes pty_event list"
  ls_written :: nat
  ls_children :: "procs \<Rightarrow> procs"

text \<open>The host and its peers.\<close>

record agent_host =
  ah_files :: "string \<Rightarrow> string option"
  ah_enroll :: "string \<Rightarrow> enroll_io"
  ah_renew :: "string \<Rightarrow> renew_io"
  ah_serve :: "string \<Rightarrow> string \<Rightarrow> u16 \<Rightarrow> serve_setup"
  ah_os :: exec_os
  ah_pty :: pty_os
  ah_shell :: local_shell
  ah_dmi :: "string \<Rightarrow> file_read"
  ah_facts :: host_facts

text \<open>How the process ends: \<open>main\<close> returns (status 0), returns an error (status 1), exits with a code, or
  goes on beyond the events given.\<close>

datatype agent_exit = Returned | ReturnedErr | Exited i32 | Running

record agent_state =
  ag_dirs :: "string \<Rightarrow> id_fs"
  ag_procs :: procs
  ag_stdout :: bytes
  ag_stderr :: bytes

definition println :: "string \<Rightarrow> agent_state \<Rightarrow> agent_state" where
  "println s = ag_stdout_update (\<lambda>out. out @ as_bytes (s @ [CHR 0x0A]))"

definition eprintln :: "string \<Rightarrow> agent_state \<Rightarrow> agent_state" where
  "eprintln s = ag_stderr_update (\<lambda>out. out @ as_bytes (s @ [CHR 0x0A]))"

definition inventory_lines :: "host_inventory \<Rightarrow> string list" where
  "inventory_lines snapshot =
     [''dmi_serial: '' @ (case hi_dmi_serial snapshot of None \<Rightarrow> ''<none>'' | Some s \<Rightarrow> s),
      ''hostname:   '' @ si_hostname (hi_system snapshot),
      ''os:         '' @ si_os (hi_system snapshot),
      ''kernel:     '' @ si_kernel (hi_system snapshot),
      ''cpus:       '' @ dec_string (si_cpu_count (hi_system snapshot)),
      ''memory:     '' @ u64_to_string (si_memory_bytes (hi_system snapshot)) @ '' bytes'',
      ''interfaces:'']
     @ map (\<lambda>i. ''  '' @ ni_name i @ '' ['' @ ni_mac i @ ''] '' @ join '', '' (map show_ip (ni_ips i))) (hi_interfaces snapshot)
     @ (if hi_gaps snapshot = [] then []
        else ''gaps:'' # map (\<lambda>g. ''  '' @ gap_field_as_str (gap_field g) @ '': '' @ gap_reason g) (hi_gaps snapshot))"

definition show_i32 :: "i32 \<Rightarrow> string" where
  "show_i32 w = (if sint w < 0 then CHR ''-'' # dec_string (nat (- sint w)) else dec_string (nat (sint w)))"

text \<open>The status a finished command gives the process.\<close>

definition exec_exit :: "i32 option \<Rightarrow> i32 option \<Rightarrow> agent_state \<Rightarrow> agent_exit \<times> agent_state" where
  "exec_exit code sig st =
     (case (code, sig) of
        (Some c, _) \<Rightarrow> (Exited c, st)
      | (None, Some s) \<Rightarrow> (Exited (128 + s), eprintln (''terminated by signal '' @ show_i32 s) st)
      | (None, None) \<Rightarrow> (Exited 1, st))"

text \<open>After the shell was started: the other processes do what they do, the output read so far is copied, and
  then the session is shut down.\<close>

definition run_local_shell :: "local_shell \<Rightarrow> nat option \<Rightarrow> agent_state \<Rightarrow> agent_exit \<times> agent_state" where
  "run_local_shell ls pid st =
     (let ps0 = (case pid of None \<Rightarrow> ag_procs st | Some p \<Rightarrow> (ag_procs st)(p \<mapsto> \<lparr>pr_group = p, pr_running = True\<rparr>));
          ps1 = ls_children ls ps0;
          st1 = st\<lparr>ag_procs := ps1,
                   ag_stdout := ag_stdout st @ take (ls_written ls) (concat (pty_reads 8192 (ls_events ls)))\<rparr>
      in case (if ls_end ls = ShellExits then map_option (Pair None) (pty_wait pid ps1) else Some (pid, ps1)) of
        None \<Rightarrow> (Running, st1)
      | Some (pid', ps2) \<Rightarrow>
          (case pty_shutdown pid' ps2 of
             None \<Rightarrow> (Running, st1\<lparr>ag_procs := ps2\<rparr>)
           | Some ps3 \<Rightarrow> (Returned, st1\<lparr>ag_procs := ps3\<rparr>)))"

fun agent_main :: "agent_crates \<Rightarrow> agent_host \<Rightarrow> agent_command \<Rightarrow> agent_state \<Rightarrow> agent_exit \<times> agent_state" where
  "agent_main A H (AgentEnroll coordinator token state_dir force) st =
     (case enroll_run (ac_pki A) (ac_csr A) (ah_enroll H coordinator) token force (ag_dirs st state_dir) of
        (Inl _, _, fs) \<Rightarrow> (ReturnedErr, st\<lparr>ag_dirs := (ag_dirs st)(state_dir := fs)\<rparr>)
      | (Inr _, _, fs) \<Rightarrow> (Returned, st\<lparr>ag_dirs := (ag_dirs st)(state_dir := fs)\<rparr>))"
| "agent_main A H (AgentRenew coordinator state_dir) st =
     (case renew_run (ac_pki A) (ac_csr A) (ah_renew H coordinator) (ag_dirs st state_dir) of
        (Inl _, _, fs) \<Rightarrow> (ReturnedErr, st\<lparr>ag_dirs := (ag_dirs st)(state_dir := fs)\<rparr>)
      | (Inr _, _, fs) \<Rightarrow> (Returned, st\<lparr>ag_dirs := (ag_dirs st)(state_dir := fs)\<rparr>))"
| "agent_main A H (AgentRun state_dir coordinator broker_host broker_port allowlist) st =
     (case backstop_load (ah_files H) (ac_toml A) allowlist of
        Inl _ \<Rightarrow> (ReturnedErr, st)
      | Inr backstop \<Rightarrow>
          (case agent_serve A backstop (ah_serve H coordinator broker_host broker_port) (ag_dirs st state_dir) of
             (r, fs) \<Rightarrow>
               (case r of Inl _ \<Rightarrow> ReturnedErr | Inr _ \<Rightarrow> Running, st\<lparr>ag_dirs := (ag_dirs st)(state_dir := fs)\<rparr>)))"
| "agent_main A H (AgentExec as_user argv) st =
     (case exec_run_buffered (ah_os H) argv as_user of
        Inl _ \<Rightarrow> (ReturnedErr, st)
      | Inr out \<Rightarrow>
          exec_exit (eo_exit_code out) (eo_signal out)
            (st\<lparr>ag_stdout := ag_stdout st @ eo_stdout out, ag_stderr := ag_stderr st @ eo_stderr out\<rparr>))"
| "agent_main A H (AgentShell as_user) st =
     (case pty_session (ah_pty H) as_user 24 80 of
        Inl _ \<Rightarrow> (ReturnedErr, st)
      | Inr pid \<Rightarrow> run_local_shell (ah_shell H) pid st)"
| "agent_main A H AgentInventory st =
     (Returned, fold println (inventory_lines (collect_inventory (ah_dmi H) (ah_facts H))) st)"
| "agent_main A H (AgentCheck allowlist verb as_user) st =
     (case backstop_load (ah_files H) (ac_toml A) allowlist of
        Inl _ \<Rightarrow> (ReturnedErr, st)
      | Inr backstop \<Rightarrow>
          (case la_permits backstop \<lparr>ad_kind = verb, ad_target = [], ad_run_as = as_user, ad_params_hash = []\<rparr> of
             Inr _ \<Rightarrow> (Returned, println (''PERMITTED: kind='' @ verb @ '' run_as='' @ show_debug (ac_display A) as_user) st)
           | Inl denial \<Rightarrow> (Exited 1, eprintln (''REFUSED: '' @ show_denial (ac_display A) denial) st)))"

subsection \<open>An enrolled agent goes on\<close>

text \<open>The TLS identity is the enrolled one, with its certificate or one that the pinned CA signed.\<close>

definition enrolled_tls :: "pki \<Rightarrow> identity \<Rightarrow> tls_identity \<Rightarrow> bool" where
  "enrolled_tls K idn tls \<longleftrightarrow>
     tls_key_pem tls = idn_key_pem idn \<and> tls_ca_pem tls = idn_ca_root_pem idn
     \<and> (\<exists>der. tls_cert_pem tls = pem_of K der \<and> (pem_of K der = idn_cert_pem idn \<or> chains K (idn_ca_root_pem idn) der))"

lemma renewals_whole: "whole K idn fs \<Longrightarrow> whole K idn (renewals K csr_for not_after rs fs)"
  unfolding renewals_def by (induction rs arbitrary: fs) (auto simp: renewal_round_whole)

lemma load_identity_view:
  assumes "whole K idn fs"
  shows "case load_identity (dir_view ok fs) of Inl _ \<Rightarrow> \<exists>name. \<not> ok name | Inr tls \<Rightarrow> enrolled_tls K idn tls"
proof -
  obtain der where "map_option idf_content (id_visible fs CERT_FILE) = Some (pem_of K der)"
      and der: "pem_of K der = idn_cert_pem idn \<or> chains K (idn_ca_root_pem idn) der"
    using assms by (auto simp: whole_def)
  then have files: "read_file True ''host.crt'' fs = Some (pem_of K der)" "read_file True ''ca.crt'' fs = Some (idn_ca_root_pem idn)"
      "read_file True ''host.key'' fs = Some (idn_key_pem idn)"
    using assms unfolding whole_def CA_FILE_def CERT_FILE_def KEY_FILE_def read_file_def by simp_all
  have "enrolled_tls K idn \<lparr>tls_ca_pem = idn_ca_root_pem idn, tls_cert_pem = pem_of K der, tls_key_pem = idn_key_pem idn\<rparr>"
    using der by (auto simp: enrolled_tls_def)
  moreover have "read_file False name fs = None" for name by (simp add: read_file_def)
  ultimately show ?thesis
    using files by (cases "ok ''ca.crt''"; cases "ok ''host.crt''"; cases "ok ''host.key''") (auto simp: load_identity_def dir_view_def)
qed

lemma rounds_of_whole:
  assumes "whole K idn fs" "rounds_of K csr_for not_after svs fs = (rds, fs')"
  shows "whole K idn fs' \<and> map rd_up_ms rds = map sv_up_ms svs
    \<and> (\<forall>rd \<in> set rds. case load_identity (rd_tls rd) of
         Inl _ \<Rightarrow> \<exists>sv \<in> set svs. \<exists>name. \<not> sv_tls_ok sv name
       | Inr tls \<Rightarrow> enrolled_tls K idn tls)"
  using assms
proof (induction svs arbitrary: fs rds)
  case (Cons sv svs)
  define fs1 where "fs1 = renewals K csr_for not_after (sv_before sv) fs"
  define fs2 where "fs2 = renewals K csr_for not_after (sv_between sv) fs1"
  have w: "whole K idn fs1" "whole K idn fs2" using Cons.prems(1) by (simp_all add: fs1_def fs2_def renewals_whole)
  obtain rds' where r: "rounds_of K csr_for not_after svs fs2 = (rds', fs')"
      "rds = \<lparr>rd_tls = dir_view (sv_tls_ok sv) fs1, rd_identity = dir_view (sv_id_ok sv) fs2,
              rd_events = sv_events sv, rd_up_ms = sv_up_ms sv\<rparr> # rds'"
    using Cons.prems(2) by (auto simp: Let_def fs1_def fs2_def split: prod.splits)
  show ?case using Cons.IH [OF w(2) r(1)] load_identity_view [OF w(1), of "sv_tls_ok sv"] r(2)
    by (auto split: sum.splits)
qed simp

lemma unstable_rounds:
  assumes "map rd_up_ms rds = map sv_up_ms svs"
    and up: "\<forall>t \<in> set (map sv_up_ms svs). case t of None \<Rightarrow> True | Some ms \<Rightarrow> ms < STABLE_RESET_MS"
  shows "list_all (\<lambda>rd. \<not> stable rd) rds"
  unfolding list_all_iff
proof
  fix rd
  assume "rd \<in> set rds"
  then have "rd_up_ms rd \<in> set (map rd_up_ms rds)" by simp
  then have "case rd_up_ms rd of None \<Rightarrow> True | Some ms \<Rightarrow> ms < STABLE_RESET_MS" using up unfolding assms(1) by blast
  then show "\<not> stable rd" by (simp add: stable_def split: option.splits)
qed


definition sample_agent_crates :: agent_crates where
  "sample_agent_crates =
     \<lparr>ac_crypto = toy_crypto, ac_codecs = lossless_codecs, ac_pem = \<lparr>pl_pem = Some, pl_pubkey = Some\<rparr>, ac_pki = sample_pki,
      ac_csr = (\<lambda>_. Some [3]), ac_not_after = (\<lambda>_. 100),
      ac_toml = (\<lambda>doc. Some \<lparr>doc_verbs = [''exec'', ''shell''], doc_run_as = [doc]\<rparr>), ac_display = sample_display,
      ac_seed = (\<lambda>_. 0), ac_hash = (\<lambda>_. 0)\<rparr>"

definition sample_idn :: identity where
  "sample_idn = identity_for sample_pki ''k'' \<lparr>er_host_id = ''h'', er_cert = [1], er_ca_root = [2]\<rparr>"

definition sample_enrolled_fs :: id_fs where
  "sample_enrolled_fs = snd (persist sample_persist_io sample_idn False \<lparr>id_visible = Map.empty, id_durable = Map.empty\<rparr>)"

definition sample_renewal :: renewal where
  "sample_renewal =
     (True, 99, \<lparr>rn_read_key = True, rn_read_cert = True, rn_read_ca = True, rn_connect = True, rn_reply = (\<lambda>_ _. Some [1]), rn_write = all_ok\<rparr>)"

definition sample_round :: serve_round where
  "sample_round =
     \<lparr>sv_before = [sample_renewal], sv_tls_ok = (\<lambda>_. True), sv_between = [sample_renewal], sv_id_ok = (\<lambda>_. True), sv_events = [],
      sv_up_ms = None\<rparr>"


subsection \<open>The local commands predict the dispatched ones\<close>

lemma pty_pre_exec_size:
  "pty_pre_exec os drop_to (ch\<lparr>sc_size := x\<rparr>) = map_option (sc_size_update (\<lambda>_. x)) (pty_pre_exec os drop_to ch)"
  by (cases ch) (auto simp: pty_pre_exec_def Let_def option.map_comp comp_def split: option.split)

lemma pty_session_size: "pty_session os user rows cols = pty_session os user 24 80"
proof -
  have "pty_pre_exec os drop_to \<lparr>sc_program = p, sc_size = (rows, cols), sc_stdio = i, sc_inherited = f, sc_env = e, sc_creds = c,
      sc_leader = l, sc_ctty = t\<rparr>
    = map_option (sc_size_update (\<lambda>_. (rows, cols)))
       (pty_pre_exec os drop_to \<lparr>sc_program = p, sc_size = (24, 80), sc_stdio = i, sc_inherited = f, sc_env = e, sc_creds = c,
          sc_leader = l, sc_ctty = t\<rparr>)" for drop_to p i f e c l t
    using pty_pre_exec_size [of os drop_to "(rows, cols)" "\<lparr>sc_program = p, sc_size = (24, 80), sc_stdio = i, sc_inherited = f, sc_env = e, sc_creds = c,
      sc_leader = l, sc_ctty = t\<rparr>"] by simp
  then show ?thesis
    unfolding pty_session_def pty_spawn_def Let_def by (auto split: sum.split option.split)
qed

lemma run_local_shell_no_error: "fst (run_local_shell ls pid st) \<noteq> ReturnedErr"
  by (auto simp: run_local_shell_def Let_def split: option.splits)

lemma check_exit:
  assumes "backstop_load (ah_files H) (ac_toml A) allowlist = Inr backstop"
  shows "fst (agent_main A H (AgentCheck allowlist k u) st)
    = (if la_permits backstop \<lparr>ad_kind = k, ad_target = at_host, ad_run_as = u, ad_params_hash = h\<rparr> = Inr () then Returned else Exited 1)"
  using assms by (auto simp: la_permits_def split: sum.splits)

lemma exec_stream_limits:
  "map_option (p_killed_update (\<lambda>_. False)) (er_process (exec_stream os argv u l)) = map_option (p_killed_update (\<lambda>_. False)) (er_process (exec_stream os argv u l'))"
  by (simp add: exec_stream_def Let_def case_prod_unfold split: sum.split option.split)


definition sample_agent_host :: agent_host where
  "sample_agent_host =
     \<lparr>ah_files = (\<lambda>path. if path = ''allow.toml'' then Some ''deploy'' else None), ah_enroll = (\<lambda>_. sample_enroll_io),
      ah_renew = (\<lambda>_. snd (snd sample_renewal)),
      ah_serve = (\<lambda>_ _ _. \<lparr>ss_start_ok = (\<lambda>_. True), ss_jobs_dir = True, ss_rounds = [sample_round]\<rparr>), ah_os = sample_os,
      ah_pty = sample_pty, ah_shell = \<lparr>ls_end = OutputEnds, ls_events = [], ls_written = 0, ls_children = id\<rparr>,
      ah_dmi = (\<lambda>_. ReadNotFound), ah_facts = sample_facts []\<rparr>"

definition sample_agent_state :: agent_state where
  "sample_agent_state = \<lparr>ag_dirs = (\<lambda>_. sample_enrolled_fs), ag_procs = Map.empty, ag_stdout = [], ag_stderr = []\<rparr>"


end
