(* ===== verification/Osa_Main.thy ===== *)
theory Osa_Main
  imports Cli
begin

text \<open>
  The \<open>main\<close> of \<^verbatim>\<open>osa-cli/src/main.rs\<close>: the options, the subcommands and the status each exits with.  The
  coordinator is a record of calls on its state, so that its service can be put behind them; a
  call gets the \<open>authorization\<close> metadata the client sends.
\<close>

datatype osa_command =
  OsaToken
| OsaExec (ox_host: string) (ox_run_as: string) (ox_argv: "string list")
| OsaShell (oh_host: string) (oh_run_as: string)
| OsaRevoke (or_host: string)
| OsaAuditVerify (oa_expect_head: "string option")

record operator_cli =
  oc_coordinator :: string
  oc_operator_token :: "string option"
  oc_command :: osa_command

definition osa_defaults :: "osa_command \<Rightarrow> operator_cli" where
  "osa_defaults cmd = \<lparr>oc_coordinator = ''http://localhost:8443'', oc_operator_token = None, oc_command = cmd\<rparr>"

type_synonym metadata = "string option option"

text \<open>The answers to \<open>exec\<close> and \<open>shell\<close> are the messages that arrive, with whether each could be written, and whether
  the stream ended cleanly.\<close>

record 'c osa_api =
  api_connect :: "string \<Rightarrow> bool"
  api_mint :: "metadata \<Rightarrow> u64 \<Rightarrow> 'c \<Rightarrow> (status + string \<times> int) \<times> 'c"
  api_revoke :: "metadata \<Rightarrow> string \<Rightarrow> 'c \<Rightarrow> (status + unit) \<times> 'c"
  api_exec :: "metadata \<Rightarrow> dispatch_request \<Rightarrow> 'c \<Rightarrow> (status + (exec_event \<times> bool) list \<times> bool) \<times> 'c"
  api_shell :: "metadata \<Rightarrow> shell_client_msg list \<Rightarrow> 'c \<Rightarrow> (status + (shell_server_msg option \<times> bool) list \<times> bool) \<times> 'c"
  api_export :: "metadata \<Rightarrow> 'c \<Rightarrow> (status + audit_entry_msg list) \<times> 'c"

text \<open>The operator's machine: the libraries, the terminal, and what is typed.\<close>

record 's osa_local =
  ol_crypto :: crypto
  ol_codecs :: codecs
  ol_header_ok :: "string \<Rightarrow> bool"
  ol_cfmakeraw :: "'s \<Rightarrow> 's"
  ol_set_ok :: bool
  ol_restore_ok :: bool
  ol_winsize :: "bool \<times> u16 \<times> u16"
  ol_reads :: "(bytes option \<times> bool) list"

text \<open>Connecting and adding the credentials come before every call.\<close>

definition call_coordinator ::
  "(string \<Rightarrow> bool) \<Rightarrow> bool \<Rightarrow> string option \<Rightarrow> (metadata \<Rightarrow> 'c \<Rightarrow> (status + 'r) \<times> 'c) \<Rightarrow> 'c \<Rightarrow> (cli_error + 'r) \<times> 'c" where
  "call_coordinator header_ok connected token call c =
     (if \<not> connected then (Inl ConnectFailed, c)
      else case authed header_ok token of
        Inl e \<Rightarrow> (Inl e, c)
      | Inr md \<Rightarrow> (case call md c of (Inl st, c') \<Rightarrow> (Inl (CallFailed st), c') | (Inr r, c') \<Rightarrow> (Inr r, c')))"

definition show_int :: "int \<Rightarrow> string" where
  "show_int i = (if i < 0 then CHR ''-'' # dec_string (nat (- i)) else dec_string (nat i))"

definition cli_token ::
  "(string \<Rightarrow> bool) \<Rightarrow> bool \<Rightarrow> string option \<Rightarrow> (metadata \<Rightarrow> u64 \<Rightarrow> 'c \<Rightarrow> (status + string \<times> int) \<times> 'c) \<Rightarrow> 'c
   \<Rightarrow> (cli_error + string list) \<times> 'c" where
  "cli_token header_ok connected token mint c =
     (case call_coordinator header_ok connected token (\<lambda>md. mint md 0) c of
        (Inl e, c') \<Rightarrow> (Inl e, c')
      | (Inr (join_token, expires_at_unix), c') \<Rightarrow>
          (Inr [''join token:     '' @ join_token, ''expires (unix): '' @ show_int expires_at_unix], c'))"

definition cli_revoke ::
  "(string \<Rightarrow> bool) \<Rightarrow> bool \<Rightarrow> string option \<Rightarrow> (metadata \<Rightarrow> string \<Rightarrow> 'c \<Rightarrow> (status + unit) \<times> 'c) \<Rightarrow> string \<Rightarrow> 'c
   \<Rightarrow> (cli_error + string list) \<times> 'c" where
  "cli_revoke header_ok connected token revoke host c =
     (case call_coordinator header_ok connected token (\<lambda>md. revoke md host) c of
        (Inl e, c') \<Rightarrow> (Inl e, c')
      | (Inr _, c') \<Rightarrow> (Inr [''revoked '' @ host], c'))"

definition cli_audit_verify ::
  "crypto \<Rightarrow> (string \<Rightarrow> bool) \<Rightarrow> bool \<Rightarrow> string option \<Rightarrow> (metadata \<Rightarrow> 'c \<Rightarrow> (status + audit_entry_msg list) \<times> 'c) \<Rightarrow> string option \<Rightarrow> 'c
   \<Rightarrow> (cli_error + audit_report) \<times> 'c" where
  "cli_audit_verify C header_ok connected token export expect_head c =
     (case (case expect_head of None \<Rightarrow> Inr () | Some s \<Rightarrow> map_sum id (\<lambda>_. ()) (parse_head s)) of
        Inl e \<Rightarrow> (Inl e, c)
      | Inr _ \<Rightarrow>
          (case call_coordinator header_ok connected token export c of
             (Inl e, c') \<Rightarrow> (Inl e, c')
           | (Inr msgs, c') \<Rightarrow> (audit_verify (sha256 C) expect_head msgs, c')))"

text \<open>What \<open>osa audit verify\<close> prints; the dash after \<open>OK\<close> is \<open>U+2014\<close>.\<close>

definition report_lines :: "audit_report \<Rightarrow> string list" where
  "report_lines rep =
     (case rep of
        ChainEmpty \<Rightarrow> [''audit chain is EMPTY (0 entries)'']
      | ChainOk n head anchored \<Rightarrow>
          [''audit chain OK '' @ [CHR 0xE2, CHR 0x80, CHR 0x94] @ '' '' @ dec_string n @ '' entries verified''
             @ (if anchored then '', anchored'' else []), ''head: '' @ head])"

text \<open>The status of the process, the lines printed, and the settings of the terminal.\<close>

record 's osa_run =
  or_status :: nat
  or_lines :: "string list"
  or_shown :: bytes
  or_terminal :: "'s option"

definition osa_result :: "'s option \<Rightarrow> cli_error + string list \<Rightarrow> 's osa_run" where
  "osa_result stdin r =
     (case r of
        Inl _ \<Rightarrow> \<lparr>or_status = 1, or_lines = [], or_shown = [], or_terminal = stdin\<rparr>
      | Inr ls \<Rightarrow> \<lparr>or_status = 0, or_lines = ls, or_shown = [], or_terminal = stdin\<rparr>)"

definition osa_main :: "'s osa_local \<Rightarrow> 'c osa_api \<Rightarrow> operator_cli \<Rightarrow> 's option \<Rightarrow> 'c \<Rightarrow> 's osa_run \<times> 'c" where
  "osa_main L api cli stdin c =
     (let hdr = ol_header_ok L; conn = api_connect api (oc_coordinator cli); tok = oc_operator_token cli in
      case oc_command cli of
        OsaToken \<Rightarrow> apfst (osa_result stdin) (cli_token hdr conn tok (api_mint api) c)
      | OsaRevoke host \<Rightarrow> apfst (osa_result stdin) (cli_revoke hdr conn tok (api_revoke api) host c)
      | OsaExec host user argv \<Rightarrow>
          (case cli_exec_request (ol_crypto L) (ol_codecs L) host user argv of
             Inl e \<Rightarrow> (osa_result stdin (Inl e), c)
           | Inr req \<Rightarrow>
               (case call_coordinator hdr conn tok (\<lambda>md. api_exec api md req) c of
                  (Inl e, c') \<Rightarrow> (osa_result stdin (Inl e), c')
                | (Inr (evs, clean), c') \<Rightarrow>
                    (\<lparr>or_status = cli_exec evs clean, or_lines = [], or_shown = [], or_terminal = stdin\<rparr>, c')))
      | OsaShell host user \<Rightarrow>
          (case call_coordinator hdr conn tok (\<lambda>md. api_shell api md (shell_requests host user (ol_winsize L) (ol_reads L))) c of
             (answer, c') \<Rightarrow>
               (case cli_shell (ol_cfmakeraw L) (ol_set_ok L) (ol_restore_ok L) answer stdin of
                  (status, shown, term) \<Rightarrow> (\<lparr>or_status = status, or_lines = [], or_shown = shown, or_terminal = term\<rparr>, c')))
      | OsaAuditVerify expect_head \<Rightarrow>
          apfst (\<lambda>r. osa_result stdin (map_sum id report_lines r))
            (cli_audit_verify (ol_crypto L) hdr conn tok (api_export api) expect_head c))"

subsection \<open>Every command leaves the terminal as it was\<close>

lemma osa_main_terminal:
  assumes "ol_restore_ok L"
  shows "or_terminal (fst (osa_main L api cli stdin c)) = stdin"
proof -
  have "osa_result stdin r = osa_result stdin r\<lparr>or_terminal := stdin\<rparr>" for r by (simp add: osa_result_def split: sum.split)
  then have "or_terminal (osa_result stdin r) = stdin" for r by (metis osa_run.select_convs(4) osa_run.surjective osa_run.update_convs(4))
  moreover have "snd (snd (cli_shell cfmakeraw set_ok (ol_restore_ok L) answer stdin)) = stdin" for cfmakeraw set_ok answer
    using assms cli_shell_restores by simp
  ultimately show ?thesis
    by (cases "oc_command cli") (simp_all add: osa_main_def Let_def case_prod_unfold split: sum.split)
qed

end
