(* ===== verification/Fleet.thy ===== *)
theory Fleet
  imports Osa_Main Startup Agent_Main
begin

text \<open>
  The life of host identities across the parts: operators run \<open>osa token\<close> and \<open>osa revoke\<close> against a
  coordinator behind its interceptor, hosts run the agent's enrollment and renewal against the same
  coordinator, and the stores are those of the memory or of the Postgres adapters.  Any connection, system call
  or statement may fail and any answer be lost; the log records what the coordinator did.
\<close>

subsection \<open>The fleet\<close>

record ('g, 'f, 't, 'r) fleet_ports =
  fp_mint :: "'g \<Rightarrow> 't \<Rightarrow> (mint_error + string \<times> int) \<times> 't"
  fp_redeem :: "'f \<Rightarrow> string \<Rightarrow> 't \<Rightarrow> (redeem_error + unit) \<times> 't"
  fp_revoke :: "db_call \<Rightarrow> i64 \<Rightarrow> uuid \<Rightarrow> 'r \<Rightarrow> (port_error + unit) \<times> 'r"
  fp_is_revoked :: "db_call \<Rightarrow> uuid \<Rightarrow> 'r \<Rightarrow> port_error + bool"

text \<open>An entry for a mint that reached the store, an acknowledged revocation, and an issued certificate: the
  directory and the token, the host, the request, the time and the certificate.\<close>

datatype 'g fleet_log =
  MintCall metadata 'g
| RevokeOk metadata uuid
| Enrolled string string uuid bytes int bytes
| Renewed uuid bytes int bytes

record ('g, 't, 'r, 'a) fleet =
  fl_service :: "('t, 'r, 'a) service"
  fl_dirs :: "string \<Rightarrow> id_fs"
  fl_log :: "'g fleet_log list"

text \<open>The operator service behind the interceptor.\<close>

definition serve_mint ::
  "('g, 'f, 't, 'r) fleet_ports \<Rightarrow> crates \<Rightarrow> coordinator \<Rightarrow> fetch_io list \<Rightarrow> (nat \<Rightarrow> 'g) \<Rightarrow> metadata \<Rightarrow> u64 \<Rightarrow> ('g, 't, 'r, 'a) fleet
   \<Rightarrow> (status + string \<times> int) \<times> ('g, 't, 'r, 'a) fleet" where
  "serve_mint Q G co rounds env md ttl_seconds fl =
     (case intercept (cr_jwt G) (co_auth co) rounds md of
        Inl st \<Rightarrow> (Inl st, fl)
      | Inr _ \<Rightarrow>
          (case mint_token_call (\<lambda>ttl. fp_mint Q (env ttl)) (co_default_ttl co) ttl_seconds (fl_service fl) of
             (r, sv) \<Rightarrow>
               (r, fl\<lparr>fl_service := sv,
                      fl_log := fl_log fl @ [MintCall md (env (if ttl_seconds = 0 then co_default_ttl co else unat ttl_seconds * 1000000000))]\<rparr>)))"

definition serve_revoke ::
  "('g, 'f, 't, 'r) fleet_ports \<Rightarrow> crates \<Rightarrow> coordinator \<Rightarrow> fetch_io list \<Rightarrow> db_call \<Rightarrow> i64 \<Rightarrow> metadata \<Rightarrow> string \<Rightarrow> ('g, 't, 'r, 'a) fleet
   \<Rightarrow> (status + unit) \<times> ('g, 't, 'r, 'a) fleet" where
  "serve_revoke Q G co rounds db now md host_id fl =
     (case intercept (cr_jwt G) (co_auth co) rounds md of
        Inl st \<Rightarrow> (Inl st, fl)
      | Inr _ \<Rightarrow>
          (case revoke_call (cr_uuid G) (fp_revoke Q db now) host_id (fl_service fl) of
             (r, sv) \<Rightarrow>
               (r, fl\<lparr>fl_service := sv,
                      fl_log := fl_log fl @ (case r of Inl _ \<Rightarrow> [] | Inr _ \<Rightarrow> [RevokeOk md (the (parse_uuid (cr_uuid G) host_id))])\<rparr>)))"

text \<open>What happens: an operator runs a command, with the options given; a host enrolls, or its renewal runs.
  For a request, whether it reaches the coordinator and whether the answer comes back.\<close>

datatype ('g, 'f) fleet_event =
  RunToken "string option" bool "fetch_io list" "nat \<Rightarrow> 'g"
| RunRevoke "string option" bool "fetch_io list" db_call i64 string
| EnrollHost string enroll_io string 'f uuid int bool bool
| RenewHost string renew_io db_call int int bool bool

definition enroll_host ::
  "('g, 'f, 't, 'r) fleet_ports \<Rightarrow> crates \<Rightarrow> coordinator \<Rightarrow> (string \<Rightarrow> bytes option) \<Rightarrow> string \<Rightarrow> enroll_io \<Rightarrow> string \<Rightarrow> 'f \<Rightarrow> uuid \<Rightarrow> int
   \<Rightarrow> bool \<Rightarrow> bool \<Rightarrow> ('g, 't, 'r, 'a) fleet \<Rightarrow> ('g, 't, 'r, 'a) fleet" where
  "enroll_host Q G co csr_for dir io token f fresh t reached answered fl =
     (let call = (\<lambda>csr. enroll_call (cr_pki G) (cr_uuid G) (co_ca co) (fp_redeem Q f) fresh t token csr (fl_service fl));
          reply = (\<lambda>_ csr. if reached \<and> answered then (case fst (call csr) of Inl _ \<Rightarrow> None | Inr resp \<Rightarrow> Some resp) else None)
      in case enroll_run (cr_pki G) csr_for (io\<lparr>en_reply := reply\<rparr>) token False (fl_dirs fl dir) of
        (_, sent, fs) \<Rightarrow>
          let fl' = fl\<lparr>fl_dirs := (fl_dirs fl)(dir := fs)\<rparr> in
          (case sent of
             None \<Rightarrow> fl'
           | Some (_, csr) \<Rightarrow>
               if \<not> reached then fl'
               else fl'\<lparr>fl_service := snd (call csr),
                        fl_log := fl_log fl @ (case fst (call csr) of Inl _ \<Rightarrow> [] | Inr resp \<Rightarrow> [Enrolled dir token fresh csr t (er_cert resp)])\<rparr>))"

definition renew_host ::
  "('g, 'f, 't, 'r) fleet_ports \<Rightarrow> crates \<Rightarrow> coordinator \<Rightarrow> (string \<Rightarrow> bytes option) \<Rightarrow> string \<Rightarrow> renew_io \<Rightarrow> db_call \<Rightarrow> int \<Rightarrow> int
   \<Rightarrow> bool \<Rightarrow> bool \<Rightarrow> ('g, 't, 'r, 'a) fleet \<Rightarrow> ('g, 't, 'r, 'a) fleet" where
  "renew_host Q G co csr_for dir io db t1 t2 reached answered fl =
     (let call = (\<lambda>cert csr. renew_call (cr_pki G) (cr_uuid G) (co_ca co) (fp_is_revoked Q db) t1 t2 cert csr (fl_service fl));
          reply = (\<lambda>cert csr. if reached \<and> answered then (case call cert csr of Inl _ \<Rightarrow> None | Inr der \<Rightarrow> Some der) else None)
      in case renew_run (cr_pki G) csr_for (io\<lparr>rn_reply := reply\<rparr>) (fl_dirs fl dir) of
        (_, sent, fs) \<Rightarrow>
          let fl' = fl\<lparr>fl_dirs := (fl_dirs fl)(dir := fs)\<rparr> in
          (case sent of
             None \<Rightarrow> fl'
           | Some (cert, csr) \<Rightarrow>
               (case (if reached then call cert csr else Inl Unavailable, validate_renewal (cr_pki G) (cr_uuid G) t1 (co_ca co) cert csr) of
                  (Inr der, Inr host) \<Rightarrow> fl'\<lparr>fl_log := fl_log fl @ [Renewed host csr t2 der]\<rparr>
                | _ \<Rightarrow> fl')))"

fun fleet_step ::
  "('g, 'f, 't, 'r) fleet_ports \<Rightarrow> crates \<Rightarrow> coordinator \<Rightarrow> (string \<Rightarrow> bytes option) \<Rightarrow> (string \<Rightarrow> bool) \<Rightarrow> ('g, 'f) fleet_event
   \<Rightarrow> ('g, 't, 'r, 'a) fleet \<Rightarrow> ('g, 't, 'r, 'a) fleet" where
  "fleet_step Q G co csr_for header_ok (RunToken token connected rounds env) fl =
     snd (cli_token header_ok connected token (serve_mint Q G co rounds env) fl)"
| "fleet_step Q G co csr_for header_ok (RunRevoke token connected rounds db now host) fl =
     snd (cli_revoke header_ok connected token (serve_revoke Q G co rounds db now) host fl)"
| "fleet_step Q G co csr_for header_ok (EnrollHost dir io token f fresh t reached answered) fl =
     enroll_host Q G co csr_for dir io token f fresh t reached answered fl"
| "fleet_step Q G co csr_for header_ok (RenewHost dir io db t1 t2 reached answered) fl =
     renew_host Q G co csr_for dir io db t1 t2 reached answered fl"

definition fleet_run ::
  "('g, 'f, 't, 'r) fleet_ports \<Rightarrow> crates \<Rightarrow> coordinator \<Rightarrow> (string \<Rightarrow> bytes option) \<Rightarrow> (string \<Rightarrow> bool) \<Rightarrow> ('g, 'f) fleet_event list
   \<Rightarrow> ('g, 't, 'r, 'a) fleet \<Rightarrow> ('g, 't, 'r, 'a) fleet" where
  "fleet_run Q G co csr_for header_ok evs = fold (fleet_step Q G co csr_for header_ok) evs"

text \<open>A new fleet: nothing was minted, revoked or enrolled.\<close>

definition fleet_start :: "'t \<Rightarrow> 'r \<Rightarrow> 'a \<Rightarrow> ('g, 't, 'r, 'a) fleet" where
  "fleet_start t r audit =
     \<lparr>fl_service = new_service t r audit, fl_dirs = (\<lambda>_. \<lparr>id_visible = Map.empty, id_durable = Map.empty\<rparr>), fl_log = []\<rparr>"

definition memory_ports :: "(mint_env, int, token_registry, uuid list) fleet_ports" where
  "memory_ports = \<lparr>fp_mint = registry_mint, fp_redeem = registry_redeem, fp_revoke = registry_revoke, fp_is_revoked = registry_is_revoked\<rparr>"

definition postgres_ports :: "crypto \<Rightarrow> (pg_mint_env, pg_redeem_env, pg_tokens, (uuid, i64) amap) fleet_ports" where
  "postgres_ports C = \<lparr>fp_mint = pg_mint C, fp_redeem = pg_redeem C, fp_revoke = pg_revoke, fp_is_revoked = pg_is_revoked\<rparr>"

subsection \<open>What a step does\<close>

lemma enroll_run_sent:
  assumes "enroll_run K csr_for io token False fs = (r, sent, fs')"
  obtains "sent = None" "fs' = fs"
  | key csr where "csr_for key = Some csr" "sent = Some (token, csr)" "en_reply io token csr = None" "fs' = fs"
  | key csr resp where "csr_for key = Some csr" "sent = Some (token, csr)" "en_reply io token csr = Some resp"
      "fs' = snd (persist (en_persist io) (identity_for K key resp) False fs)"
  using assms
  by (auto simp: enroll_run_def Let_def identity_for_def split: if_splits sum.splits option.splits prod.splits)

lemma renew_run_sent:
  assumes "renew_run K csr_for io fs = (r, sent, fs')"
  obtains "sent = None" "fs' = fs"
  | key cert current csr where "map_option idf_content (id_visible fs KEY_FILE) = Some key"
      "map_option idf_content (id_visible fs CERT_FILE) = Some cert" "pem_contents K cert = Inr current" "csr_for key = Some csr"
      "sent = Some (current, csr)" "rn_reply io current csr = None \<and> fs' = fs
        \<or> (\<exists>der. rn_reply io current csr = Some der
             \<and> (fs' = fs \<or> (\<exists>ok. write_atomic (rn_write io) CERT_FILE (pem_of K der) False fs = (ok, fs'))))"
proof (cases sent)
  case None
  then show thesis
    using assms that(1) by (auto simp: renew_run_def split: option.splits sum.splits if_splits prod.splits bool.splits)
next
  case (Some s)
  obtain key cert current csr where f: "read_file (rn_read_key io) KEY_FILE fs = Some key" "read_file (rn_read_cert io) CERT_FILE fs = Some cert"
      "pem_contents K cert = Inr current" "csr_for key = Some csr" "s = (current, csr)"
    using assms Some by (auto simp: renew_run_def split: option.splits sum.splits if_splits prod.splits bool.splits)
  have "map_option idf_content (id_visible fs KEY_FILE) = Some key" "map_option idf_content (id_visible fs CERT_FILE) = Some cert"
    using f(1,2) by (auto simp: read_file_def split: if_splits)
  moreover have "rn_reply io current csr = None \<and> fs' = fs
        \<or> (\<exists>der. rn_reply io current csr = Some der
             \<and> (fs' = fs \<or> (\<exists>ok. write_atomic (rn_write io) CERT_FILE (pem_of K der) False fs = (ok, fs'))))"
    using assms Some f by (auto simp: renew_run_def split: option.splits sum.splits if_splits prod.splits bool.splits)
  ultimately show thesis using that(2) f Some by blast
qed

lemma enroll_call_cases:
  assumes "enroll_call K U ca redeem fresh t token csr sv = (r, sv')"
  shows "sv_revoked sv' = sv_revoked sv
    \<and> (sv_tokens sv' = sv_tokens sv \<or> sv_tokens sv' = snd (redeem token (sv_tokens sv)))
    \<and> (\<forall>resp. r = Inr resp \<longrightarrow> fst (redeem token (sv_tokens sv)) = Inr () \<and> sv_tokens sv' = snd (redeem token (sv_tokens sv))
        \<and> ca_issue K U t ca fresh csr = Inr (er_cert resp) \<and> er_host_id resp = hyphenated U fresh \<and> er_ca_root resp = ca_root_der ca)"
  using assms by (auto simp: enroll_call_def Let_def split: sum.splits prod.splits port_error.splits)

lemma enroll_host_cases:
  assumes "fl' = enroll_host Q G co csr_for dir io token f fresh t reached answered fl"
  obtains "fl' = fl"
  | csr st sv where "enroll_call (cr_pki G) (cr_uuid G) (co_ca co) (fp_redeem Q f) fresh t token csr (fl_service fl) = (Inl st, sv)"
      "fl' = fl\<lparr>fl_service := sv\<rparr>"
  | csr resp sv key dirs where
      "enroll_call (cr_pki G) (cr_uuid G) (co_ca co) (fp_redeem Q f) fresh t token csr (fl_service fl) = (Inr resp, sv)"
      "fl' = fl\<lparr>fl_dirs := dirs, fl_service := sv, fl_log := fl_log fl @ [Enrolled dir token fresh csr t (er_cert resp)]\<rparr>"
      "csr_for key = Some csr" "dirs = fl_dirs fl
        \<or> dirs = (fl_dirs fl)(dir := snd (persist (en_persist io) (identity_for (cr_pki G) key resp) False (fl_dirs fl dir)))"
proof -
  define call where "call = (\<lambda>csr. enroll_call (cr_pki G) (cr_uuid G) (co_ca co) (fp_redeem Q f) fresh t token csr (fl_service fl))"
  define reply where "reply = (\<lambda>(_ :: string) csr. if reached \<and> answered then (case fst (call csr) of Inl _ \<Rightarrow> None | Inr resp \<Rightarrow> Some resp) else None)"
  obtain r sent fs where run: "enroll_run (cr_pki G) csr_for (io\<lparr>en_reply := reply\<rparr>) token False (fl_dirs fl dir) = (r, sent, fs)"
    by (cases "enroll_run (cr_pki G) csr_for (io\<lparr>en_reply := reply\<rparr>) token False (fl_dirs fl dir)") auto
  have fl': "fl' = (let fl' = fl\<lparr>fl_dirs := (fl_dirs fl)(dir := fs)\<rparr> in
      (case sent of None \<Rightarrow> fl' | Some (_, csr) \<Rightarrow> if \<not> reached then fl'
        else fl'\<lparr>fl_service := snd (call csr),
          fl_log := fl_log fl @ (case fst (call csr) of Inl _ \<Rightarrow> [] | Inr resp \<Rightarrow> [Enrolled dir token fresh csr t (er_cert resp)])\<rparr>))"
    unfolding assms enroll_host_def call_def [symmetric] reply_def [symmetric] Let_def run by simp
  from run show thesis
  proof (cases rule: enroll_run_sent)
    case 1
    then show thesis using that(1) fl' by simp
  next
    case (2 key csr)
    show thesis
    proof (cases "fst (call csr)")
      case (Inl st)
      then show thesis using that(1) that(2) [of csr st "snd (call csr)"] 2 fl' by (cases reached) (auto simp: call_def prod_eq_iff)
    next
      case (Inr resp)
      then show thesis using that(1) that(3) [of csr resp "snd (call csr)" "fl_dirs fl" key] 2 fl'
        by (cases reached) (auto simp: call_def prod_eq_iff)
    qed
  next
    case (3 key csr resp)
    then have "reached" "fst (call csr) = Inr resp" by (auto simp: reply_def split: if_splits sum.splits)
    then show thesis using that(3) [of csr resp "snd (call csr)" "(fl_dirs fl)(dir := fs)" key] 3 fl' by (auto simp: call_def prod_eq_iff)
  qed
qed

lemma renew_call_Inr:
  assumes "renew_call K U ca is_revoked t1 t2 current csr sv = Inr der"
  obtains host where "validate_renewal K U t1 ca current csr = Inr host" "is_revoked host (sv_revoked sv) = Inr False"
    "ca_issue K U t2 ca host csr = Inr der"
  using assms by (auto simp: renew_call_def split: sum.splits port_error.splits bool.splits)

lemma renew_host_cases:
  assumes "fl' = renew_host Q G co csr_for dir io db t1 t2 reached answered fl"
  obtains "fl' = fl"
  | key cert current csr host der dirs where "map_option idf_content (id_visible (fl_dirs fl dir) KEY_FILE) = Some key" "csr_for key = Some csr"
      "map_option idf_content (id_visible (fl_dirs fl dir) CERT_FILE) = Some cert" "pem_contents (cr_pki G) cert = Inr current"
      "validate_renewal (cr_pki G) (cr_uuid G) t1 (co_ca co) current csr = Inr host" "fp_is_revoked Q db host (sv_revoked (fl_service fl)) = Inr False"
      "ca_issue (cr_pki G) (cr_uuid G) t2 (co_ca co) host csr = Inr der"
      "fl' = fl\<lparr>fl_dirs := dirs, fl_log := fl_log fl @ [Renewed host csr t2 der]\<rparr>" "dirs = fl_dirs fl
        \<or> (\<exists>ok fs. write_atomic (rn_write io) CERT_FILE (pem_of (cr_pki G) der) False (fl_dirs fl dir) = (ok, fs) \<and> dirs = (fl_dirs fl)(dir := fs))"
proof -
  define call where "call = (\<lambda>cert csr. renew_call (cr_pki G) (cr_uuid G) (co_ca co) (fp_is_revoked Q db) t1 t2 cert csr (fl_service fl))"
  define reply where "reply = (\<lambda>cert csr. if reached \<and> answered then (case call cert csr of Inl _ \<Rightarrow> None | Inr der \<Rightarrow> Some der) else None)"
  obtain r sent fs where run: "renew_run (cr_pki G) csr_for (io\<lparr>rn_reply := reply\<rparr>) (fl_dirs fl dir) = (r, sent, fs)"
    by (cases "renew_run (cr_pki G) csr_for (io\<lparr>rn_reply := reply\<rparr>) (fl_dirs fl dir)") auto
  have fl': "fl' = (let fl' = fl\<lparr>fl_dirs := (fl_dirs fl)(dir := fs)\<rparr> in
      (case sent of None \<Rightarrow> fl' | Some (cert, csr) \<Rightarrow>
        (case (if reached then call cert csr else Inl Unavailable, validate_renewal (cr_pki G) (cr_uuid G) t1 (co_ca co) cert csr) of
           (Inr der, Inr host) \<Rightarrow> fl'\<lparr>fl_log := fl_log fl @ [Renewed host csr t2 der]\<rparr>
         | _ \<Rightarrow> fl')))"
    unfolding assms renew_host_def call_def [symmetric] reply_def [symmetric] Let_def run by simp
  from run show thesis
  proof (cases rule: renew_run_sent)
    case 1
    then show thesis using that(1) fl' by simp
  next
    case (2 key cert current csr)
    show thesis
    proof (cases "\<exists>der. reached \<and> call current csr = Inr der")
      case False
      then have "reply current csr = None" by (auto simp: reply_def split: sum.splits)
      with 2(6) have "fs = fl_dirs fl dir" by simp
      with False show thesis using that(1) 2 fl' by (cases reached; cases "call current csr") (auto split: sum.splits)
    next
      case True
      then obtain der where der: "reached" "call current csr = Inr der" by blast
      obtain host where h: "validate_renewal (cr_pki G) (cr_uuid G) t1 (co_ca co) current csr = Inr host"
          "fp_is_revoked Q db host (sv_revoked (fl_service fl)) = Inr False" "ca_issue (cr_pki G) (cr_uuid G) t2 (co_ca co) host csr = Inr der"
        using der(2) unfolding call_def by (rule renew_call_Inr)
      have "(fl_dirs fl)(dir := fs) = fl_dirs fl \<or> (\<exists>ok. write_atomic (rn_write io) CERT_FILE (pem_of (cr_pki G) der) False (fl_dirs fl dir) = (ok, fs))"
        using 2(6) der by (auto simp: reply_def split: if_splits)
      then show thesis using that(2) [OF 2(1,4,2,3) h, of "(fl_dirs fl)(dir := fs)"] 2(5) der h fl' by auto
    qed
  qed
qed

lemma run_token_cases:
  assumes "fl' = snd (cli_token header_ok connected token (serve_mint Q G co rounds env) fl)"
  obtains "fl' = fl"
  | md ext g where "authed header_ok token = Inr md" "intercept (cr_jwt G) (co_auth co) rounds md = Inr ext"
      "fl' = fl\<lparr>fl_service := (fl_service fl)\<lparr>sv_tokens := snd (fp_mint Q g (sv_tokens (fl_service fl)))\<rparr>, fl_log := fl_log fl @ [MintCall md g]\<rparr>"
proof (cases "connected \<and> (\<exists>md ext. authed header_ok token = Inr md \<and> intercept (cr_jwt G) (co_auth co) rounds md = Inr ext)")
  case False
  then have "fl' = fl"
    unfolding assms cli_token_def call_coordinator_def serve_mint_def by (auto split: sum.splits prod.splits)
  then show thesis by (rule that(1))
next
  case True
  then obtain md ext where md: "connected" "authed header_ok token = Inr md" "intercept (cr_jwt G) (co_auth co) rounds md = Inr ext" by blast
  have "fl' = snd (serve_mint Q G co rounds env md 0 fl)"
    unfolding assms cli_token_def call_coordinator_def using md by (auto split: sum.splits prod.splits)
  then show thesis
    using that(2) [OF md(2,3), of "env (co_default_ttl co)"] md
    by (auto simp: serve_mint_def mint_token_call_def Let_def split: prod.splits sum.splits mint_error.splits)
qed

lemma run_revoke_cases:
  assumes "fl' = snd (cli_revoke header_ok connected token (serve_revoke Q G co rounds db now) host fl)"
  obtains "fl' = fl"
  | md ext h r rv where "authed header_ok token = Inr md" "intercept (cr_jwt G) (co_auth co) rounds md = Inr ext"
      "fp_revoke Q db now h (sv_revoked (fl_service fl)) = (r, rv)"
      "fl' = fl\<lparr>fl_service := (fl_service fl)\<lparr>sv_revoked := rv\<rparr>, fl_log := fl_log fl @ (case r of Inl _ \<Rightarrow> [] | Inr _ \<Rightarrow> [RevokeOk md h])\<rparr>"
proof (cases "connected \<and> (\<exists>md ext h. authed header_ok token = Inr md \<and> intercept (cr_jwt G) (co_auth co) rounds md = Inr ext
    \<and> parse_uuid (cr_uuid G) host = Some h)")
  case False
  then have "fl' = fl"
    unfolding assms cli_revoke_def call_coordinator_def serve_revoke_def revoke_call_def
    by (auto split: sum.splits prod.splits option.splits)
  then show thesis by (rule that(1))
next
  case True
  then obtain md ext h where md: "connected" "authed header_ok token = Inr md" "intercept (cr_jwt G) (co_auth co) rounds md = Inr ext"
      "parse_uuid (cr_uuid G) host = Some h" by blast
  obtain r rv where rv: "fp_revoke Q db now h (sv_revoked (fl_service fl)) = (r, rv)" by fastforce
  have "fl' = snd (serve_revoke Q G co rounds db now md host fl)"
    unfolding assms cli_revoke_def call_coordinator_def using md by (auto split: sum.splits prod.splits)
  then show thesis
    using that(2) [OF md(2,3) rv] md rv by (cases r) (auto simp: serve_revoke_def revoke_call_def split: sum.splits)
qed

subsection \<open>The directories hold what was issued to them\<close>

abbreviation file_text :: "id_fs \<Rightarrow> string \<Rightarrow> string option" where
  "file_text fs name \<equiv> map_option idf_content (id_visible fs name)"

definition dir_identity ::
  "crates \<Rightarrow> coordinator \<Rightarrow> (string \<Rightarrow> bytes option) \<Rightarrow> 'g fleet_log list \<Rightarrow> string \<Rightarrow> id_fs \<Rightarrow> uuid \<Rightarrow> bytes \<Rightarrow> int \<Rightarrow> bytes \<Rightarrow> bool" where
  "dir_identity G co csr_for log dir fs h csr t der \<longleftrightarrow>
     (\<exists>key. file_text fs KEY_FILE = Some key \<and> csr_for key = Some csr)
     \<and> file_text fs HOST_ID_FILE = Some (hyphenated (cr_uuid G) h)
     \<and> file_text fs CA_FILE = Some (pem_of (cr_pki G) (ca_root_der (co_ca co)))
     \<and> file_text fs CERT_FILE = Some (pem_of (cr_pki G) der)
     \<and> (\<exists>token t0 der0. Enrolled dir token h csr t0 der0 \<in> set log)
     \<and> ((\<exists>token. Enrolled dir token h csr t der \<in> set log) \<or> Renewed h csr t der \<in> set log)"

definition log_issued :: "crates \<Rightarrow> coordinator \<Rightarrow> 'g fleet_log list \<Rightarrow> bool" where
  "log_issued G co log \<longleftrightarrow>
     (\<forall>e \<in> set log. case e of
        Enrolled dir token h csr t der \<Rightarrow> ca_issue (cr_pki G) (cr_uuid G) t (co_ca co) h csr = Inr der
      | Renewed h csr t der \<Rightarrow> ca_issue (cr_pki G) (cr_uuid G) t (co_ca co) h csr = Inr der
      | _ \<Rightarrow> True)"

definition dirs_ok :: "crates \<Rightarrow> coordinator \<Rightarrow> (string \<Rightarrow> bytes option) \<Rightarrow> ('g, 't, 'r, 'a) fleet \<Rightarrow> bool" where
  "dirs_ok G co csr_for fl \<longleftrightarrow> log_issued G co (fl_log fl)
     \<and> (\<forall>dir. owner_only_at (KEY_FILE @ ''.tmp'') (fl_dirs fl dir)
          \<and> (id_visible (fl_dirs fl dir) KEY_FILE \<noteq> None
              \<longrightarrow> (\<exists>h csr t der. dir_identity G co csr_for (fl_log fl) dir (fl_dirs fl dir) h csr t der)))"

lemma dir_identity_mono:
  "dir_identity G co csr_for log dir fs h csr t der \<Longrightarrow> set log \<subseteq> set log' \<Longrightarrow> dir_identity G co csr_for log' dir fs h csr t der"
  unfolding dir_identity_def by blast

lemma dir_identity_issued:
  "log_issued G co log \<Longrightarrow> dir_identity G co csr_for log dir fs h csr t der \<Longrightarrow> ca_issue (cr_pki G) (cr_uuid G) t (co_ca co) h csr = Inr der"
  unfolding dir_identity_def log_issued_def by fastforce

lemma dirs_ok_log:
  assumes "dirs_ok G co csr_for fl" "fl_dirs fl' = fl_dirs fl" "fl_log fl' = fl_log fl @ es" "log_issued G co es"
  shows "dirs_ok G co csr_for fl'"
proof -
  have "set (fl_log fl) \<subseteq> set (fl_log fl')" using assms(3) by auto
  moreover have "log_issued G co (fl_log fl')" using assms(1,3,4) unfolding dirs_ok_def log_issued_def by auto
  ultimately show ?thesis using assms(1,2) dir_identity_mono unfolding dirs_ok_def by metis
qed

text \<open>One directory changed.\<close>

lemma dirs_ok_upd:
  assumes "dirs_ok G co csr_for fl" "log_issued G co es" "owner_only_at (KEY_FILE @ ''.tmp'') fs"
    and "id_visible fs KEY_FILE \<noteq> None \<Longrightarrow> \<exists>h csr t der. dir_identity G co csr_for (fl_log fl @ es) dir fs h csr t der"
    and "fl_dirs fl' = (fl_dirs fl)(dir := fs)" "fl_log fl' = fl_log fl @ es"
  shows "dirs_ok G co csr_for fl'"
proof -
  have "dirs_ok G co csr_for (fl\<lparr>fl_log := fl_log fl @ es\<rparr>)" by (rule dirs_ok_log [OF assms(1) _ _ assms(2)]) simp_all
  then show ?thesis using assms(3-6) unfolding dirs_ok_def by auto
qed

lemma dirs_ok_enroll:
  assumes "dirs_ok G co csr_for fl"
  shows "dirs_ok G co csr_for (enroll_host Q G co csr_for dir io token f fresh t reached answered fl)" (is "dirs_ok _ _ _ ?fl'")
  using refl [of ?fl']
proof (cases rule: enroll_host_cases)
  case 1
  then show ?thesis using assms by simp
next
  case (2 csr st sv)
  then show ?thesis by (intro dirs_ok_log [OF assms, where es = "[]"]) (simp_all add: log_issued_def)
next
  case (3 csr resp sv key dirs)
  have c: "ca_issue (cr_pki G) (cr_uuid G) t (co_ca co) fresh csr = Inr (er_cert resp)" "er_host_id resp = hyphenated (cr_uuid G) fresh"
      "er_ca_root resp = ca_root_der (co_ca co)"
    using enroll_call_cases [OF 3(1)] by auto
  let ?es = "[Enrolled dir token fresh csr t (er_cert resp)]" and ?idn = "identity_for (cr_pki G) key resp"
  have es: "log_issued G co ?es" using c(1) by (simp add: log_issued_def)
  have log: "fl_log ?fl' = fl_log fl @ ?es" and dirs: "fl_dirs ?fl' = dirs" using 3(2) by simp_all
  show ?thesis
  proof (cases "dirs = fl_dirs fl")
    case True
    then show ?thesis using dirs_ok_log [OF assms _ log es] dirs by simp
  next
    case False
    obtain r fs where p: "persist (en_persist io) ?idn False (fl_dirs fl dir) = (r, fs)" by fastforce
    then have fs: "fl_dirs ?fl' = (fl_dirs fl)(dir := fs)" "fs \<noteq> fl_dirs fl dir" using 3(4) False dirs by auto
    have own: "owner_only_at (KEY_FILE @ ''.tmp'') (fl_dirs fl dir)" using assms by (simp add: dirs_ok_def)
    from persist_effect [OF p own] fs(2)
    have eff: "owner_only_at (KEY_FILE @ ''.tmp'') fs" "id_visible fs KEY_FILE = None \<or> stored ?idn fs" by auto
    have "dir_identity G co csr_for (fl_log fl @ ?es) dir fs fresh csr t (er_cert resp)" if "stored ?idn fs"
      using that 3(3) c unfolding dir_identity_def stored_def by (auto simp: identity_for_def)
    then have "\<exists>h csr t der. dir_identity G co csr_for (fl_log fl @ ?es) dir fs h csr t der" if "id_visible fs KEY_FILE \<noteq> None"
      using that eff(2) by metis
    then show ?thesis by (rule dirs_ok_upd [OF assms es eff(1) _ fs(1) log])
  qed
qed

lemma issued_renewal_host:
  assumes "pki_issues K ec" "uuid_laws U" "from_material K cert_pem key_pem ttl = Inr ca" "ca_issue K U t ca h csr0 = Inr der"
    and "validate_renewal K U now ca der csr = Inr host"
  shows "host = h"
proof -
  obtain root where root: "key_from_pem K key_pem = Inr (x_public_key root)" "x509_from_der K (ca_cert_der ca) = Inr root"
      "ca_issuer ca = (cert_pem, key_pem)" "ca_cert_ttl ca = ttl"
    using assms(3) by (rule from_material_key)
  obtain pk where sign: "sign_by K cert_pem key_pem (host_cert_params U h t ttl) pk = Inr der"
    using assms(4) by (auto simp: ca_issue_def root split: sum.splits)
  obtain c where c: "x509_from_der K der = Inr c" "x_san c = Some [GnUri (host_san_uri U h)]"
    using assms(1) [unfolded pki_issues_def, rule_format, OF root(1) sign] by (auto simp: host_cert_params_def)
  have "host_id_from_cert U c = Inr host"
    using assms(5) c(1) by (auto simp: validate_renewal_def split: sum.splits if_splits)
  then show ?thesis using host_id_from_san [OF assms(2) c(2)] by simp
qed

text \<open>What the parameters must provide: the documented behaviour of the certificate crates and of UUIDs, a CA that
  was loaded, and PEM that reads back what it wrote.\<close>

definition fleet_laws :: "crates \<Rightarrow> coordinator \<Rightarrow> (bytes \<Rightarrow> bool) \<Rightarrow> int \<Rightarrow> bool" where
  "fleet_laws G co ec ttl \<longleftrightarrow> pki_issues (cr_pki G) ec \<and> uuid_laws (cr_uuid G)
     \<and> (\<exists>cert_pem key_pem. from_material (cr_pki G) cert_pem key_pem ttl = Inr (co_ca co))
     \<and> (\<forall>der. pem_contents (cr_pki G) (pem_of (cr_pki G) der) = Inr der)"

lemma dirs_ok_renew:
  assumes "fleet_laws G co ec ttl" "dirs_ok G co csr_for fl"
  shows "dirs_ok G co csr_for (renew_host Q G co csr_for dir io db t1 t2 reached answered fl)" (is "dirs_ok _ _ _ ?fl'")
  using refl [of ?fl']
proof (cases rule: renew_host_cases)
  case 1
  then show ?thesis using assms(2) by simp
next
  case (2 key cert current csr host der dirs)
  have es: "log_issued G co [Renewed host csr t2 der]" using 2(7) by (simp add: log_issued_def)
  have log: "fl_log ?fl' = fl_log fl @ [Renewed host csr t2 der]" and dirs: "fl_dirs ?fl' = dirs" using 2(8) by simp_all
  show ?thesis
  proof (cases "dirs = fl_dirs fl")
    case True
    then show ?thesis using dirs_ok_log [OF assms(2) _ log es] dirs by simp
  next
    case False
    then obtain ok fs where w: "write_atomic (rn_write io) CERT_FILE (pem_of (cr_pki G) der) False (fl_dirs fl dir) = (ok, fs)"
        and fs: "fl_dirs ?fl' = (fl_dirs fl)(dir := fs)"
      using 2(9) dirs by auto
    have names: "CERT_FILE \<in> {KEY_FILE, CERT_FILE, CA_FILE, HOST_ID_FILE}" by simp
    note v = write_atomic_visible(1-3) [OF w names]
    have same: "id_visible fs KEY_FILE = id_visible (fl_dirs fl dir) KEY_FILE" "id_visible fs CA_FILE = id_visible (fl_dirs fl dir) CA_FILE"
        "id_visible fs HOST_ID_FILE = id_visible (fl_dirs fl dir) HOST_ID_FILE"
        "id_visible fs (KEY_FILE @ ''.tmp'') = id_visible (fl_dirs fl dir) (KEY_FILE @ ''.tmp'')"
      using v(1) by simp_all
    obtain h csr0 t0 der0 where id0: "dir_identity G co csr_for (fl_log fl) dir (fl_dirs fl dir) h csr0 t0 der0"
      using assms(2) 2(1) unfolding dirs_ok_def by fastforce
    have "csr0 = csr" "cert = pem_of (cr_pki G) der0" using id0 2(1-3) by (auto simp: dir_identity_def)
    then have "current = der0" using 2(4) assms(1) by (simp add: fleet_laws_def)
    moreover have "ca_issue (cr_pki G) (cr_uuid G) t0 (co_ca co) h csr0 = Inr der0"
      using assms(2) id0 dir_identity_issued unfolding dirs_ok_def by blast
    ultimately have "host = h" using assms(1) 2(5) issued_renewal_host unfolding fleet_laws_def by metis
    then have "dir_identity G co csr_for (fl_log fl @ [Renewed host csr t2 der]) dir fs h csr (if ok then t2 else t0) (if ok then der else der0)"
      using id0 same v(2,3) \<open>csr0 = csr\<close> unfolding dir_identity_def by (cases ok) auto
    moreover have "owner_only_at (KEY_FILE @ ''.tmp'') fs" using assms(2) same(4) by (simp add: dirs_ok_def owner_only_at_def)
    ultimately show ?thesis by (intro dirs_ok_upd [OF assms(2) es _ _ fs log]) auto
  qed
qed

lemma dirs_ok_step:
  assumes "fleet_laws G co ec ttl" "dirs_ok G co csr_for fl"
  shows "dirs_ok G co csr_for (fleet_step Q G co csr_for header_ok ev fl)" (is "dirs_ok _ _ _ ?fl'")
proof (cases ev)
  case (RunToken token connected rounds env)
  then have "?fl' = snd (cli_token header_ok connected token (serve_mint Q G co rounds env) fl)" by simp
  then show ?thesis
  proof (cases rule: run_token_cases)
    case (2 md ext g)
    then show ?thesis by (intro dirs_ok_log [OF assms(2), where es = "[MintCall md g]"]) (simp_all add: log_issued_def)
  qed (use assms(2) in simp)
next
  case (RunRevoke token connected rounds db now host)
  then have "?fl' = snd (cli_revoke header_ok connected token (serve_revoke Q G co rounds db now) host fl)" by simp
  then show ?thesis
  proof (cases rule: run_revoke_cases)
    case (2 md ext h r rv)
    then show ?thesis
      by (intro dirs_ok_log [OF assms(2), where es = "case r of Inl _ \<Rightarrow> [] | Inr _ \<Rightarrow> [RevokeOk md h]"])
        (simp_all add: log_issued_def split: sum.split)
  qed (use assms(2) in simp)
qed (use assms dirs_ok_enroll dirs_ok_renew in auto)

subsection \<open>Tokens and revocations\<close>

definition enrolled_with :: "(string \<Rightarrow> 'k) \<Rightarrow> 'k \<Rightarrow> 'g fleet_log list \<Rightarrow> nat" where
  "enrolled_with tkey k log = length (filter (\<lambda>e. case e of Enrolled _ token _ _ _ _ \<Rightarrow> tkey token = k | _ \<Rightarrow> False) log)"

definition minted_as :: "('g \<Rightarrow> 'k option) \<Rightarrow> 'k \<Rightarrow> 'g fleet_log list \<Rightarrow> nat" where
  "minted_as mints k log = length (filter (\<lambda>e. case e of MintCall _ g \<Rightarrow> mints g = Some k | _ \<Rightarrow> False) log)"

lemma count_simps [simp]:
  "enrolled_with tkey k [] = 0" "minted_as mints k [] = 0"
  "enrolled_with tkey k (log @ [MintCall md g]) = enrolled_with tkey k log"
  "enrolled_with tkey k (log @ [RevokeOk md h]) = enrolled_with tkey k log"
  "enrolled_with tkey k (log @ [Renewed h csr t der]) = enrolled_with tkey k log"
  "enrolled_with tkey k (log @ [Enrolled dir token h csr t der]) = enrolled_with tkey k log + (if tkey token = k then 1 else 0)"
  "minted_as mints k (log @ [MintCall md g]) = minted_as mints k log + (if mints g = Some k then 1 else 0)"
  "minted_as mints k (log @ [RevokeOk md h]) = minted_as mints k log"
  "minted_as mints k (log @ [Renewed h csr t der]) = minted_as mints k log"
  "minted_as mints k (log @ [Enrolled dir token h csr t der]) = minted_as mints k log"
  by (simp_all add: enrolled_with_def minted_as_def)

definition no_renewal_after_revoke :: "'g fleet_log list \<Rightarrow> bool" where
  "no_renewal_after_revoke log \<longleftrightarrow>
     (\<forall>pre md h post csr t der. log = pre @ RevokeOk md h # post \<longrightarrow> Renewed h csr t der \<notin> set post)"

lemma no_renewal_snoc:
  assumes "no_renewal_after_revoke log" "\<And>h csr t der md. e = Renewed h csr t der \<Longrightarrow> RevokeOk md h \<notin> set log"
  shows "no_renewal_after_revoke (log @ [e])"
  unfolding no_renewal_after_revoke_def
proof (intro allI impI notI)
  fix pre md h post csr t der
  assume l: "log @ [e] = pre @ RevokeOk md h # post" and r: "Renewed h csr t der \<in> set post"
  then obtain post' where p: "post = post' @ [e]" by (cases post rule: rev_cases) auto
  then have log: "log = pre @ RevokeOk md h # post'" using l by simp
  then have "Renewed h csr t der \<notin> set post'" using assms(1) unfolding no_renewal_after_revoke_def by blast
  then have "e = Renewed h csr t der" using r p by auto
  then show False using assms(2) log by auto
qed

text \<open>The books of the stores: \<open>live\<close>, \<open>tinv\<close> and \<open>revoked\<close> are those of the ports.\<close>

definition stores_ok ::
  "(string \<Rightarrow> 'k) \<Rightarrow> ('g \<Rightarrow> 'k option) \<Rightarrow> ('t \<Rightarrow> 'k \<Rightarrow> bool) \<Rightarrow> ('t \<Rightarrow> bool) \<Rightarrow> ('r \<Rightarrow> uuid set) \<Rightarrow> ('g, 't, 'r, 'a) fleet \<Rightarrow> bool" where
  "stores_ok tkey mints live tinv revoked fl \<longleftrightarrow>
     tinv (sv_tokens (fl_service fl))
     \<and> (\<forall>k. enrolled_with tkey k (fl_log fl) + (if live (sv_tokens (fl_service fl)) k then 1 else 0) \<le> minted_as mints k (fl_log fl))
     \<and> (\<forall>md h. RevokeOk md h \<in> set (fl_log fl) \<longrightarrow> h \<in> revoked (sv_revoked (fl_service fl)))
     \<and> no_renewal_after_revoke (fl_log fl)"

lemma stores_ok_cong:
  assumes "fl_service fl' = fl_service fl" "fl_log fl' = fl_log fl"
  shows "stores_ok tkey mints live tinv revoked fl' = stores_ok tkey mints live tinv revoked fl"
  using assms by (simp add: stores_ok_def)

locale fleet_stores =
  tokens: join_tokens_port "fp_mint Q" "fp_redeem Q" tkey mints live tinv +
  revs: revocations_port "fp_revoke Q" "fp_is_revoked Q" revoked
  for Q :: "('g, 'f, 't, 'r) fleet_ports" and tkey :: "string \<Rightarrow> 'k" and mints live tinv revoked
begin

lemma stores_ok_mint:
  assumes "stores_ok tkey mints live tinv revoked fl"
  shows "stores_ok tkey mints live tinv revoked
    (fl\<lparr>fl_service := (fl_service fl)\<lparr>sv_tokens := snd (fp_mint Q g (sv_tokens (fl_service fl)))\<rparr>, fl_log := fl_log fl @ [MintCall md g]\<rparr>)"
proof -
  let ?s = "sv_tokens (fl_service fl)"
  have inv: "tinv ?s" using assms by (simp add: stores_ok_def)
  have "enrolled_with tkey k (fl_log fl) + (if live (snd (fp_mint Q g ?s)) k then 1 else 0)
      \<le> minted_as mints k (fl_log fl) + (if mints g = Some k then 1 else 0)" for k
  proof -
    have "enrolled_with tkey k (fl_log fl) + (if live ?s k then 1 else 0) \<le> minted_as mints k (fl_log fl)" using assms by (simp add: stores_ok_def)
    then show ?thesis using tokens.mint_live [OF inv, of g k] by (auto split: if_splits)
  qed
  moreover have "no_renewal_after_revoke (fl_log fl @ [MintCall md g])" using assms by (intro no_renewal_snoc) (simp_all add: stores_ok_def)
  ultimately show ?thesis using assms tokens.inv_mint [OF inv, of g] by (auto simp: stores_ok_def)
qed

lemma stores_ok_revoke:
  assumes "stores_ok tkey mints live tinv revoked fl" "fp_revoke Q db now h (sv_revoked (fl_service fl)) = (r, rv)"
  shows "stores_ok tkey mints live tinv revoked
    (fl\<lparr>fl_service := (fl_service fl)\<lparr>sv_revoked := rv\<rparr>, fl_log := fl_log fl @ (case r of Inl _ \<Rightarrow> [] | Inr _ \<Rightarrow> [RevokeOk md h])\<rparr>)"
proof (cases r)
  case (Inl e)
  then show ?thesis using assms revs.revoke_any [OF assms(2)] by (auto simp: stores_ok_def)
next
  case (Inr u)
  then have "revoked rv = insert h (revoked (sv_revoked (fl_service fl)))" using revs.revoke_ok assms(2) by simp
  moreover have "no_renewal_after_revoke (fl_log fl @ [RevokeOk md h])" using assms by (intro no_renewal_snoc) (simp_all add: stores_ok_def)
  ultimately show ?thesis using assms(1) Inr by (auto simp: stores_ok_def)
qed

lemma stores_ok_enroll:
  assumes "stores_ok tkey mints live tinv revoked fl"
  shows "stores_ok tkey mints live tinv revoked (enroll_host Q G co csr_for dir io token f fresh t reached answered fl)" (is "stores_ok _ _ _ _ _ ?fl'")
proof -
  let ?s = "sv_tokens (fl_service fl)"
  have inv: "tinv ?s" and books: "enrolled_with tkey k (fl_log fl) + (if live ?s k then 1 else 0) \<le> minted_as mints k (fl_log fl)" for k
    using assms by (simp_all add: stores_ok_def)
  have live: "live (snd (fp_redeem Q f token ?s)) k \<Longrightarrow> live ?s k" for k by (rule tokens.redeem_live [OF inv])
  show ?thesis
    using refl [of ?fl']
  proof (cases rule: enroll_host_cases)
    case 1
    then show ?thesis using assms by simp
  next
    case (2 csr st sv)
    have c: "sv_revoked sv = sv_revoked (fl_service fl)" "sv_tokens sv = ?s \<or> sv_tokens sv = snd (fp_redeem Q f token ?s)"
      using enroll_call_cases [OF 2(1)] by auto
    have "tinv (sv_tokens sv)" using c(2) inv tokens.inv_redeem [OF inv] by auto
    moreover have "live (sv_tokens sv) k \<Longrightarrow> live ?s k" for k using c(2) live by auto
    then have "enrolled_with tkey k (fl_log fl) + (if live (sv_tokens sv) k then 1 else 0) \<le> minted_as mints k (fl_log fl)" for k
      using books [of k] by (auto split: if_splits)
    ultimately show ?thesis using assms 2(2) c(1) by (simp add: stores_ok_def)
  next
    case (3 csr resp sv key dirs)
    have c: "sv_revoked sv = sv_revoked (fl_service fl)" "fst (fp_redeem Q f token ?s) = Inr ()" "sv_tokens sv = snd (fp_redeem Q f token ?s)"
      using enroll_call_cases [OF 3(1)] by auto
    note ok = tokens.redeem_ok [OF inv c(2)]
    have "enrolled_with tkey k (fl_log fl) + (if tkey token = k then 1 else 0) + (if live (sv_tokens sv) k then 1 else 0)
        \<le> minted_as mints k (fl_log fl)" for k
      using books [of k] ok live [of k] c(3) by (auto split: if_splits)
    moreover have "no_renewal_after_revoke (fl_log fl @ [Enrolled dir token fresh csr t (er_cert resp)])"
      using assms by (intro no_renewal_snoc) (simp_all add: stores_ok_def)
    ultimately show ?thesis using assms 3(2) c tokens.inv_redeem [OF inv] by (auto simp: stores_ok_def)
  qed
qed

lemma stores_ok_renew:
  assumes "stores_ok tkey mints live tinv revoked fl"
  shows "stores_ok tkey mints live tinv revoked (renew_host Q G co csr_for dir io db t1 t2 reached answered fl)" (is "stores_ok _ _ _ _ _ ?fl'")
  using refl [of ?fl']
proof (cases rule: renew_host_cases)
  case 1
  then show ?thesis using assms by simp
next
  case (2 key cert current csr host der dirs)
  have "host \<notin> revoked (sv_revoked (fl_service fl))" using revs.is_revoked_sound [OF 2(6)] by simp
  then have "RevokeOk md host \<notin> set (fl_log fl)" for md using assms by (auto simp: stores_ok_def)
  then have "no_renewal_after_revoke (fl_log fl @ [Renewed host csr t2 der])"
    using assms by (intro no_renewal_snoc) (auto simp: stores_ok_def)
  then show ?thesis using assms 2(8) by (auto simp: stores_ok_def)
qed

lemma stores_ok_step:
  assumes "stores_ok tkey mints live tinv revoked fl"
  shows "stores_ok tkey mints live tinv revoked (fleet_step Q G co csr_for header_ok ev fl)" (is "stores_ok _ _ _ _ _ ?fl'")
proof (cases ev)
  case (RunToken token connected rounds env)
  then have "?fl' = snd (cli_token header_ok connected token (serve_mint Q G co rounds env) fl)" by simp
  then show ?thesis by (cases rule: run_token_cases) (use assms stores_ok_mint in auto)
next
  case (RunRevoke token connected rounds db now host)
  then have "?fl' = snd (cli_revoke header_ok connected token (serve_revoke Q G co rounds db now) host fl)" by simp
  then show ?thesis by (cases rule: run_revoke_cases) (use assms stores_ok_revoke in auto)
qed (use assms stores_ok_enroll stores_ok_renew in auto)

end

interpretation memory_fleet: fleet_stores memory_ports id "\<lambda>m. map_option hex (me_raw m)" registry_live registry_inv set
  by (simp add: fleet_stores_def memory_ports_def registry_tokens.join_tokens_port_axioms registry_revocations.revocations_port_axioms)

interpretation postgres_fleet: fleet_stores "postgres_ports C" "token_hash C" "\<lambda>m. map_option (\<lambda>raw. token_hash C (hex raw)) (pm_raw m)"
    pg_live pg_tokens_inv "\<lambda>t. dom (map_of t)"
  by (simp add: fleet_stores_def postgres_ports_def pg_join_tokens.join_tokens_port_axioms pg_revocations.revocations_port_axioms)

subsection \<open>Who could mint and revoke\<close>

definition log_authorized :: "crates \<Rightarrow> coordinator \<Rightarrow> 'g fleet_log list \<Rightarrow> bool" where
  "log_authorized G co log \<longleftrightarrow>
     (\<forall>e \<in> set log. case e of
        MintCall md g \<Rightarrow> \<exists>rounds ext. intercept (cr_jwt G) (co_auth co) rounds md = Inr ext
      | RevokeOk md h \<Rightarrow> \<exists>rounds ext. intercept (cr_jwt G) (co_auth co) rounds md = Inr ext
      | _ \<Rightarrow> True)"

lemma log_authorized_step:
  assumes "log_authorized G co (fl_log fl)"
  shows "log_authorized G co (fl_log (fleet_step Q G co csr_for header_ok ev fl))" (is "log_authorized _ _ (fl_log ?fl')")
proof (cases ev)
  case (RunToken token connected rounds env)
  then have "?fl' = snd (cli_token header_ok connected token (serve_mint Q G co rounds env) fl)" by simp
  then show ?thesis by (cases rule: run_token_cases) (use assms in \<open>auto simp: log_authorized_def\<close>)
next
  case (RunRevoke token connected rounds db now host)
  then have "?fl' = snd (cli_revoke header_ok connected token (serve_revoke Q G co rounds db now) host fl)" by simp
  then show ?thesis by (cases rule: run_revoke_cases) (use assms in \<open>auto simp: log_authorized_def split: sum.splits\<close>)
next
  case (EnrollHost dir io token f fresh t reached answered)
  then have "?fl' = enroll_host Q G co csr_for dir io token f fresh t reached answered fl" by simp
  then show ?thesis by (cases rule: enroll_host_cases) (use assms in \<open>auto simp: log_authorized_def\<close>)
next
  case (RenewHost dir io db t1 t2 reached answered)
  then have "?fl' = renew_host Q G co csr_for dir io db t1 t2 reached answered fl" by simp
  then show ?thesis by (cases rule: renew_host_cases) (use assms in \<open>auto simp: log_authorized_def\<close>)
qed

lemma log_authorized_tokens:
  assumes "coordinator_main G io cli table = (Inr co, table')" "cli_oidc_issuer cli \<noteq> None" "log_authorized G co log"
    and "MintCall md g \<in> set log \<or> RevokeOk md h \<in> set log"
  shows "\<exists>subj. token_proves G cli md subj"
proof -
  obtain addr mqtt_addr durable ca where "parse_socket_addr (cli_grpc_bind cli) = Some addr"
      "parse_socket_addr (cli_mqtt_bind cli) = Some mqtt_addr" "db_open io (cli_database_url cli) = Inr durable"
      "open_ca G io durable table = (Inr ca, table')"
    and m: "start_services G io cli addr mqtt_addr durable ca = Inr co"
    by (rule coordinator_main_Inr [OF assms(1)])
  have "build_operator_auth G io cli = Inr (co_auth co)" by (rule start_services_Inr [OF m]; simp)
  then obtain au where au: "co_auth co = Some au" "auth_configured G io cli au"
    using build_operator_auth_None [of G io cli] build_operator_auth_Some assms(2) by (cases "co_auth co") auto
  obtain rounds ext where "intercept (cr_jwt G) (co_auth co) rounds md = Inr ext"
    using assms(3,4) unfolding log_authorized_def by fastforce
  then show ?thesis using intercept_proves [OF au(2), of rounds md ext] au(1) by auto
qed

text \<open>A coordinator that started has a CA that was loaded.\<close>

lemma ca_generate_material: "ca_generate K gen now ttl = Inr (ca, m) \<Longrightarrow> \<exists>cert_pem key_pem. from_material K cert_pem key_pem ttl = Inr ca"
  by (fastforce simp: ca_generate_def Let_def split: if_splits sum.splits)

lemma load_or_generate_material:
  assumes "load_or_generate K io ttl table = (Inr ca, table')"
  shows "\<exists>cert_pem key_pem. from_material K cert_pem key_pem ttl = Inr ca"
proof (cases table)
  case Nil
  then show ?thesis
    using assms ca_generate_material by (fastforce simp: load_or_generate_def ca_commit_def split: if_splits sum.splits commit.splits prod.splits)
next
  case (Cons row rows)
  then show ?thesis
    using assms by (fastforce simp: load_or_generate_def ca_commit_def split: if_splits sum.splits commit.splits)
qed

lemma open_ca_material:
  assumes "open_ca G io durable table = (Inr ca, table')"
  shows "\<exists>cert_pem key_pem. from_material (cr_pki G) cert_pem key_pem HOST_CERT_TTL = Inr ca"
proof (cases durable)
  case True
  then have "load_or_generate (cr_pki G) (st_ca io) HOST_CERT_TTL table = (Inr ca, table')"
    using assms by (auto simp: open_ca_def map_sum_def split: prod.splits sum.splits)
  then show ?thesis by (rule load_or_generate_material)
next
  case False
  then obtain m where "ca_generate (cr_pki G) (ci_gen (st_ca io)) (ci_now (st_ca io)) HOST_CERT_TTL = Inr (ca, m)"
    using assms by (auto simp: open_ca_def map_sum_def split: sum.splits)
  then show ?thesis by (rule ca_generate_material)
qed

lemma started_fleet_laws:
  assumes "coordinator_main G io cli table = (Inr co, table')" "pki_issues (cr_pki G) ec" "uuid_laws (cr_uuid G)"
    and "\<forall>der. pem_contents (cr_pki G) (pem_of (cr_pki G) der) = Inr der"
  shows "fleet_laws G co ec HOST_CERT_TTL"
proof -
  obtain addr mqtt_addr durable ca where "parse_socket_addr (cli_grpc_bind cli) = Some addr"
      "parse_socket_addr (cli_mqtt_bind cli) = Some mqtt_addr" "db_open io (cli_database_url cli) = Inr durable"
    and ca: "open_ca G io durable table = (Inr ca, table')" and m: "start_services G io cli addr mqtt_addr durable ca = Inr co"
    by (rule coordinator_main_Inr [OF assms(1)])
  have "co_ca co = ca" by (rule start_services_Inr [OF m]) simp
  moreover note open_ca_material [OF ca]
  ultimately show ?thesis using assms by (simp add: fleet_laws_def)
qed

subsection \<open>Host identities\<close>

text \<open>The identity in a directory was enrolled from it, and the coordinator accepts its certificate while it lasts.\<close>

definition host_admitted ::
  "crates \<Rightarrow> coordinator \<Rightarrow> (string \<Rightarrow> bytes option) \<Rightarrow> (bytes \<Rightarrow> bool) \<Rightarrow> int \<Rightarrow> 'g fleet_log list \<Rightarrow> string \<Rightarrow> id_fs \<Rightarrow> bool" where
  "host_admitted G co csr_for ec ttl log dir fs \<longleftrightarrow>
     (\<exists>h csr t der. dir_identity G co csr_for log dir fs h csr t der
        \<and> (\<forall>pk now. csr_from_der (cr_pki G) csr = Inr pk \<and> ec pk \<and> t - CLOCK_SKEW \<le> now \<and> now + SECOND \<le> t + ttl
             \<longrightarrow> verify_host_cert (cr_pki G) (cr_uuid G) now (co_ca co) der = Inr \<lparr>vh_host_id = h, vh_public_key_sec1 = pk\<rparr>))"

fun enrolled_hosts :: "'g fleet_log list \<Rightarrow> uuid list" where
  "enrolled_hosts [] = []"
| "enrolled_hosts (e # log) = (case e of Enrolled _ _ h _ _ _ \<Rightarrow> h # enrolled_hosts log | _ \<Rightarrow> enrolled_hosts log)"

lemma enrolled_hosts_mem: "Enrolled dir token h csr t der \<in> set log \<Longrightarrow> h \<in> set (enrolled_hosts log)"
  by (induction log) (auto split: fleet_log.split)

lemma enrolled_once:
  assumes "distinct (enrolled_hosts log)" "Enrolled dir token h csr t der \<in> set log" "Enrolled dir' token' h csr' t' der' \<in> set log"
  shows "dir = dir'"
  using assms
proof (induction log)
  case (Cons e log)
  show ?case
  proof (cases "\<exists>d tok csr0 t0 der0. e = Enrolled d tok h csr0 t0 der0")
    case True
    then have "h \<notin> set (enrolled_hosts log)" using Cons.prems(1) by auto
    then show ?thesis using Cons.prems(2,3) enrolled_hosts_mem [of dir token h csr t der log] enrolled_hosts_mem [of dir' token' h csr' t' der' log] by auto
  next
    case False
    moreover have "distinct (enrolled_hosts log)"
      using Cons.prems(1) by (cases e) auto
    ultimately show ?thesis using Cons by auto
  qed
qed simp

definition fleet_sound ::
  "crates \<Rightarrow> coordinator \<Rightarrow> (string \<Rightarrow> bytes option) \<Rightarrow> (bytes \<Rightarrow> bool) \<Rightarrow> int \<Rightarrow> (string \<Rightarrow> 'k) \<Rightarrow> ('g \<Rightarrow> 'k option) \<Rightarrow> ('g, 't, 'r, 'a) fleet \<Rightarrow> bool" where
  "fleet_sound G co csr_for ec ttl tkey mints fl \<longleftrightarrow>
     (\<forall>dir. id_visible (fl_dirs fl dir) KEY_FILE \<noteq> None \<longrightarrow> host_admitted G co csr_for ec ttl (fl_log fl) dir (fl_dirs fl dir))
     \<and> (distinct (enrolled_hosts (fl_log fl)) \<longrightarrow>
          (\<forall>dir dir'. id_visible (fl_dirs fl dir) KEY_FILE \<noteq> None \<and> id_visible (fl_dirs fl dir') KEY_FILE \<noteq> None
             \<and> file_text (fl_dirs fl dir) HOST_ID_FILE = file_text (fl_dirs fl dir') HOST_ID_FILE \<longrightarrow> dir = dir'))
     \<and> (\<forall>k. enrolled_with tkey k (fl_log fl) \<le> minted_as mints k (fl_log fl))
     \<and> no_renewal_after_revoke (fl_log fl)
     \<and> log_authorized G co (fl_log fl)"

lemma dirs_ok_admitted:
  assumes "fleet_laws G co ec ttl" "dirs_ok G co csr_for fl" "id_visible (fl_dirs fl dir) KEY_FILE \<noteq> None"
  shows "host_admitted G co csr_for ec ttl (fl_log fl) dir (fl_dirs fl dir)"
proof -
  obtain h csr t der where id: "dir_identity G co csr_for (fl_log fl) dir (fl_dirs fl dir) h csr t der"
    using assms(2,3) unfolding dirs_ok_def by blast
  have issue: "ca_issue (cr_pki G) (cr_uuid G) t (co_ca co) h csr = Inr der"
    using dir_identity_issued [OF _ id] assms(2) unfolding dirs_ok_def by blast
  obtain cert_pem key_pem where m: "from_material (cr_pki G) cert_pem key_pem ttl = Inr (co_ca co)"
      "pki_issues (cr_pki G) ec" "uuid_laws (cr_uuid G)"
    using assms(1) unfolding fleet_laws_def by blast
  have "verify_host_cert (cr_pki G) (cr_uuid G) now (co_ca co) der = Inr \<lparr>vh_host_id = h, vh_public_key_sec1 = pk\<rparr>"
    if "csr_from_der (cr_pki G) csr = Inr pk" "ec pk" "t - CLOCK_SKEW \<le> now" "now + SECOND \<le> t + ttl" for pk now
    using issue_verifies [OF m(2,3,1) that(1,2) issue that(3,4)] by blast
  then show ?thesis using id unfolding host_admitted_def by blast
qed

lemma dirs_ok_distinct:
  assumes "fleet_laws G co ec ttl" "dirs_ok G co csr_for fl" "distinct (enrolled_hosts (fl_log fl))"
    and "id_visible (fl_dirs fl dir) KEY_FILE \<noteq> None" "id_visible (fl_dirs fl dir') KEY_FILE \<noteq> None"
    and "file_text (fl_dirs fl dir) HOST_ID_FILE = file_text (fl_dirs fl dir') HOST_ID_FILE"
  shows "dir = dir'"
proof -
  obtain h csr t der where id: "dir_identity G co csr_for (fl_log fl) dir (fl_dirs fl dir) h csr t der"
    using assms(2,4) unfolding dirs_ok_def by blast
  obtain h' csr' t' der' where id': "dir_identity G co csr_for (fl_log fl) dir' (fl_dirs fl dir') h' csr' t' der'"
    using assms(2,5) unfolding dirs_ok_def by blast
  have "file_text (fl_dirs fl dir) HOST_ID_FILE = Some (hyphenated (cr_uuid G) h)"
      "file_text (fl_dirs fl dir') HOST_ID_FILE = Some (hyphenated (cr_uuid G) h')"
    using id id' unfolding dir_identity_def by blast+
  then have "h' = h" using hyphenated_inj [of "cr_uuid G" h h'] assms(1,6) by (simp add: fleet_laws_def)
  moreover obtain token t0 der0 where "Enrolled dir token h csr t0 der0 \<in> set (fl_log fl)" using id unfolding dir_identity_def by blast
  moreover obtain token' t1 der1 where "Enrolled dir' token' h' csr' t1 der1 \<in> set (fl_log fl)" using id' unfolding dir_identity_def by blast
  ultimately show ?thesis using enrolled_once [OF assms(3)] by blast
qed

context fleet_stores
begin

lemma fleet_invariants:
  assumes "fleet_laws G co ec ttl" "dirs_ok G co csr_for fl" "stores_ok tkey mints live tinv revoked fl" "log_authorized G co (fl_log fl)"
  shows "dirs_ok G co csr_for (fleet_run Q G co csr_for header_ok evs fl)
    \<and> stores_ok tkey mints live tinv revoked (fleet_run Q G co csr_for header_ok evs fl)
    \<and> log_authorized G co (fl_log (fleet_run Q G co csr_for header_ok evs fl))"
  using assms(2-4) unfolding fleet_run_def
proof (induction evs arbitrary: fl)
  case (Cons ev evs)
  show ?case
    using Cons.IH [OF dirs_ok_step [OF assms(1) Cons.prems(1)] stores_ok_step [OF Cons.prems(2)] log_authorized_step [OF Cons.prems(3)]]
    by simp
qed simp

lemma fleet_sound_run:
  assumes "fleet_laws G co ec ttl" "tinv t" "\<And>k. \<not> live t k"
  shows "fleet_sound G co csr_for ec ttl tkey mints (fleet_run Q G co csr_for header_ok evs (fleet_start t r audit))"
proof -
  let ?start = "fleet_start t r audit"
  have "dirs_ok G co csr_for ?start" by (simp add: dirs_ok_def fleet_start_def log_issued_def owner_only_at_def)
  moreover have "stores_ok tkey mints live tinv revoked ?start"
    using assms(2,3) by (simp add: stores_ok_def fleet_start_def new_service_def no_renewal_after_revoke_def)
  moreover have "log_authorized G co (fl_log ?start)" by (simp add: log_authorized_def fleet_start_def)
  ultimately have inv: "dirs_ok G co csr_for (fleet_run Q G co csr_for header_ok evs ?start)"
      "stores_ok tkey mints live tinv revoked (fleet_run Q G co csr_for header_ok evs ?start)"
      "log_authorized G co (fl_log (fleet_run Q G co csr_for header_ok evs ?start))"
    using fleet_invariants [OF assms(1)] by blast+
  have "enrolled_with tkey k log \<le> minted_as mints k log"
    if "enrolled_with tkey k log + (if live s k then 1 else 0) \<le> minted_as mints k log" for k log s
    using that by (simp split: if_splits)
  then show ?thesis
    using inv dirs_ok_admitted [OF assms(1) inv(1)] dirs_ok_distinct [OF assms(1) inv(1)]
    unfolding fleet_sound_def stores_ok_def by meson
qed

end


definition fleet_pki :: pki where
  "fleet_pki = sample_pki\<lparr>pem_of := map (\<lambda>b. char_of (unat b)), pem_contents := (\<lambda>s. Inr (map (\<lambda>c. of_nat (of_char c)) s))\<rparr>"

definition fleet_crates :: crates where
  "fleet_crates = sample_crates\<lparr>cr_pki := fleet_pki\<rparr>"

definition fleet_mint :: "nat \<Rightarrow> mint_env" where
  "fleet_mint ttl = \<lparr>me_ttl = ttl, me_now1 = 0, me_now2 = 0, me_raw = Some [0xAB]\<rparr>"

definition fleet_events :: "(mint_env, int) fleet_event list" where
  "fleet_events = [RunToken None True [] fleet_mint, EnrollHost ''a'' sample_enroll_io ''ab'' 10 5 0 True True]"

lemma fleet_pki_laws:
  assumes "from_material fleet_pki cert_pem key_pem (3600 * SECOND) = Inr (co_ca co)"
  shows "fleet_laws fleet_crates co (\<lambda>k. k = [7]) (3600 * SECOND)"
proof -
  have "pki_issues fleet_pki (\<lambda>k. k = [7])" using sample_pki_issues by (simp add: pki_issues_def fleet_pki_def)
  moreover have "(of_nat (of_char (char_of (unat b) :: char)) :: u8) = b" for b
  proof -
    have "unat b < 256" by (rule byte_nibbles)
    then show ?thesis by simp
  qed
  then have "pem_contents fleet_pki (pem_of fleet_pki der) = Inr der" for der by (simp add: fleet_pki_def map_idI)
  ultimately show ?thesis
    using assms tally_uuid_laws by (auto simp: fleet_laws_def fleet_crates_def sample_crates_def)
qed

lemma fleet_enrolls:
  assumes "co_auth co = None" "co_default_ttl co = 60" "ca_cert_ttl (co_ca co) = 3600 * SECOND"
  shows "id_visible (fl_dirs (fleet_run memory_ports fleet_crates co (\<lambda>_. Some [3]) (\<lambda>_. True) fleet_events (fleet_start (registry_new 30) [] ())) ''a'') KEY_FILE \<noteq> None"
proof -
  let ?start = "fleet_start (registry_new 30) [] () :: (mint_env, token_registry, uuid list, unit) fleet"
  obtain reg where r: "registry_mint (fleet_mint 60) (registry_new 30) = (Inr (''ab'', 0), reg)"
    by (simp add: fleet_mint_def registry_mint_def registry_new_def DEFAULT_MAX_OUTSTANDING_def hex_def hex_byte_def
        hex_digits_def unix_seconds_def Let_def)
  define fl where "fl = fleet_step memory_ports fleet_crates co (\<lambda>_. Some [3]) (\<lambda>_. True) (RunToken None True [] fleet_mint) ?start"
  have fl: "sv_tokens (fl_service fl) = reg" "fl_dirs fl = fl_dirs ?start"
    using assms r by (simp_all add: fl_def cli_token_def call_coordinator_def authed_def serve_mint_def intercept_def mint_token_call_def
        memory_ports_def fleet_start_def new_service_def Let_def)
  have "fst (registry_redeem 10 ''ab'' reg) = Inr ()"
    using registry_redeem_exact [of 10 _ "registry_new 30" "fleet_mint 60"] r by (simp add: fleet_mint_def registry_new_def)
  then obtain reg' where redeem: "registry_redeem 10 ''ab'' reg = (Inr (), reg')" by (metis prod.collapse)
  have issue: "ca_issue fleet_pki tally_uuid 0 (co_ca co) 5 [3] = Inr [1]"
    using assms(3) by (simp add: ca_issue_def fleet_pki_def sample_pki_def)
  have call: "fst (enroll_call fleet_pki tally_uuid (co_ca co) (fp_redeem memory_ports 10) 5 0 ''ab'' [3] (fl_service fl))
      = Inr \<lparr>er_host_id = hyphenated tally_uuid 5, er_cert = [1], er_ca_root = ca_root_der (co_ca co)\<rparr>"
    using fl(1) redeem issue by (simp add: enroll_call_def validate_csr_def memory_ports_def fleet_pki_def sample_pki_def Let_def)
  let ?idn = "identity_for fleet_pki ''k'' \<lparr>er_host_id = hyphenated tally_uuid 5, er_cert = [1], er_ca_root = ca_root_der (co_ca co)\<rparr>"
  have tok: "trim ''ab'' \<noteq> []" by code_simp
  have new: "ensure_not_enrolled False (fl_dirs fl ''a'') = Inr ()" using fl(2) by (simp add: ensure_not_enrolled_def fleet_start_def)
  obtain fs where fs: "persist sample_persist_io ?idn False (fl_dirs fl ''a'') = (Inr (), fs)" "stored ?idn fs"
    using persist_all_ok [OF new, of ?idn] by (cases "persist sample_persist_io ?idn False (fl_dirs fl ''a'')") auto
  have "fl_dirs (enroll_host memory_ports fleet_crates co (\<lambda>_. Some [3]) ''a'' sample_enroll_io ''ab'' 10 5 0 True True fl) ''a'' = fs"
    using tok new fs(1) call
    by (simp add: enroll_host_def enroll_run_def sample_enroll_io_def identity_for_def fleet_crates_def sample_crates_def Let_def)
  moreover have "fl = snd (cli_token (\<lambda>_. True) True None (serve_mint memory_ports fleet_crates co [] fleet_mint) ?start)" by (simp add: fl_def)
  moreover have "id_visible fs KEY_FILE \<noteq> None" using fs(2) by (auto simp: stored_def)
  ultimately show ?thesis by (simp add: fleet_run_def fleet_events_def)
qed


end
