(* ===== verification/Spec2Isabelle.thy ===== *)
theory Spec2Isabelle
  imports Reorder Topics Policy Dispatch Coord_Session Registries Join_Tokens Audit_Chain Control_Channel Ca Broker_Safety Service_Safety Upsert_Tasks Enroll Jwks Exec_Path Host_Inventory Startup Pty Agent_Main Fleet
begin

text \<open>
  Open SSM Agent: a verification development.

  \<^bold>\<open>The program.\<close>  Operators run commands and shells on hosts.  An operator's client (\<open>osa\<close>,
  \<^verbatim>\<open>src/osa-cli\<close>) calls the coordinator (\<^verbatim>\<open>src/osa-coordinator\<close>) over gRPC; the coordinator decides each
  request with its policy, writes the decision to a hash-chained audit log, and dispatches through an
  MQTT broker that is not trusted; the agent (\<^verbatim>\<open>src/osa-agent\<close>) on the host checks the dispatch against a
  local allowlist and runs it.  Agent and coordinator agree on session keys with a signed handshake and
  exchange sealed envelopes.  Hosts obtain their identity with a join token and renew it; operators
  revoke it.  Hosts report an inventory, which the coordinator writes to NetBox.  What both sides
  share is \<^verbatim>\<open>src/osa-core\<close>; the messages are \<^verbatim>\<open>src/osa-proto\<close>.

  \<^bold>\<open>Conventions.\<close>  A string is its list of UTF-8 bytes, bytes are words of 8 bits, \<open>u64\<close> and \<open>i64\<close> are
  words of 64 bits with the wrap-around, saturation or check the source uses, a UUID is a word of 128
  bits.  A struct is a record, an enum a datatype, a hash map an association list, a fallible
  function returns a sum whose left side is the error.  A handler takes the state and returns it
  updated, with what it sent, published or wrote as lists in order.  Every answer of the outside (a
  system call, a statement, a clock, a random value, a peer) is an argument, so a theorem for all
  arguments covers every failure.  Crates that are not part of the sources are records of
  functions: \<open>crypto\<close> (AEAD, HKDF, X25519, Ed25519, SHA-256), \<open>codecs\<close> (the generated protobuf code),
  \<open>uuid_lib\<close>, \<open>pki\<close> (X.509), \<open>jwt_lib\<close>, \<open>crates\<close> (what the start calls), \<open>netbox_server\<close>.  What a theorem
  needs of them is one of its hypotheses, with a witness on a concrete instance.

  \<^bold>\<open>Foundations.\<close>
  \<^item> \<open>Osa_Prelude\<close>: integers, byte strings, encodings with their injectivity, lists and maps.
  \<^item> \<open>Rust_Str\<close>, \<open>Rust_Net\<close>: the operations of \<open>str\<close> and the parser of \<open>IpAddr\<close> of the standard library.
  \<^item> \<open>Channels\<close>: a bounded \<open>mpsc\<close> channel with both its ends.
  \<^item> \<open>Proto\<close>: the messages of \<^verbatim>\<open>osa-proto/proto/osa.proto\<close>.  \<open>Sample_Codecs\<close>: a lossless instance of \<open>codecs\<close>.

  \<^bold>\<open>The sealed channel.\<close>
  \<^item> \<open>Seal\<close> (\<^verbatim>\<open>osa-core/src/seal.rs\<close>, \<^verbatim>\<open>wire.rs\<close>): key derivation, nonces, associated data, envelopes; what opens was
    sealed with this header and number.
  \<^item> \<open>Handshake\<close> (\<^verbatim>\<open>handshake.rs\<close>): both transcripts and both sides; mutual authentication and key agreement.
  \<^item> \<open>Channel_Guard\<close>: the locales \<open>replay_guard\<close> (a receiver that authenticates and then compares numbers) and
    \<open>nonce_source\<close> (a sender that never repeats one), interpreted for the agent, the coordinator and the
    shell routes on both sides.
  \<^item> \<open>Agent_Session\<close> (\<^verbatim>\<open>osa-agent/src/session.rs\<close>), \<open>Coord_Session\<close> (\<^verbatim>\<open>osa-coordinator/src/session.rs\<close>): the two
    ends of a session and the agent's durable epoch counter over failed calls and crashes.
  \<^item> \<open>Reorder\<close> (\<^verbatim>\<open>osa-core/src/stream.rs\<close>): the reorder buffer: order, exactly-once, bound, completeness.
  \<^item> \<open>Topics\<close> (\<^verbatim>\<open>topics.rs\<close>): the topic scheme and its round trips.

  \<^bold>\<open>The coordinator.\<close>
  \<^item> \<open>Policy\<close>, \<open>Jwt_Auth\<close>, \<open>Jwks\<close> (\<^verbatim>\<open>policy.rs\<close>, both \<^verbatim>\<open>auth.rs\<close>, \<^verbatim>\<open>jwks.rs\<close>): who an operator is and what is granted.
  \<^item> \<open>Audit_Chain\<close> (\<^verbatim>\<open>osa-core/src/audit.rs\<close>, \<^verbatim>\<open>audit_log.rs\<close>), \<open>Registries\<close> (\<^verbatim>\<open>epoch.rs\<close>, \<^verbatim>\<open>revocation.rs\<close>), \<open>Join_Tokens\<close>
    (\<^verbatim>\<open>token.rs\<close>): each store in memory and in Postgres, behind the locale of its port.
  \<^item> \<open>Ca\<close> (\<^verbatim>\<open>ca.rs\<close>): issuing, renewing, verifying; replicas that start together share one CA.
  \<^item> \<open>Broker\<close>, \<open>Broker_Safety\<close> (\<^verbatim>\<open>broker.rs\<close>): every handler, sweep and queue of the bridge as one step function
    and runs of it; who gets a session, bounds, who receives a result, that nobody is left waiting.
  \<^item> \<open>Service\<close>, \<open>Service_Safety\<close> (\<^verbatim>\<open>service.rs\<close>): the operator and enrollment calls with the fan-out and the shell
    pumps; decisions are audited before anything is dispatched.
  \<^item> \<open>Netbox\<close>, \<open>Netbox_Safety\<close>, \<open>Upsert_Tasks\<close> (\<^verbatim>\<open>netbox.rs\<close>): the sink and the REST client; order of the writes, which
    device is written, retries, and the tasks that run concurrently under the lock of their host.
  \<^item> \<open>Startup\<close> (\<^verbatim>\<open>main.rs\<close>): the order of the start, its failures, the broker's configuration, the router and
    its interceptor.

  \<^bold>\<open>The agent.\<close>
  \<^item> \<open>Allowlist\<close> (\<^verbatim>\<open>osa-core/src/allowlist.rs\<close>, \<^verbatim>\<open>backstop.rs\<close>), \<open>Job_Store\<close> (\<^verbatim>\<open>jobstore.rs\<close>), \<open>Exec\<close> (\<^verbatim>\<open>exec.rs\<close>), \<open>Dispatch\<close>
    (\<^verbatim>\<open>dispatch.rs\<close>): \<open>run_job\<close> is the job runner as a function and \<open>job_step\<close> the same cut at its awaits, for any
    number of tasks with crashes; the first refines the second, and a job is started at most once.
  \<^item> \<open>Shell_Stream\<close> (\<^verbatim>\<open>shell_stream.rs\<close>), \<open>Pty\<close> (\<^verbatim>\<open>pty.rs\<close>): shells, their isolation, privilege drop and teardown.
  \<^item> \<open>Control_Channel\<close>, \<open>Agent_Run\<close> (\<^verbatim>\<open>control_channel.rs\<close>): the select loop of a connection as a step function
    and the reconnect loop around it.
  \<^item> \<open>Enroll\<close> (\<^verbatim>\<open>enroll.rs\<close>): enrollment and renewal with the files they write, call by call.
  \<^item> \<open>Host_Inventory\<close> (\<^verbatim>\<open>inventory.rs\<close>): the snapshot and its gaps, canonical for the host.
  \<^item> \<open>Agent_Main\<close> (\<^verbatim>\<open>main.rs\<close>): the subcommands, and the renewal loop beside the control channel.

  \<^bold>\<open>The client and the whole.\<close>
  \<^item> \<open>Cli\<close>, \<open>Osa_Main\<close> (\<^verbatim>\<open>osa-cli/src/main.rs\<close>): every subcommand, its output and its exit status.
  \<^item> \<open>Exec_Path\<close>: from \<open>osa exec\<close> through service, bridge and broker to the process on the host.
  \<^item> \<open>Shell_Path\<close>: from the keyboard to the PTY and back, over a broker that drops, repeats, reorders, injects.
  \<^item> \<open>Fleet\<close>: the history of host identities across client, coordinator and hosts, for both kinds of
    stores behind the locale \<open>fleet_stores\<close>.

  \<^bold>\<open>Loops and bounds.\<close>  No definition carries fuel.  A loop that reads events (the select loops, the
  bridge, the pumps, the reconnect and the renewal loop) recurses on the list of events the outside
  delivers; a loop that never ends in the program is stated over every finite list, as that it is
  still running and in which state.  The retry loop of an upsert ends by its counter, the drain of
  the reorder buffer by the held items, the loops of the PTY by the remaining events.  Limits (queues,
  output caps, time to live, backoff) are the constants of the source.

  \<^bold>\<open>Granularity.\<close>  Concurrency is modelled where tasks share state: job tasks on one job store, upserts
  under host locks, processes beside the agent, renewal beside the connection, replicas on one
  database.  A handler between two awaits is one step.  An SQL statement or transaction is one step
  whose effect and outcome may disagree when the connection is lost.  One attempt of an upsert
  is one step against NetBox.

  \<^bold>\<open>Not modelled.\<close>  The broker (rumqttd), the MQTT and gRPC clients, TLS, the database and NetBox are not code
  of this repository: they deliver or answer anything within the documented limits written as
  hypotheses.  \<^verbatim>\<open>db.rs\<close> and the migrations only call sqlx and declare tables; the uniqueness they declare
  is written into the operations on the tables.  The protobuf compiler's output and \<^verbatim>\<open>build.rs\<close> are
  generated code and its generator.  Parsing of the command line by clap, log lines, and the NetBox preflight,
  which only logs, have no effect on a state.  The port traits \<open>ControlChannel\<close>,
  \<open>JobCapability\<close> and \<open>StreamCapability\<close> have no implementation.
\<close>

end
